(* ===== verification/Naos_Prelude.thy ===== *)
theory Naos_Prelude
  imports Main "HOL-Library.Word" "HOL-Library.AList"
begin

text \<open>
  Shared vocabulary of the development: the machine integer types of
  \<^verbatim>\<open>kernel/types.hpp\<close>, the status codes, rights and limits of the native ABI
  (\<^verbatim>\<open>naos/include/naos/abi.h\<close>), and the generic facts on words, lists and circular
  arrays on which the component theories rest. Circular arrays occur three times in the
  sources (\<^verbatim>\<open>bounded_queue\<close>, \<^verbatim>\<open>shared_ring\<close> and the byte rings of
  \<^verbatim>\<open>terminal_core\<close>); \<open>ring_contents\<close> is their common abstraction to a list.
\<close>

unbundle bit_operations_syntax

type_synonym u8 = "8 word"
type_synonym u16 = "16 word"
type_synonym u32 = "32 word"
type_synonym u64 = "64 word"
type_synonym byte = "8 word"

type_synonym na_handle = u64
type_synonym na_signal = u64
type_synonym na_meta_rights = u64

named_theorems ring_simps \<open>facts on circular arrays\<close>
named_theorems abi_defs \<open>definitions of the ABI constants\<close>

section \<open>The native ABI\<close>

datatype na_status =
    NA_STATUS_OK
  | NA_STATUS_INVALID_HANDLE
  | NA_STATUS_WRONG_BINDING
  | NA_STATUS_WRONG_SCOPE
  | NA_STATUS_ACCESS_DENIED
  | NA_STATUS_INVALID_ARGUMENT
  | NA_STATUS_INVALID_MESSAGE
  | NA_STATUS_BUFFER_TOO_SMALL
  | NA_STATUS_WOULD_BLOCK
  | NA_STATUS_WAIT_TIMED_OUT
  | NA_STATUS_RESOURCE_EXHAUSTED
  | NA_STATUS_FAULT
  | NA_STATUS_OBJECT_REVOKED
  | NA_STATUS_PEER_CLOSED
  | NA_STATUS_ALREADY_CONSUMED
  | NA_STATUS_NOT_SUPPORTED
  | NA_STATUS_IO_ERROR

text \<open>
  The error numbers of \<^verbatim>\<open>kernel/errno.hpp\<close> and of the C library that the modelled code
  returns; in both the value of a result is negative exactly for an error.
\<close>

datatype errno = EINVAL | EIO | EPIPE | EAGAIN | ENOTSUP | ENOMEM | EEXIST | ENOENT | EACCES

definition NA_HANDLE_INVALID :: na_handle where [abi_defs]:
  "NA_HANDLE_INVALID = 0"

definition NA_CHANNEL_MAX_MESSAGE_BYTES :: u64 where [abi_defs]:
  "NA_CHANNEL_MAX_MESSAGE_BYTES = 65536"
definition NA_CHANNEL_MAX_RESOURCES :: u64 where [abi_defs]:
  "NA_CHANNEL_MAX_RESOURCES = 64"
definition NA_CHANNEL_MAX_MESSAGES :: u64 where [abi_defs]:
  "NA_CHANNEL_MAX_MESSAGES = 1024"
definition NA_CHANNEL_DEFAULT_MAX_MESSAGES :: u64 where [abi_defs]:
  "NA_CHANNEL_DEFAULT_MAX_MESSAGES = 64"
definition NA_CHANNEL_DEFAULT_MAX_BYTES :: u64 where [abi_defs]:
  "NA_CHANNEL_DEFAULT_MAX_BYTES = 1048576"
definition NA_CHANNEL_DEFAULT_MAX_RESOURCES :: u64 where [abi_defs]:
  "NA_CHANNEL_DEFAULT_MAX_RESOURCES = 256"
definition NA_CHANNEL_GLOBAL_MAX_MESSAGES :: u64 where [abi_defs]:
  "NA_CHANNEL_GLOBAL_MAX_MESSAGES = 4096"
definition NA_CHANNEL_GLOBAL_MAX_BYTES :: u64 where [abi_defs]:
  "NA_CHANNEL_GLOBAL_MAX_BYTES = 16777216"
definition NA_CHANNEL_GLOBAL_MAX_RESOURCES :: u64 where [abi_defs]:
  "NA_CHANNEL_GLOBAL_MAX_RESOURCES = 16384"
definition NA_CAPABILITY_MAX_PER_PROCESS :: u64 where [abi_defs]:
  "NA_CAPABILITY_MAX_PER_PROCESS = 4096"
definition NA_MEMORY_OBJECT_MAX_BYTES :: u64 where [abi_defs]:
  "NA_MEMORY_OBJECT_MAX_BYTES = 16777216"
definition NA_SHARED_RING_MAX_SLOTS :: u64 where [abi_defs]:
  "NA_SHARED_RING_MAX_SLOTS = 256"
definition NA_SHARED_RING_MAX_SLOT_BYTES :: u64 where [abi_defs]:
  "NA_SHARED_RING_MAX_SLOT_BYTES = 65536"
definition NA_SHARED_RING_MAX_BYTES :: u64 where [abi_defs]:
  "NA_SHARED_RING_MAX_BYTES = 4194304"

definition NA_RIGHT_DUPLICATE :: na_meta_rights where [abi_defs]: "NA_RIGHT_DUPLICATE = 1"
definition NA_RIGHT_TRANSFER :: na_meta_rights where [abi_defs]: "NA_RIGHT_TRANSFER = 2"
definition NA_RIGHT_WAIT :: na_meta_rights where [abi_defs]: "NA_RIGHT_WAIT = 4"
definition NA_RIGHT_INSPECT :: na_meta_rights where [abi_defs]: "NA_RIGHT_INSPECT = 8"

definition NA_SIGNAL_READABLE :: na_signal where [abi_defs]: "NA_SIGNAL_READABLE = 1"
definition NA_SIGNAL_WRITABLE :: na_signal where [abi_defs]: "NA_SIGNAL_WRITABLE = 2"
definition NA_SIGNAL_PEER_CLOSED :: na_signal where [abi_defs]: "NA_SIGNAL_PEER_CLOSED = 4"

definition NA_RESOURCE_MOVE :: u32 where [abi_defs]: "NA_RESOURCE_MOVE = 1"
definition NA_RESOURCE_DUPLICATE :: u32 where [abi_defs]: "NA_RESOURCE_DUPLICATE = 2"

definition NA_BINDING_NONE :: u32 where [abi_defs]: "NA_BINDING_NONE = 0"
definition NA_BINDING_RAW_CHANNEL_END :: u32 where [abi_defs]: "NA_BINDING_RAW_CHANNEL_END = 1"
definition NA_BINDING_CLIENT_END :: u32 where [abi_defs]: "NA_BINDING_CLIENT_END = 2"
definition NA_BINDING_KERNEL_VIEW :: u32 where [abi_defs]: "NA_BINDING_KERNEL_VIEW = 4"

definition NA_BINDING_SERVER_END :: u32 where [abi_defs]: "NA_BINDING_SERVER_END = 3"

definition NA_PROTOCOL_RIGHT_INVOKE :: u64 where [abi_defs]: "NA_PROTOCOL_RIGHT_INVOKE = 1"

definition NA_MEMORY_FLAG_READ_ONLY :: u32 where [abi_defs]: "NA_MEMORY_FLAG_READ_ONLY = 1"

definition NA_RESTRICTION_SCOPE :: u32 where [abi_defs]: "NA_RESTRICTION_SCOPE = 1"
definition NA_RESTRICTION_REVISION :: u32 where [abi_defs]: "NA_RESTRICTION_REVISION = 2"
definition NA_RESTRICTION_FEATURES :: u32 where [abi_defs]: "NA_RESTRICTION_FEATURES = 4"
definition NA_RESTRICTION_META_RIGHTS :: u32 where [abi_defs]: "NA_RESTRICTION_META_RIGHTS = 8"
definition NA_RESTRICTION_PROTOCOL_RIGHTS :: u32 where [abi_defs]: "NA_RESTRICTION_PROTOCOL_RIGHTS = 16"

section \<open>Words\<close>

lemma unat_add_no_wrap:
  fixes x y :: u64
  assumes "unat x + unat y < 2 ^ 64"
  shows "unat (x + y) = unat x + unat y"
  using assms by (simp add: unat_add_lem [THEN iffD1])

lemma unat_sub_le:
  fixes x y :: "'a::len word"
  assumes "y \<le> x"
  shows "unat (x - y) = unat x - unat y"
  using assms by (simp add: unat_sub)

lemma unat_eq_zero_iff [simp]: "unat (x :: 'a::len word) = 0 \<longleftrightarrow> x = 0"
  by (rule unat_eq_0)

lemma word_neq_0_conv_unat: "(x :: 'a::len word) \<noteq> 0 \<longleftrightarrow> 0 < unat x"
  by (simp add: unat_gt_0)

section \<open>Circular arrays\<close>

text \<open>
  The list a circular array holds: \<open>n\<close> elements of \<open>st\<close>, from position \<open>h\<close> on, modulo
  the length of the array.
\<close>

definition ring_contents :: "'a list \<Rightarrow> nat \<Rightarrow> nat \<Rightarrow> 'a list" where
  "ring_contents st h n = map (\<lambda>i. st ! ((h + i) mod length st)) [0..<n]"

lemma length_ring_contents [simp, ring_simps]: "length (ring_contents st h n) = n"
  by (simp add: ring_contents_def)

lemma ring_contents_0 [simp, ring_simps]: "ring_contents st h 0 = []"
  by (simp add: ring_contents_def)

lemma ring_contents_nth [ring_simps]:
  "i < n \<Longrightarrow> ring_contents st h n ! i = st ! ((h + i) mod length st)"
  by (simp add: ring_contents_def)

lemma ring_contents_empty_iff [simp]: "ring_contents st h n = [] \<longleftrightarrow> n = 0"
  by (simp add: ring_contents_def)

lemma ring_index_inj_le:
  fixes h i j m :: nat
  assumes "i \<le> j" "j < m" "(h + i) mod m = (h + j) mod m"
  shows "i = j"
proof -
  have "m dvd (h + j) - (h + i)"
    using assms(1,3) by (metis add_le_cancel_left mod_eq_dvd_iff_nat)
  then have "m dvd j - i" by simp
  with assms(1,2) show ?thesis by (auto dest: dvd_imp_le)
qed

lemma ring_index_inj:
  fixes h i j m :: nat
  assumes "i < m" "j < m" "(h + i) mod m = (h + j) mod m"
  shows "i = j"
  using assms ring_index_inj_le [of i j m h] ring_index_inj_le [of j i m h]
  by (cases "i \<le> j") auto

lemma ring_contents_push [ring_simps]:
  assumes "n < length st"
  shows "ring_contents (st[(h + n) mod length st := x]) h (Suc n) = ring_contents st h n @ [x]"
proof (rule nth_equalityI)
  fix i assume "i < length (ring_contents (st[(h + n) mod length st := x]) h (Suc n))"
  then have i: "i < Suc n" by simp
  show "ring_contents (st[(h + n) mod length st := x]) h (Suc n) ! i = (ring_contents st h n @ [x]) ! i"
  proof (cases "i = n")
    case True
    moreover from assms have "(h + n) mod length st < length st" by (intro mod_less_divisor) linarith
    ultimately show ?thesis by (simp add: ring_contents_nth nth_append)
  next
    case False
    with i have "i < n" by simp
    moreover from this assms have "(h + i) mod length st \<noteq> (h + n) mod length st"
      using ring_index_inj [of i "length st" n h] by auto
    ultimately show ?thesis by (simp add: ring_contents_nth nth_append)
  qed
qed simp

lemma ring_contents_update [ring_simps]:
  assumes "i < n" "n \<le> length st"
  shows "ring_contents (st[(h + i) mod length st := x]) h n = (ring_contents st h n)[i := x]"
proof (rule nth_equalityI)
  fix j assume "j < length (ring_contents (st[(h + i) mod length st := x]) h n)"
  then have j: "j < n" by simp
  show "ring_contents (st[(h + i) mod length st := x]) h n ! j = (ring_contents st h n)[i := x] ! j"
  proof (cases "j = i")
    case True
    moreover from assms have "(h + i) mod length st < length st" by (intro mod_less_divisor) linarith
    ultimately show ?thesis using assms by (simp add: ring_contents_nth)
  next
    case False
    with assms j have "(h + j) mod length st \<noteq> (h + i) mod length st"
      using ring_index_inj [of j "length st" i h] by auto
    with False j show ?thesis by (simp add: ring_contents_nth)
  qed
qed simp

lemma ring_contents_pop [ring_simps]:
  "ring_contents st ((h + 1) mod length st) (n - 1) = tl (ring_contents st h n)"
proof (rule nth_equalityI)
  fix i assume "i < length (ring_contents st ((h + 1) mod length st) (n - 1))"
  then have "i < n - 1" "Suc i < n" by simp_all
  then show "ring_contents st ((h + 1) mod length st) (n - 1) ! i = tl (ring_contents st h n) ! i"
    by (simp add: ring_contents_nth nth_tl mod_add_left_eq [of "Suc h" _ i, simplified])
qed simp

lemma ring_contents_hd [ring_simps]:
  "0 < n \<Longrightarrow> h < length st \<Longrightarrow> hd (ring_contents st h n) = st ! h"
  by (simp add: ring_contents_def upt_conv_Cons)

text \<open>The same facts with the length of the array named, the form in which the code has it.\<close>

lemma ring_push:
  assumes "length st = m" "n < m"
  shows "ring_contents (st[(h + n) mod m := x]) h (Suc n) = ring_contents st h n @ [x]"
  using assms ring_contents_push [of n st h x] by simp

lemma ring_update:
  assumes "length st = m" "i < n" "n \<le> m"
  shows "ring_contents (st[(h + i) mod m := x]) h n = (ring_contents st h n)[i := x]"
  using assms ring_contents_update [of i n st h x] by simp

lemma ring_pop:
  assumes "length st = m"
  shows "ring_contents st (Suc h mod m) (n - Suc 0) = tl (ring_contents st h n)"
  using assms ring_contents_pop [of st h n] by simp

lemma ring_contents_Suc:
  "ring_contents st h (Suc n) = ring_contents st h n @ [st ! ((h + n) mod length st)]"
  by (simp add: ring_contents_def)

lemma ring_contents_butlast:
  "ring_contents st h (n - 1) = butlast (ring_contents st h n)"
  by (cases n) (simp_all add: ring_contents_Suc)

end
