(* ===== verification/Claim_Fifo.thy ===== *)
theory Claim_Fifo
  imports Naos_Prelude "HOL-Library.Multiset" "HOL-Library.Sublist"
begin

text \<open>
  The contract of a FIFO with an explicit claim of its head, as the channel queues
  (\<^verbatim>\<open>ipc/bounded_queue.hpp\<close>) and the shared rings (\<^verbatim>\<open>mm/data_plane.cc\<close>) promise
  it: a consumer claims the oldest element, reads it, and then commits the claim (the
  element is consumed) or cancels it (the element stays). The locale \<open>claim_fifo\<close> states
  the laws over an abstraction to a list; its client lemmas are about whole histories of
  operations. \<open>claim_fifo_remove\<close> adds the removal of an unclaimed element by value.
\<close>

datatype 'a fifo_op = Push 'a | Claim | Cancel | Commit | Remove 'a

text \<open>
  What an operation hands over: an accepted element enters the queue, a committed
  element leaves it at the consumer, a removed element leaves it elsewhere.
\<close>

datatype 'a fifo_event = Accepted 'a | Delivered 'a | Removed 'a

fun accepted :: "'a fifo_event list \<Rightarrow> 'a list" where
  "accepted [] = []"
| "accepted (Accepted x # es) = x # accepted es"
| "accepted (_ # es) = accepted es"

fun delivered :: "'a fifo_event list \<Rightarrow> 'a list" where
  "delivered [] = []"
| "delivered (Delivered x # es) = x # delivered es"
| "delivered (_ # es) = delivered es"

fun removed :: "'a fifo_event list \<Rightarrow> 'a list" where
  "removed [] = []"
| "removed (Removed x # es) = x # removed es"
| "removed (_ # es) = removed es"

text \<open>One operation of a claim FIFO, given by its five operations and its observers.\<close>

fun fifo_step ::
  "('a \<Rightarrow> 'q \<Rightarrow> bool \<times> 'q) \<Rightarrow> ('q \<Rightarrow> bool \<times> 'q) \<Rightarrow> ('q \<Rightarrow> 'q) \<Rightarrow> ('q \<Rightarrow> 'q) \<Rightarrow>
   ('a \<Rightarrow> 'q \<Rightarrow> bool \<times> 'q) \<Rightarrow> ('q \<Rightarrow> bool) \<Rightarrow> ('q \<Rightarrow> 'a) \<Rightarrow> 'q \<Rightarrow> 'a fifo_op \<Rightarrow> 'a fifo_event list \<times> 'q"
where
  "fifo_step push claim cancel commit rem clmd frnt q (Push x) =
     (let (ok, q') = push x q in (if ok then [Accepted x] else [], q'))"
| "fifo_step push claim cancel commit rem clmd frnt q Claim = ([], snd (claim q))"
| "fifo_step push claim cancel commit rem clmd frnt q Cancel = ([], cancel q)"
| "fifo_step push claim cancel commit rem clmd frnt q Commit =
     (if clmd q then [Delivered (frnt q)] else [], commit q)"
| "fifo_step push claim cancel commit rem clmd frnt q (Remove x) =
     (let (ok, q') = rem x q in (if ok then [Removed x] else [], q'))"

fun fifo_run ::
  "('q \<Rightarrow> 'a fifo_op \<Rightarrow> 'a fifo_event list \<times> 'q) \<Rightarrow> 'q \<Rightarrow> 'a fifo_op list \<Rightarrow> 'a fifo_event list \<times> 'q"
where
  "fifo_run step q [] = ([], q)"
| "fifo_run step q (x # xs) =
     (let (es, q') = step q x; (es', q'') = fifo_run step q' xs in (es @ es', q''))"

lemma accepted_append [simp]: "accepted (xs @ ys) = accepted xs @ accepted ys"
  by (induction xs rule: accepted.induct) simp_all

lemma delivered_append [simp]: "delivered (xs @ ys) = delivered xs @ delivered ys"
  by (induction xs rule: delivered.induct) simp_all

lemma removed_append [simp]: "removed (xs @ ys) = removed xs @ removed ys"
  by (induction xs rule: removed.induct) simp_all

lemma subseq_remove1: "subseq (remove1 x xs) xs"
  by (induction xs) auto

section \<open>The contract\<close>

locale claim_fifo =
  fixes invar :: "'q \<Rightarrow> bool"
    and contents :: "'q \<Rightarrow> 'a list"
    and clmd :: "'q \<Rightarrow> bool"
    and limit :: "'q \<Rightarrow> nat"
    and frnt :: "'q \<Rightarrow> 'a"
    and push :: "'a \<Rightarrow> 'q \<Rightarrow> bool \<times> 'q"
    and claim :: "'q \<Rightarrow> bool \<times> 'q"
    and cancel :: "'q \<Rightarrow> 'q"
    and commit :: "'q \<Rightarrow> 'q"
  assumes bounded: "invar q \<Longrightarrow> length (contents q) \<le> limit q"
    and claimed_nonempty: "invar q \<Longrightarrow> clmd q \<Longrightarrow> contents q \<noteq> []"
    and front_hd: "invar q \<Longrightarrow> contents q \<noteq> [] \<Longrightarrow> frnt q = hd (contents q)"
    and push_ok: "invar q \<Longrightarrow> push x q = (True, q') \<Longrightarrow>
          contents q' = contents q @ [x] \<and> clmd q' = clmd q \<and> limit q' = limit q \<and> invar q'"
    and push_fail: "invar q \<Longrightarrow> push x q = (False, q') \<Longrightarrow> q' = q"
    and claim_iff: "invar q \<Longrightarrow> fst (claim q) \<longleftrightarrow> contents q \<noteq> [] \<and> \<not> clmd q"
    and claim_ok: "invar q \<Longrightarrow>
          contents (snd (claim q)) = contents q \<and>
          clmd (snd (claim q)) = (contents q \<noteq> []) \<and>
          limit (snd (claim q)) = limit q \<and> invar (snd (claim q))"
    and cancel_ok: "invar q \<Longrightarrow>
          contents (cancel q) = contents q \<and> \<not> clmd (cancel q) \<and>
          limit (cancel q) = limit q \<and> invar (cancel q)"
    and commit_ok: "invar q \<Longrightarrow> clmd q \<Longrightarrow>
          contents (commit q) = tl (contents q) \<and> \<not> clmd (commit q) \<and>
          limit (commit q) = limit q \<and> invar (commit q)"
    and commit_noop: "invar q \<Longrightarrow> \<not> clmd q \<Longrightarrow> commit q = q"
begin

lemma claim_twice: "invar q \<Longrightarrow> clmd q \<Longrightarrow> \<not> fst (claim q)"
  by (simp add: claim_iff)

lemma claim_commit:
  assumes "invar q" "contents q \<noteq> []" "\<not> clmd q"
  shows "contents (commit (snd (claim q))) = tl (contents q)"
  using assms claim_ok [of q] commit_ok [of "snd (claim q)"] by simp

lemma claim_cancel:
  assumes "invar q"
  shows "contents (cancel (snd (claim q))) = contents q"
  using assms claim_ok [of q] cancel_ok [of "snd (claim q)"] by simp

end

locale claim_fifo_remove = claim_fifo +
  fixes rem :: "'b \<Rightarrow> 'a \<Rightarrow> bool \<times> 'a"
  assumes rem_ok: "invar q \<Longrightarrow> rem x q = (True, q') \<Longrightarrow>
          x \<in> set (contents q) \<and> \<not> (clmd q \<and> hd (contents q) = x) \<and>
          contents q' = remove1 x (contents q) \<and> clmd q' = clmd q \<and>
          limit q' = limit q \<and> invar q'"
    and rem_fail: "invar q \<Longrightarrow> rem x q = (False, q') \<Longrightarrow> q' = q"
    and rem_iff: "invar q \<Longrightarrow>
          fst (rem x q) \<longleftrightarrow> x \<in> set (contents q) \<and> \<not> (clmd q \<and> hd (contents q) = x)"
begin

abbreviation step :: "'a \<Rightarrow> 'b fifo_op \<Rightarrow> 'b fifo_event list \<times> 'a" where
  "step \<equiv> fifo_step push claim cancel commit rem clmd frnt"

text \<open>What one operation does to the list, the events and the invariant.\<close>

lemma step_history:
  assumes "invar q" "step q x = (es, q')"
  shows "invar q' \<and> limit q' = limit q \<and>
    mset (contents q) + mset (accepted es) =
      mset (delivered es) + mset (removed es) + mset (contents q') \<and>
    subseq (delivered es @ contents q') (contents q @ accepted es)"
proof (cases x)
  case (Push y)
  then show ?thesis using assms push_ok [of q y] push_fail [of q y]
    by (cases "push y q"; cases "fst (push y q)") (auto simp: Let_def)
next
  case Claim
  then show ?thesis using assms claim_ok [of q] by auto
next
  case Cancel
  then show ?thesis using assms cancel_ok [of q] by auto
next
  case Commit
  show ?thesis
  proof (cases "clmd q")
    case True
    with assms obtain c where "contents q = frnt q # c"
      using claimed_nonempty front_hd by (metis hd_Cons_tl)
    with Commit True assms commit_ok [of q] show ?thesis by auto
  next
    case False
    with Commit assms commit_noop [of q] show ?thesis by auto
  qed
next
  case (Remove y)
  then show ?thesis using assms rem_ok [of q y] rem_fail [of q y]
    by (cases "rem y q"; cases "fst (rem y q)")
      (auto simp: Let_def mset_remove1 subseq_remove1)
qed

text \<open>
  Over any history nothing is lost, duplicated or reordered: what was accepted is what was
  delivered, removed or is still queued, and deliveries follow the order of acceptance.
\<close>

lemma run_history:
  assumes "invar q" "fifo_run step q xs = (es, q')"
  shows "invar q' \<and> limit q' = limit q \<and>
    mset (contents q) + mset (accepted es) =
      mset (delivered es) + mset (removed es) + mset (contents q') \<and>
    subseq (delivered es @ contents q') (contents q @ accepted es)"
  using assms
proof (induction xs arbitrary: q es)
  case Nil
  then show ?case by simp
next
  case (Cons x xs)
  obtain es1 q1 where s: "step q x = (es1, q1)" by fastforce
  obtain es2 q2 where r: "fifo_run step q1 xs = (es2, q2)" by fastforce
  from Cons.prems(2) s r have es: "es = es1 @ es2" and q': "q' = q2" by (simp_all add: Let_def)
  note h1 = step_history [OF Cons.prems(1) s]
  from h1 r q' have h2: "invar q' \<and> limit q' = limit q1 \<and>
      mset (contents q1) + mset (accepted es2) =
        mset (delivered es2) + mset (removed es2) + mset (contents q') \<and>
      subseq (delivered es2 @ contents q') (contents q1 @ accepted es2)"
    using Cons.IH by blast
  have "subseq (delivered es1 @ delivered es2 @ contents q') (delivered es1 @ contents q1 @ accepted es2)"
    using h2 by (simp add: list_emb_append_mono [OF subseq_order.order_refl])
  moreover have "subseq (delivered es1 @ contents q1 @ accepted es2) (contents q @ accepted es1 @ accepted es2)"
    using h1 by (metis append_assoc list_emb_append_mono subseq_order.order_refl)
  ultimately have "subseq (delivered es @ contents q') (contents q @ accepted es)"
    using es subseq_order.order_trans by fastforce
  moreover have "mset (contents q) + mset (accepted es) =
      mset (delivered es) + mset (removed es) + mset (contents q')"
  proof -
    have "mset (contents q) + mset (accepted es) =
        (mset (contents q) + mset (accepted es1)) + mset (accepted es2)"
      by (simp add: es)
    also have "\<dots> = mset (delivered es1) + mset (removed es1) + (mset (contents q1) + mset (accepted es2))"
      using h1 by simp
    also have "\<dots> = mset (delivered es) + mset (removed es) + mset (contents q')"
      using h2 by (simp add: es)
    finally show ?thesis .
  qed
  ultimately show ?case using h1 h2 by simp
qed

text \<open>
  A claimed head belongs to its consumer: until the claim is committed or cancelled, no
  operation changes it.
\<close>

lemma step_claimed_head:
  assumes "invar q" "clmd q" "x \<noteq> Commit" "x \<noteq> Cancel" "step q x = (es, q')"
  shows "clmd q' \<and> hd (contents q') = hd (contents q) \<and> invar q'"
proof (cases x)
  case (Push y)
  with assms claimed_nonempty [of q] push_ok [of q y] push_fail [of q y] show ?thesis
    by (cases "push y q"; cases "fst (push y q)") (auto simp: Let_def)
next
  case Claim
  with assms claim_ok [of q] claimed_nonempty [of q] show ?thesis by auto
next
  case (Remove y)
  have "hd (remove1 y c) = hd c" if "hd c \<noteq> y" "c \<noteq> []" for c
    using that by (cases c) auto
  with Remove assms claimed_nonempty [of q] rem_ok [of q y] rem_fail [of q y] show ?thesis
    by (cases "rem y q"; cases "fst (rem y q)") (auto simp: Let_def)
qed (use assms in auto)

lemma run_claimed_head:
  assumes "invar q" "clmd q" "Commit \<notin> set xs" "Cancel \<notin> set xs" "fifo_run step q xs = (es, q')"
  shows "clmd q' \<and> hd (contents q') = hd (contents q)"
  using assms
proof (induction xs arbitrary: q es)
  case Nil
  then show ?case by simp
next
  case (Cons x xs)
  obtain es1 q1 where s: "step q x = (es1, q1)" by fastforce
  obtain es2 q2 where r: "fifo_run step q1 xs = (es2, q2)" by fastforce
  from Cons.prems(5) s r have "q' = q2" by (simp add: Let_def)
  moreover have "clmd q1 \<and> hd (contents q1) = hd (contents q) \<and> invar q1"
    using Cons.prems s step_claimed_head [of q x es1 q1] by auto
  ultimately show ?case using Cons.IH [of q1 es2] Cons.prems r by auto
qed

end

end
