(* ===== verification/Bounded_Queue.thy ===== *)
theory Bounded_Queue
  imports Claim_Fifo
begin

text \<open>
  \<^verbatim>\<open>ipc/bounded_queue.hpp\<close>: the fixed-storage FIFO of a channel direction. The record
  has the members of the class; \<open>None\<close> is the null storage pointer. Indices are
  natural numbers: \<open>head\<close> and \<open>count\<close> are bounded by the length of an array that exists in
  memory, so \<open>head + count\<close> does not reach \<open>2 ^ 64\<close>. The parameter \<open>dflt\<close> of
  \<open>bq_remove\<close> is the value-initialised element \<^verbatim>\<open>T{}\<close>.
\<close>

record 'a bounded_queue =
  bq_storage :: "'a list option"
  bq_capacity :: nat
  bq_head :: nat
  bq_count :: nat
  bq_claimed :: bool

definition bq_new :: "'a list option \<Rightarrow> nat \<Rightarrow> 'a bounded_queue" where
  "bq_new storage capacity =
     \<lparr>bq_storage = storage, bq_capacity = capacity, bq_head = 0, bq_count = 0, bq_claimed = False\<rparr>"

definition bq_slot :: "'a bounded_queue \<Rightarrow> nat \<Rightarrow> nat" where
  "bq_slot q offset = (bq_head q + offset) mod bq_capacity q"

definition bq_try_push :: "'a \<Rightarrow> 'a bounded_queue \<Rightarrow> bool \<times> 'a bounded_queue" where
  "bq_try_push value q =
     (case bq_storage q of
        None \<Rightarrow> (False, q)
      | Some st \<Rightarrow>
          if bq_capacity q = 0 \<or> bq_count q = bq_capacity q then (False, q)
          else (True, q\<lparr>bq_storage := Some (st[bq_slot q (bq_count q) := value]),
                        bq_count := bq_count q + 1\<rparr>))"

definition bq_claim_front :: "'a bounded_queue \<Rightarrow> bool \<times> 'a bounded_queue" where
  "bq_claim_front q =
     (if bq_count q = 0 \<or> bq_claimed q then (False, q) else (True, q\<lparr>bq_claimed := True\<rparr>))"

text \<open>The two loops of \<^verbatim>\<open>remove\<close>: the search for the value, and the shift of the entries behind it.\<close>

function bq_find_from :: "'a list \<Rightarrow> 'a bounded_queue \<Rightarrow> 'a \<Rightarrow> nat \<Rightarrow> nat" where
  "bq_find_from st q value offset =
     (if offset < bq_count q \<and> st ! bq_slot q offset \<noteq> value
      then bq_find_from st q value (offset + 1) else offset)"
  by pat_completeness auto
termination
  by (relation "measure (\<lambda>(st, q, value, offset). bq_count q - offset)") auto

function bq_shift_from :: "'a bounded_queue \<Rightarrow> nat \<Rightarrow> 'a list \<Rightarrow> 'a list" where
  "bq_shift_from q current st =
     (if current + 1 < bq_count q
      then bq_shift_from q (current + 1) (st[bq_slot q current := st ! bq_slot q (current + 1)])
      else st)"
  by pat_completeness auto
termination
  by (relation "measure (\<lambda>(q, current, st). bq_count q - current)") auto

declare bq_find_from.simps [simp del] bq_shift_from.simps [simp del]

definition bq_remove :: "'a \<Rightarrow> 'a \<Rightarrow> 'a bounded_queue \<Rightarrow> bool \<times> 'a bounded_queue" where
  "bq_remove dflt value q =
     (if bq_count q = 0 then (False, q)
      else case bq_storage q of
        None \<Rightarrow> (False, q)
      | Some st \<Rightarrow>
          (let offset = bq_find_from st q value 0
           in if offset = bq_count q \<or> (bq_claimed q \<and> offset = 0) then (False, q)
              else (True, q\<lparr>bq_storage :=
                      Some ((bq_shift_from q offset st)[bq_slot q (bq_count q - 1) := dflt]),
                    bq_count := bq_count q - 1\<rparr>)))"

definition bq_front :: "'a bounded_queue \<Rightarrow> 'a" where
  "bq_front q = the (bq_storage q) ! bq_head q"

definition bq_at :: "'a bounded_queue \<Rightarrow> nat \<Rightarrow> 'a" where
  "bq_at q offset = the (bq_storage q) ! bq_slot q offset"

definition bq_cancel_claim :: "'a bounded_queue \<Rightarrow> 'a bounded_queue" where
  "bq_cancel_claim q = q\<lparr>bq_claimed := False\<rparr>"

definition bq_commit_claim :: "'a bounded_queue \<Rightarrow> 'a bounded_queue" where
  "bq_commit_claim q =
     (if \<not> bq_claimed q \<or> bq_count q = 0 then q
      else q\<lparr>bq_head := (bq_head q + 1) mod bq_capacity q,
             bq_count := bq_count q - 1, bq_claimed := False\<rparr>)"

definition bq_empty :: "'a bounded_queue \<Rightarrow> bool" where
  "bq_empty q \<longleftrightarrow> bq_count q = 0"

definition bq_full :: "'a bounded_queue \<Rightarrow> bool" where
  "bq_full q \<longleftrightarrow> bq_capacity q \<noteq> 0 \<and> bq_count q = bq_capacity q"

section \<open>Invariant and abstraction\<close>

definition bq_invar :: "'a bounded_queue \<Rightarrow> bool" where
  "bq_invar q \<longleftrightarrow>
     (case bq_storage q of
        None \<Rightarrow> bq_count q = 0
      | Some st \<Rightarrow> length st = bq_capacity q \<and> bq_count q \<le> bq_capacity q \<and>
          (bq_capacity q \<noteq> 0 \<longrightarrow> bq_head q < bq_capacity q)) \<and>
     (bq_claimed q \<longrightarrow> bq_count q \<noteq> 0)"

definition bq_contents :: "'a bounded_queue \<Rightarrow> 'a list" where
  "bq_contents q =
     (case bq_storage q of None \<Rightarrow> [] | Some st \<Rightarrow> ring_contents st (bq_head q) (bq_count q))"

definition bq_limit :: "'a bounded_queue \<Rightarrow> nat" where
  "bq_limit q = (case bq_storage q of None \<Rightarrow> 0 | Some st \<Rightarrow> bq_capacity q)"

lemma bq_invar_new:
  "(case storage of None \<Rightarrow> True | Some st \<Rightarrow> length st = capacity) \<Longrightarrow>
     bq_invar (bq_new storage capacity) \<and> bq_contents (bq_new storage capacity) = []"
  by (auto simp: bq_invar_def bq_new_def bq_contents_def split: option.splits)

lemma length_bq_contents: "bq_invar q \<Longrightarrow> length (bq_contents q) = bq_count q"
  by (auto simp: bq_invar_def bq_contents_def split: option.splits)

lemma bq_empty_iff: "bq_invar q \<Longrightarrow> bq_empty q \<longleftrightarrow> bq_contents q = []"
  by (metis bq_empty_def length_bq_contents length_0_conv)

lemma bq_full_iff:
  "bq_invar q \<Longrightarrow> bq_storage q \<noteq> None \<Longrightarrow> bq_capacity q \<noteq> 0 \<Longrightarrow>
     bq_full q \<longleftrightarrow> length (bq_contents q) = bq_capacity q"
  by (simp add: bq_full_def length_bq_contents)

lemma bq_at_nth:
  "bq_invar q \<Longrightarrow> i < bq_count q \<Longrightarrow> bq_at q i = bq_contents q ! i"
  by (auto simp: bq_invar_def bq_contents_def bq_at_def bq_slot_def ring_contents_nth split: option.splits)

lemma bq_front_hd:
  "bq_invar q \<Longrightarrow> bq_count q \<noteq> 0 \<Longrightarrow> bq_front q = hd (bq_contents q)"
  by (auto simp: bq_invar_def bq_contents_def bq_front_def ring_contents_hd split: option.splits)

section \<open>Push, claim, commit\<close>

lemma bq_try_push_iff:
  assumes "bq_invar q"
  shows "fst (bq_try_push x q) \<longleftrightarrow> length (bq_contents q) < bq_limit q"
  using assms length_bq_contents [OF assms]
  by (auto simp: bq_try_push_def bq_limit_def bq_invar_def split: option.splits)

lemma bq_try_push_ok:
  assumes "bq_invar q" "bq_try_push x q = (True, q')"
  shows "bq_contents q' = bq_contents q @ [x]" "bq_claimed q' = bq_claimed q"
    "bq_limit q' = bq_limit q" "bq_invar q'"
  using assms
  by (auto simp: bq_try_push_def bq_invar_def bq_contents_def bq_limit_def bq_slot_def
      ring_push split: option.splits if_splits)

lemma bq_try_push_fail: "bq_try_push x q = (False, q') \<Longrightarrow> q' = q"
  by (auto simp: bq_try_push_def split: option.splits if_splits)

lemma bq_commit_ok:
  assumes "bq_invar q" "bq_claimed q"
  shows "bq_contents (bq_commit_claim q) = tl (bq_contents q)" "bq_invar (bq_commit_claim q)"
  using assms
  by (auto simp: bq_commit_claim_def bq_invar_def bq_contents_def ring_pop split: option.splits)

section \<open>Removal\<close>

lemma bq_find_from_spec:
  assumes "bq_invar q" "bq_storage q = Some st" "offset \<le> bq_count q"
  shows "bq_find_from st q x offset \<le> bq_count q \<and> offset \<le> bq_find_from st q x offset \<and>
    (bq_find_from st q x offset < bq_count q \<longrightarrow> bq_contents q ! bq_find_from st q x offset = x) \<and>
    (\<forall>i. offset \<le> i \<and> i < bq_find_from st q x offset \<longrightarrow> bq_contents q ! i \<noteq> x)"
  using assms
proof (induction st q x offset rule: bq_find_from.induct)
  case (1 st q x offset)
  have nth: "bq_contents q ! offset = st ! bq_slot q offset" if "offset < bq_count q"
    using "1.prems" bq_at_nth [OF "1.prems"(1) that] by (simp add: bq_at_def)
  note unfold = bq_find_from.simps [of st q x offset]
  show ?case
  proof (cases "offset < bq_count q \<and> st ! bq_slot q offset \<noteq> x")
    case True
    with "1.IH" "1.prems" have ih:
      "bq_find_from st q x (offset + 1) \<le> bq_count q \<and> offset + 1 \<le> bq_find_from st q x (offset + 1) \<and>
       (bq_find_from st q x (offset + 1) < bq_count q \<longrightarrow>
          bq_contents q ! bq_find_from st q x (offset + 1) = x) \<and>
       (\<forall>i. offset + 1 \<le> i \<and> i < bq_find_from st q x (offset + 1) \<longrightarrow> bq_contents q ! i \<noteq> x)"
      by simp
    have eq: "bq_find_from st q x offset = bq_find_from st q x (offset + 1)"
      using True unfold by simp
    have "bq_contents q ! i \<noteq> x" if "offset \<le> i" "i < bq_find_from st q x (offset + 1)" for i
      using that ih True nth by (cases "i = offset") auto
    with ih eq show ?thesis by auto
  next
    case False
    then have "bq_find_from st q x offset = offset" by (subst unfold) auto
    with False "1.prems" nth show ?thesis by auto
  qed
qed

lemma bq_shift_from_length [simp]: "length (bq_shift_from q current st) = length st"
proof (induction q current st rule: bq_shift_from.induct)
  case (1 q current st)
  then show ?case by (cases "current + 1 < bq_count q") (simp_all add: bq_shift_from.simps [of q current])
qed

lemma bq_shift_from_contents:
  assumes "length st = bq_capacity q" "bq_count q \<le> bq_capacity q" "current < bq_count q"
  shows "butlast (ring_contents (bq_shift_from q current st) (bq_head q) (bq_count q)) =
    (let c = ring_contents st (bq_head q) (bq_count q) in take current c @ drop (Suc current) c)"
  using assms
proof (induction q current st rule: bq_shift_from.induct)
  case (1 q current st)
  let ?c = "ring_contents st (bq_head q) (bq_count q)"
  show ?case
  proof (cases "current + 1 < bq_count q")
    case True
    let ?st = "st[bq_slot q current := st ! bq_slot q (current + 1)]"
    have "ring_contents ?st (bq_head q) (bq_count q) = ?c[current := ?c ! (current + 1)]"
      using True "1.prems" by (simp add: bq_slot_def ring_update ring_contents_nth)
    then have "butlast (ring_contents (bq_shift_from q current st) (bq_head q) (bq_count q)) =
        take (current + 1) (?c[current := ?c ! (current + 1)]) @ drop (current + 2) ?c"
      using True "1.IH" "1.prems" by (simp add: bq_shift_from.simps [of q current] Let_def)
    also have "\<dots> = take current ?c @ ?c ! (current + 1) # drop (current + 2) ?c"
      using True by (simp add: take_Suc_conv_app_nth)
    also have "\<dots> = take current ?c @ drop (Suc current) ?c"
      using True by (simp add: Cons_nth_drop_Suc)
    finally show ?thesis by (simp add: Let_def)
  next
    case False
    with "1.prems"(3) have n: "bq_count q = Suc current" by simp
    with False show ?thesis
      by (simp add: bq_shift_from.simps [of q current] Let_def butlast_conv_take)
  qed
qed

lemma remove1_at_first:
  assumes "k < length c" "c ! k = x" "\<And>i. i < k \<Longrightarrow> c ! i \<noteq> x"
  shows "remove1 x c = take k c @ drop (Suc k) c"
  using assms
proof (induction c arbitrary: k)
  case Nil
  then show ?case by simp
next
  case (Cons y c)
  show ?case
  proof (cases k)
    case 0
    with Cons.prems show ?thesis by simp
  next
    case (Suc j)
    have "y \<noteq> x" using Cons.prems(3) [of 0] Suc by simp
    moreover have "c ! i \<noteq> x" if "i < j" for i
      using Cons.prems(3) [of "Suc i"] Suc that by simp
    then have "remove1 x c = take j c @ drop (Suc j) c"
      using Cons.prems(1,2) Suc by (intro Cons.IH) auto
    ultimately show ?thesis using Suc by simp
  qed
qed

lemma first_index_in_set:
  assumes "k \<le> length c" "k < length c \<longrightarrow> c ! k = x" "\<forall>i. i < k \<longrightarrow> c ! i \<noteq> x"
  shows "k < length c \<longleftrightarrow> x \<in> set c" "c \<noteq> [] \<Longrightarrow> k = 0 \<longleftrightarrow> hd c = x"
proof -
  show "k < length c \<longleftrightarrow> x \<in> set c"
    using assms by (metis in_set_conv_nth le_neq_implies_less nth_mem)
  assume "c \<noteq> []"
  then show "k = 0 \<longleftrightarrow> hd c = x"
    using assms by (metis hd_conv_nth length_greater_0_conv gr0I)
qed

text \<open>What \<^verbatim>\<open>remove\<close> returns and does, on every branch.\<close>

lemma bq_remove_cases:
  assumes "bq_invar q"
  shows "if x \<in> set (bq_contents q) \<and> \<not> (bq_claimed q \<and> hd (bq_contents q) = x)
    then \<exists>q'. bq_remove dflt x q = (True, q') \<and> bq_contents q' = remove1 x (bq_contents q) \<and>
           bq_claimed q' = bq_claimed q \<and> bq_limit q' = bq_limit q \<and> bq_invar q'
    else bq_remove dflt x q = (False, q)"
proof (cases "bq_count q = 0")
  case True
  with assms have "bq_contents q = []" using length_bq_contents by fastforce
  with True show ?thesis by (simp add: bq_remove_def)
next
  case False
  with assms obtain st where st: "bq_storage q = Some st"
    by (auto simp: bq_invar_def split: option.splits)
  define k where "k = bq_find_from st q x 0"
  let ?c = "bq_contents q"
  have len: "length ?c = bq_count q" by (rule length_bq_contents [OF assms])
  have k: "k \<le> length ?c" "k < length ?c \<longrightarrow> ?c ! k = x" "\<forall>i. i < k \<longrightarrow> ?c ! i \<noteq> x"
    using bq_find_from_spec [OF assms st, of 0 x] len by (auto simp: k_def)
  note idx = first_index_in_set [OF k]
  have ne: "?c \<noteq> []" using False len by auto
  show ?thesis
  proof (cases "x \<in> set ?c \<and> \<not> (bq_claimed q \<and> hd ?c = x)")
    case True
    then have kn: "k < bq_count q" and k0: "\<not> (bq_claimed q \<and> k = 0)"
      using idx(1) idx(2) [OF ne] len by auto
    let ?st = "(bq_shift_from q k st)[bq_slot q (bq_count q - 1) := dflt]"
    let ?q = "q\<lparr>bq_storage := Some ?st, bq_count := bq_count q - 1\<rparr>"
    have inv: "length st = bq_capacity q" "bq_count q \<le> bq_capacity q" "bq_head q < bq_capacity q"
      using assms st False by (auto simp: bq_invar_def)
    have "bq_contents ?q = butlast (ring_contents ?st (bq_head q) (bq_count q))"
      by (simp add: bq_contents_def flip: ring_contents_butlast)
    also have "\<dots> = butlast (ring_contents (bq_shift_from q k st) (bq_head q) (bq_count q))"
      using inv False
        ring_update [of "bq_shift_from q k st" "bq_capacity q" "bq_count q - 1" "bq_count q" "bq_head q" dflt]
      by (simp add: bq_slot_def butlast_list_update)
    also have "\<dots> = take k ?c @ drop (Suc k) ?c"
      using bq_shift_from_contents [OF inv(1,2) kn] st by (simp add: bq_contents_def Let_def)
    also have "\<dots> = remove1 x ?c"
      using k kn len by (simp add: remove1_at_first)
    finally have "bq_contents ?q = remove1 x ?c" .
    moreover have "bq_remove dflt x q = (True, ?q)"
      using False st kn k0 by (simp add: bq_remove_def k_def Let_def)
    moreover have "bq_invar ?q"
      using assms st inv False kn k0 by (auto simp: bq_invar_def)
    moreover have "bq_limit ?q = bq_limit q" using st by (simp add: bq_limit_def)
    ultimately show ?thesis using True by simp
  next
    case False
    then have "k = bq_count q \<or> (bq_claimed q \<and> k = 0)"
      using idx(1) idx(2) [OF ne] k(1) len by auto
    with False show ?thesis
      using \<open>bq_count q \<noteq> 0\<close> st by (auto simp: bq_remove_def k_def Let_def)
  qed
qed

section \<open>The queue keeps the claim FIFO contract\<close>

interpretation bq: claim_fifo bq_invar bq_contents bq_claimed bq_limit bq_front
  bq_try_push bq_claim_front bq_cancel_claim bq_commit_claim
proof unfold_locales
  fix q :: "'a bounded_queue"
  assume inv: "bq_invar q"
  show "length (bq_contents q) \<le> bq_limit q"
    using inv by (auto simp: bq_invar_def bq_contents_def bq_limit_def split: option.splits)
  show "fst (bq_claim_front q) = (bq_contents q \<noteq> [] \<and> \<not> bq_claimed q)"
    using bq_empty_iff [OF inv] by (auto simp: bq_claim_front_def bq_empty_def)
  show "bq_contents (snd (bq_claim_front q)) = bq_contents q \<and>
      bq_claimed (snd (bq_claim_front q)) = (bq_contents q \<noteq> []) \<and>
      bq_limit (snd (bq_claim_front q)) = bq_limit q \<and> bq_invar (snd (bq_claim_front q))"
    using inv length_bq_contents [OF inv]
    by (auto simp: bq_claim_front_def bq_invar_def bq_contents_def bq_limit_def split: option.splits)
  show "bq_contents (bq_cancel_claim q) = bq_contents q \<and> \<not> bq_claimed (bq_cancel_claim q) \<and>
      bq_limit (bq_cancel_claim q) = bq_limit q \<and> bq_invar (bq_cancel_claim q)"
    using inv
    by (auto simp: bq_cancel_claim_def bq_invar_def bq_contents_def bq_limit_def split: option.splits)
next
  fix q :: "'a bounded_queue"
  assume inv: "bq_invar q" and clm: "bq_claimed q"
  from inv clm have cnt: "bq_count q \<noteq> 0" by (simp add: bq_invar_def)
  with inv show "bq_contents q \<noteq> []" using length_bq_contents by fastforce
  from inv clm show "bq_contents (bq_commit_claim q) = tl (bq_contents q) \<and>
      \<not> bq_claimed (bq_commit_claim q) \<and> bq_limit (bq_commit_claim q) = bq_limit q \<and>
      bq_invar (bq_commit_claim q)"
    using bq_commit_ok [OF inv clm] cnt
    by (auto simp: bq_commit_claim_def bq_limit_def split: option.splits)
next
  fix q :: "'a bounded_queue"
  assume "bq_invar q" "bq_contents q \<noteq> []"
  then show "bq_front q = hd (bq_contents q)"
    using bq_front_hd length_bq_contents by fastforce
qed (auto simp: bq_try_push_ok dest: bq_try_push_fail simp: bq_commit_claim_def)

interpretation bqr: claim_fifo_remove bq_invar bq_contents bq_claimed bq_limit bq_front
  bq_try_push bq_claim_front bq_cancel_claim bq_commit_claim "bq_remove dflt"
  for dflt
proof unfold_locales
  fix q q' :: "'a bounded_queue" and x
  assume inv: "bq_invar q"
  show "fst (bq_remove dflt x q) =
      (x \<in> set (bq_contents q) \<and> \<not> (bq_claimed q \<and> hd (bq_contents q) = x))"
    using bq_remove_cases [OF inv, of x dflt] by (auto split: if_splits)
  assume "bq_remove dflt x q = (True, q')"
  then show "x \<in> set (bq_contents q) \<and> \<not> (bq_claimed q \<and> hd (bq_contents q) = x) \<and>
      bq_contents q' = remove1 x (bq_contents q) \<and> bq_claimed q' = bq_claimed q \<and>
      bq_limit q' = bq_limit q \<and> bq_invar q'"
    using bq_remove_cases [OF inv, of x dflt] by (auto split: if_splits)
next
  fix q q' :: "'a bounded_queue" and x
  assume "bq_invar q" "bq_remove dflt x q = (False, q')"
  then show "q' = q"
    using bq_remove_cases [of q x dflt] by (auto split: if_splits)
qed

abbreviation bq_step :: "'a \<Rightarrow> 'a bounded_queue \<Rightarrow> 'a fifo_op \<Rightarrow> 'a fifo_event list \<times> 'a bounded_queue" where
  "bq_step dflt \<equiv> fifo_step bq_try_push bq_claim_front bq_cancel_claim bq_commit_claim (bq_remove dflt)
     bq_claimed bq_front"

text \<open>
  C34. Over every sequence of pushes, claims, cancels, commits and removals on a fresh
  bounded queue, messages are neither lost nor duplicated (the accepted ones are those
  delivered, removed or still queued), deliveries come in the order of acceptance, and the
  queue never holds more than its capacity.
\<close>

theorem bounded_queue_history:
  assumes "length st = n"
    and "fifo_run (bq_step dflt) (bq_new (Some st) n) xs = (es, q)"
  shows "mset (accepted es) = mset (delivered es) + mset (removed es) + mset (bq_contents q) \<and>
    subseq (delivered es @ bq_contents q) (accepted es) \<and> length (bq_contents q) \<le> n"
proof -
  have new: "bq_invar (bq_new (Some st) n)" "bq_contents (bq_new (Some st) n) = []"
    using assms(1) bq_invar_new [where storage = "Some st" and capacity = n] by simp_all
  have "bq_limit (bq_new (Some st) n) = n" by (simp add: bq_limit_def bq_new_def)
  with bqr.run_history [OF new(1) assms(2)] bq.bounded [of q] new(2) show ?thesis by auto
qed

theorem bounded_queue_history_witness:
  "fifo_run (bq_step 0) (bq_new (Some [0, 0 :: nat]) 2)
     [Push 7, Push 11, Push 13, Claim, Remove 7, Remove 11, Push 17, Commit] =
   ([Accepted 7, Accepted 11, Removed 11, Accepted 17, Delivered 7],
    \<lparr>bq_storage = Some [7, 17], bq_capacity = 2, bq_head = 1, bq_count = 1, bq_claimed = False\<rparr>) \<and>
   mset [7, 11, 17 :: nat] = mset [7] + mset [11] + mset [17]"
proof -
  have run: "fifo_run (bq_step 0) (bq_new (Some [0, 0 :: nat]) 2)
     [Push 7, Push 11, Push 13, Claim, Remove 7, Remove 11, Push 17, Commit] =
   ([Accepted 7, Accepted 11, Removed 11, Accepted 17, Delivered 7],
    \<lparr>bq_storage = Some [7, 17], bq_capacity = 2, bq_head = 1, bq_count = 1, bq_claimed = False\<rparr>)"
    by code_simp
  have len: "length [0, 0 :: nat] = 2" by simp
  show ?thesis
    using run bounded_queue_history [OF len run] by (simp add: bq_contents_def ring_contents_def)
qed

text \<open>
  C35. A claimed head belongs to the claiming receiver: whatever pushes, further claims and
  removals follow, until the claim is committed or cancelled the head of the queue is the
  claimed message, so a concurrent cancellation cannot take it away.
\<close>

theorem bounded_queue_claimed_head_stable:
  assumes "bq_invar q" "bq_claimed q" "Commit \<notin> set xs" "Cancel \<notin> set xs"
    and "fifo_run (bq_step dflt) q xs = (es, q')"
  shows "bq_claimed q' \<and> bq_front q' = bq_front q"
proof -
  have inv: "bq_invar q'" using bqr.run_history [OF assms(1,5)] by simp
  have st: "bq_claimed q' \<and> hd (bq_contents q') = hd (bq_contents q)"
    by (rule bqr.run_claimed_head [OF assms])
  have "bq_front q' = hd (bq_contents q')"
    using inv st by (simp add: bq.claimed_nonempty bq.front_hd)
  moreover have "bq_front q = hd (bq_contents q)"
    using assms(1,2) by (simp add: bq.claimed_nonempty bq.front_hd)
  ultimately show ?thesis using st by simp
qed

theorem bounded_queue_claimed_head_stable_witness:
  "let q = \<lparr>bq_storage = Some [3, 5 :: nat, 0], bq_capacity = 3, bq_head = 0, bq_count = 2, bq_claimed = True\<rparr>
   in bq_front (snd (fifo_run (bq_step 0) q [Remove 3, Remove 5, Push 9, Claim])) = 3 \<and>
      bq_contents (snd (fifo_run (bq_step 0) q [Remove 3, Remove 5, Push 9, Claim])) = [3, 9]"
proof -
  define q where "q = \<lparr>bq_storage = Some [3, 5 :: nat, 0], bq_capacity = 3, bq_head = 0,
    bq_count = 2, bq_claimed = True\<rparr>"
  obtain es q' where run: "fifo_run (bq_step 0) q [Remove 3, Remove 5, Push 9, Claim] = (es, q')"
    by fastforce
  have "bq_front q' = bq_front q"
    using bounded_queue_claimed_head_stable [OF _ _ _ _ run] by (simp add: q_def bq_invar_def)
  moreover have "bq_front q = 3" by (simp add: q_def bq_front_def)
  moreover have "bq_contents (snd (fifo_run (bq_step 0) q [Remove 3, Remove 5, Push 9, Claim])) = [3, 9]"
    unfolding q_def by code_simp
  ultimately show ?thesis using run by (simp add: q_def Let_def)
qed

end
