(* ===== verification/Capability.thy ===== *)
theory Capability
  imports Naos_Prelude
begin

text \<open>
  \<^verbatim>\<open>kernel/handle.hpp\<close>, \<^verbatim>\<open>kernel/kobject.hpp\<close> and \<^verbatim>\<open>kernel/capability.hpp\<close>:
  reference-counted handles, the entries of a capability table, and the resources, restore
  tokens and records with which capabilities travel in messages.

  A kernel object is named by its control block (\<open>oid\<close>); a handle is an optional name, and
  \<open>None\<close> is the null control pointer. The virtual capability hooks of an object and the
  updates of its reference count are the effects of these classes: every operation returns
  the list of them in the order in which the code performs them (\<open>cap_event\<close>). The theory
  of the channels gives the events their meaning on the channel state.
\<close>

type_synonym oid = nat
type_synonym khandle = "oid option"

datatype ktype =
    kt_unknown | kt_file | kt_semaphore | kt_raw_channel_end | kt_protocol_descriptor
  | kt_protocol_client_end | kt_protocol_server_end | kt_invocation | kt_responder
  | kt_directory | kt_memory_object | kt_shared_ring | kt_process | kt_service_directory
  | kt_input_event_source | kt_terminal_identity | kt_terminal_job_control
  | kt_terminal_driver_control | kt_terminal_driver_factory | kt_console_frontend

datatype entry_state = st_reserved | st_active | st_restricting

datatype location = table_root | in_transit

datatype cap_event =
    Ev_acquire oid location
  | Ev_release oid location
  | Ev_handoff oid location location
  | Ev_ref oid
  | Ev_unref oid

section \<open>Handles\<close>

definition h_copy :: "khandle \<Rightarrow> khandle \<times> cap_event list" where
  "h_copy rhs = (case rhs of None \<Rightarrow> (None, []) | Some ob \<Rightarrow> (Some ob, [Ev_ref ob]))"

definition h_drop :: "khandle \<Rightarrow> khandle \<times> cap_event list" where
  "h_drop h = (case h of None \<Rightarrow> (None, []) | Some ob \<Rightarrow> (None, [Ev_unref ob]))"

definition h_assign_copy :: "khandle \<Rightarrow> khandle \<Rightarrow> khandle \<times> cap_event list" where
  "h_assign_copy this rhs =
     (if this = rhs then (this, [])
      else let (_, es) = h_drop this; (h, es') = h_copy rhs in (h, es @ es'))"

text \<open>
  Move assignment returns the new value of both sides: a source with the same control
  block is left as it is.
\<close>

definition h_assign_move :: "khandle \<Rightarrow> khandle \<Rightarrow> khandle \<times> khandle \<times> cap_event list" where
  "h_assign_move this rhs =
     (if this = rhs then (this, rhs, [])
      else let (_, es) = h_drop this in (rhs, None, es))"

section \<open>Entries\<close>

record metadata =
  md_binding :: u32
  md_reserved :: u32
  md_protocol_uuid :: "byte list"
  md_scope :: u64
  md_revision :: u64
  md_features :: u64
  md_meta_rights :: na_meta_rights
  md_protocol_rights :: u64

definition metadata_default :: metadata where
  "metadata_default =
     \<lparr>md_binding = NA_BINDING_NONE, md_reserved = 0, md_protocol_uuid = replicate 16 0, md_scope = 0,
      md_revision = 0, md_features = 0, md_meta_rights = NA_RIGHT_TRANSFER OR NA_RIGHT_WAIT,
      md_protocol_rights = 0\<rparr>"

definition derive_tty_control_rights :: "na_meta_rights \<Rightarrow> na_meta_rights" where
  "derive_tty_control_rights source =
     source AND (NA_RIGHT_TRANSFER OR NA_RIGHT_WAIT OR NA_RIGHT_INSPECT)"

record cap_entry =
  ce_object :: khandle
  ce_generation :: u64
  ce_state :: entry_state
  ce_meta :: metadata

definition cap_entry_default :: cap_entry where
  "cap_entry_default =
     \<lparr>ce_object = None, ce_generation = 0, ce_state = st_reserved, ce_meta = metadata_default\<rparr>"

section \<open>Resources in transit\<close>

record transferred_resource =
  tr_object :: khandle
  tr_meta :: metadata
  tr_in_transit :: bool

definition tr_default :: transferred_resource where
  "tr_default = \<lparr>tr_object = None, tr_meta = metadata_default, tr_in_transit = False\<rparr>"

definition tr_valid :: "transferred_resource \<Rightarrow> bool" where
  "tr_valid r \<longleftrightarrow> tr_object r \<noteq> None"

definition tr_acquire_transit :: "transferred_resource \<Rightarrow> cap_event list" where
  "tr_acquire_transit r =
     (case tr_object r of
        Some ob \<Rightarrow> if tr_in_transit r then [Ev_acquire ob in_transit] else []
      | None \<Rightarrow> [])"

definition tr_release_transit :: "transferred_resource \<Rightarrow> transferred_resource \<times> cap_event list" where
  "tr_release_transit r =
     (if \<not> tr_in_transit r then (r, [])
      else (r\<lparr>tr_in_transit := False\<rparr>,
            case tr_object r of Some ob \<Rightarrow> [Ev_release ob in_transit] | None \<Rightarrow> []))"

definition tr_make :: "khandle \<Rightarrow> metadata \<Rightarrow> transferred_resource \<times> cap_event list" where
  "tr_make object meta =
     (let r = \<lparr>tr_object = object, tr_meta = meta, tr_in_transit = True\<rparr> in (r, tr_acquire_transit r))"

definition tr_copy :: "transferred_resource \<Rightarrow> transferred_resource \<times> cap_event list" where
  "tr_copy other =
     (let (ob, es) = h_copy (tr_object other); r = other\<lparr>tr_object := ob\<rparr>
      in (r, es @ tr_acquire_transit r))"

text \<open>Moving construction: the new resource and what is left of the source.\<close>

definition tr_move :: "transferred_resource \<Rightarrow> transferred_resource \<times> transferred_resource" where
  "tr_move other = (other, other\<lparr>tr_object := None, tr_in_transit := False\<rparr>)"

definition tr_assign_move ::
  "transferred_resource \<Rightarrow> transferred_resource \<Rightarrow>
     transferred_resource \<times> transferred_resource \<times> cap_event list" where
  "tr_assign_move this other =
     (let (t, es) = tr_release_transit this;
          (ob, ob', es') = h_assign_move (tr_object t) (tr_object other)
      in (\<lparr>tr_object = ob, tr_meta = tr_meta other, tr_in_transit = tr_in_transit other\<rparr>,
          other\<lparr>tr_object := ob', tr_in_transit := False\<rparr>, es @ es'))"

definition tr_destroy :: "transferred_resource \<Rightarrow> cap_event list" where
  "tr_destroy r =
     (let (r', es) = tr_release_transit r in es @ snd (h_drop (tr_object r')))"

definition tr_take_object :: "transferred_resource \<Rightarrow> khandle \<times> transferred_resource \<times> cap_event list" where
  "tr_take_object r =
     (tr_object r, r\<lparr>tr_object := None, tr_in_transit := False\<rparr>,
      case tr_object r of Some ob \<Rightarrow> [Ev_release ob in_transit] | None \<Rightarrow> [])"

definition tr_take_object_to_table ::
  "transferred_resource \<Rightarrow> khandle \<times> transferred_resource \<times> cap_event list" where
  "tr_take_object_to_table r =
     (case tr_object r of
        None \<Rightarrow> (None, r, [])
      | Some ob \<Rightarrow> (Some ob, r\<lparr>tr_object := None, tr_in_transit := False\<rparr>,
                  [Ev_acquire ob table_root, Ev_release ob in_transit]))"

definition tr_take_object_without_callback ::
  "transferred_resource \<Rightarrow> khandle \<times> transferred_resource" where
  "tr_take_object_without_callback r =
     (tr_object r, r\<lparr>tr_object := None, tr_in_transit := False\<rparr>)"

section \<open>Restore tokens and transfer records\<close>

text \<open>
  A restore token owns the detached map node of a moved capability: \<open>tk_slot\<close> is the node
  (its key and entry), \<open>tk_context\<close> the table it came from. The discard function of every
  token is the destructor of the node.
\<close>

record transfer_restore_token =
  tk_context :: "nat option"
  tk_slot :: "(na_handle \<times> cap_entry) option"
  tk_callback_object :: khandle

definition tk_default :: transfer_restore_token where
  "tk_default = \<lparr>tk_context = None, tk_slot = None, tk_callback_object = None\<rparr>"

definition tk_make :: "nat \<Rightarrow> na_handle \<times> cap_entry \<Rightarrow> transfer_restore_token" where
  "tk_make context node = \<lparr>tk_context = Some context, tk_slot = Some node, tk_callback_object = None\<rparr>"

definition tk_valid :: "transfer_restore_token \<Rightarrow> bool" where
  "tk_valid t \<longleftrightarrow> tk_slot t \<noteq> None"

definition tk_belongs_to :: "transfer_restore_token \<Rightarrow> nat \<Rightarrow> bool" where
  "tk_belongs_to t context \<longleftrightarrow> tk_valid t \<and> tk_context t = Some context"

definition tk_disarm :: "transfer_restore_token \<Rightarrow> transfer_restore_token" where
  "tk_disarm t = t\<lparr>tk_slot := None\<rparr>"

definition node_destroy :: "na_handle \<times> cap_entry \<Rightarrow> cap_event list" where
  "node_destroy node = snd (h_drop (ce_object (snd node)))"

definition tk_reset :: "transfer_restore_token \<Rightarrow> transfer_restore_token \<times> cap_event list" where
  "tk_reset t =
     (tk_default,
      (case tk_slot t of Some node \<Rightarrow> node_destroy node | None \<Rightarrow> []) @ snd (h_drop (tk_callback_object t)))"

record transfer_record =
  rec_source :: na_handle
  rec_moved :: bool
  rec_resource :: transferred_resource
  rec_token :: transfer_restore_token

text \<open>Destruction of a record: the members go in reverse order of their declaration.\<close>

definition rec_destroy :: "transfer_record \<Rightarrow> cap_event list" where
  "rec_destroy r = snd (tk_reset (rec_token r)) @ tr_destroy (rec_resource r)"

section \<open>Counting hooks and references\<close>

text \<open>
  The net effect of a list of events on the three counters of an object: the table roots,
  the capabilities in transit, and the references. A handoff releases the place it comes
  from, as the endpoints implement it (\<^verbatim>\<open>on_capability_handoff\<close>).
\<close>

fun ev_count :: "location \<Rightarrow> oid \<Rightarrow> cap_event \<Rightarrow> int" where
  "ev_count l ob (Ev_acquire p k) = (if p = ob \<and> k = l then 1 else 0)"
| "ev_count l ob (Ev_release p k) = (if p = ob \<and> k = l then - 1 else 0)"
| "ev_count l ob (Ev_handoff p k k') = (if p = ob \<and> k = l then - 1 else 0)"
| "ev_count l ob (Ev_ref p) = 0"
| "ev_count l ob (Ev_unref p) = 0"

fun ev_refs :: "oid \<Rightarrow> cap_event \<Rightarrow> int" where
  "ev_refs ob (Ev_ref p) = (if p = ob then 1 else 0)"
| "ev_refs ob (Ev_unref p) = (if p = ob then - 1 else 0)"
| "ev_refs ob e = 0"

definition net :: "location \<Rightarrow> oid \<Rightarrow> cap_event list \<Rightarrow> int" where
  "net l ob es = (\<Sum>e\<leftarrow>es. ev_count l ob e)"

definition net_refs :: "oid \<Rightarrow> cap_event list \<Rightarrow> int" where
  "net_refs ob es = (\<Sum>e\<leftarrow>es. ev_refs ob e)"

lemma net_simps [simp]:
  "net l ob [] = 0"
  "net l ob (e # es) = ev_count l ob e + net l ob es"
  "net l ob (es @ es') = net l ob es + net l ob es'"
  by (simp_all add: net_def)

lemma net_refs_simps [simp]:
  "net_refs ob [] = 0"
  "net_refs ob (e # es) = ev_refs ob e + net_refs ob es"
  "net_refs ob (es @ es') = net_refs ob es + net_refs ob es'"
  by (simp_all add: net_refs_def)

definition holds :: "oid \<Rightarrow> khandle \<Rightarrow> int" where
  "holds ob h = (if h = Some ob then 1 else 0)"

lemma holds_simps [simp]:
  "holds ob None = 0" "holds ob (Some p) = (if p = ob then 1 else 0)"
  by (simp_all add: holds_def)

definition tr_transit :: "oid \<Rightarrow> transferred_resource \<Rightarrow> int" where
  "tr_transit ob r = (if tr_in_transit r then holds ob (tr_object r) else 0)"

lemma h_copy_net [simp]:
  "fst (h_copy h) = h" "net l ob (snd (h_copy h)) = 0" "net_refs ob (snd (h_copy h)) = holds ob h"
  by (simp_all add: h_copy_def split: option.split)

lemma h_drop_net [simp]:
  "net l ob (snd (h_drop h)) = 0" "net_refs ob (snd (h_drop h)) = - holds ob h"
  by (simp_all add: h_drop_def split: option.split)

lemma tr_release_transit_net [simp]:
  "tr_object (fst (tr_release_transit r)) = tr_object r"
  "\<not> tr_in_transit (fst (tr_release_transit r))"
  "net table_root ob (snd (tr_release_transit r)) = 0"
  "net in_transit ob (snd (tr_release_transit r)) = - tr_transit ob r"
  "net_refs ob (snd (tr_release_transit r)) = 0"
  by (auto simp: tr_release_transit_def tr_transit_def split: option.split)

lemma tr_destroy_net [simp]:
  "net table_root ob (tr_destroy r) = 0"
  "net in_transit ob (tr_destroy r) = - tr_transit ob r"
  "net_refs ob (tr_destroy r) = - holds ob (tr_object r)"
  by (simp_all add: tr_destroy_def case_prod_unfold Let_def)

end
