(* ===== verification/Resource_Table.thy ===== *)
theory Resource_Table
  imports Capability
begin

text \<open>
  \<^verbatim>\<open>kernel/resource.hpp\<close> and \<^verbatim>\<open>kernel/resource.cc\<close>: the capability table of a process.
  The hash map from handles to entries is an association list with distinct keys, in the
  order of its iteration; \<open>rt_this\<close> is the identity of the table (its address). Each
  operation returns its status, the new table and the hook and reference events it
  performs. Parameters stand for what the table asks of other objects and of the
  allocator: \<open>unique\<close> is the virtual \<^verbatim>\<open>capability_is_unique\<close>, \<open>mem_ok\<close> says whether the
  reservation of vector storage succeeded.
\<close>

record resource_table =
  rt_this :: nat
  rt_map :: "(na_handle \<times> cap_entry) list"
  rt_next :: na_handle
  rt_count :: u64

definition rt_new :: "nat \<Rightarrow> resource_table" where
  "rt_new this = \<lparr>rt_this = this, rt_map = [], rt_next = 1, rt_count = 0\<rparr>"

definition hm_get :: "na_handle \<Rightarrow> resource_table \<Rightarrow> cap_entry option" where
  "hm_get h t = map_of (rt_map t) h"

definition hm_insert :: "na_handle \<Rightarrow> cap_entry \<Rightarrow> resource_table \<Rightarrow> resource_table" where
  "hm_insert h e t = t\<lparr>rt_map := AList.update h e (rt_map t)\<rparr>"

definition hm_remove :: "na_handle \<Rightarrow> resource_table \<Rightarrow> resource_table" where
  "hm_remove h t = t\<lparr>rt_map := AList.delete h (rt_map t)\<rparr>"

definition hm_detach :: "na_handle \<Rightarrow> resource_table \<Rightarrow> (na_handle \<times> cap_entry) option \<times> resource_table" where
  "hm_detach h t = (case hm_get h t of None \<Rightarrow> (None, t) | Some e \<Rightarrow> (Some (h, e), hm_remove h t))"

definition hm_attach :: "na_handle \<times> cap_entry \<Rightarrow> resource_table \<Rightarrow> bool \<times> resource_table" where
  "hm_attach node t =
     (if hm_get (fst node) t \<noteq> None then (False, t) else (True, hm_insert (fst node) (snd node) t))"

section \<open>Allocation, installation, reservation\<close>

definition allocate_native_handle_locked :: "resource_table \<Rightarrow> na_handle \<times> resource_table" where
  "allocate_native_handle_locked t =
     (if rt_count t \<ge> NA_CAPABILITY_MAX_PER_PROCESS \<or> rt_next t = NA_HANDLE_INVALID
      then (NA_HANDLE_INVALID, t)
      else (rt_next t, t\<lparr>rt_next := rt_next t + 1\<rparr>))"

definition install_native ::
  "khandle \<Rightarrow> metadata \<Rightarrow> resource_table \<Rightarrow> na_handle \<times> resource_table \<times> cap_event list" where
  "install_native object meta t =
     (case object of
        None \<Rightarrow> (NA_HANDLE_INVALID, t, [])
      | Some ob \<Rightarrow>
          (let (handle, t1) = allocate_native_handle_locked t
           in if handle = NA_HANDLE_INVALID then (NA_HANDLE_INVALID, t, [Ev_unref ob])
              else let entry = \<lparr>ce_object = Some ob, ce_generation = handle, ce_state = st_active, ce_meta = meta\<rparr>;
                       t2 = hm_insert handle entry t1
                   in (handle, t2\<lparr>rt_count := rt_count t2 + 1\<rparr>, [Ev_acquire ob table_root])))"

fun reserve_loop :: "nat \<Rightarrow> na_handle list \<Rightarrow> resource_table \<Rightarrow> na_status \<times> na_handle list \<times> resource_table" where
  "reserve_loop 0 handles t = (NA_STATUS_OK, handles, t)"
| "reserve_loop (Suc n) handles t =
     (let (handle, t1) = allocate_native_handle_locked t
      in if handle = NA_HANDLE_INVALID
         then let t2 = fold hm_remove handles t1
              in (NA_STATUS_RESOURCE_EXHAUSTED, [], t2\<lparr>rt_count := rt_count t2 - of_nat (length handles)\<rparr>)
         else let entry = cap_entry_default\<lparr>ce_generation := handle, ce_state := st_reserved\<rparr>;
                  t2 = hm_insert handle entry t1
              in reserve_loop n (handles @ [handle]) (t2\<lparr>rt_count := rt_count t2 + 1\<rparr>))"

definition reserve_native ::
  "bool \<Rightarrow> u64 \<Rightarrow> resource_table \<Rightarrow> na_status \<times> na_handle list \<times> resource_table" where
  "reserve_native mem_ok count t =
     (if count > NA_CAPABILITY_MAX_PER_PROCESS then (NA_STATUS_RESOURCE_EXHAUSTED, [], t)
      else if count \<noteq> 0 \<and> \<not> mem_ok then (NA_STATUS_RESOURCE_EXHAUSTED, [], t)
      else reserve_loop (unat count) [] t)"

definition activate_native ::
  "na_handle \<Rightarrow> transferred_resource \<Rightarrow> resource_table \<Rightarrow>
     na_status \<times> transferred_resource \<times> resource_table \<times> cap_event list" where
  "activate_native handle resource t =
     (if handle = NA_HANDLE_INVALID \<or> \<not> tr_valid resource then (NA_STATUS_INVALID_ARGUMENT, resource, t, [])
      else case hm_get handle t of
        None \<Rightarrow> (NA_STATUS_INVALID_HANDLE, resource, t, [])
      | Some existing \<Rightarrow>
          if ce_state existing \<noteq> st_reserved then (NA_STATUS_INVALID_HANDLE, resource, t, [])
          else (let (object, resource') = tr_take_object_without_callback resource
                in case object of
                     None \<Rightarrow> (NA_STATUS_INVALID_ARGUMENT, resource', t, [])
                   | Some ob \<Rightarrow>
                       (let (new_object, _, es) = h_assign_move (ce_object existing) (Some ob);
                            existing' = existing\<lparr>ce_object := new_object, ce_state := st_active,
                              ce_meta := tr_meta resource'\<rparr>
                        in (NA_STATUS_OK, resource', hm_insert handle existing' t,
                            es @ [Ev_acquire ob table_root, Ev_release ob in_transit]))))"

definition rollback_one :: "na_handle \<Rightarrow> resource_table \<Rightarrow> resource_table" where
  "rollback_one handle t =
     (case hm_get handle t of
        Some existing \<Rightarrow>
          if ce_state existing = st_reserved
          then let t1 = hm_remove handle t in t1\<lparr>rt_count := rt_count t1 - 1\<rparr> else t
      | None \<Rightarrow> t)"

definition rollback_native :: "na_handle list \<Rightarrow> resource_table \<Rightarrow> resource_table" where
  "rollback_native handles t = fold rollback_one handles t"

section \<open>Lookup and close\<close>

definition lookup_native :: "na_handle \<Rightarrow> resource_table \<Rightarrow> cap_entry option" where
  "lookup_native handle t =
     (case hm_get handle t of
        None \<Rightarrow> None
      | Some found \<Rightarrow> if ce_state found \<noteq> st_active then None else Some found)"

definition has_native_object_type :: "(oid \<Rightarrow> ktype) \<Rightarrow> ktype \<Rightarrow> resource_table \<Rightarrow> bool" where
  "has_native_object_type ktype_of ty t =
     list_ex (\<lambda>(k, e). ce_state e = st_active \<and>
        (case ce_object e of Some ob \<Rightarrow> ktype_of ob = ty | None \<Rightarrow> False)) (rt_map t)"

definition has_native_protocol_right :: "u64 \<Rightarrow> resource_table \<Rightarrow> bool" where
  "has_native_protocol_right right t =
     list_ex (\<lambda>(k, e). ce_state e = st_active \<and> ce_object e \<noteq> None \<and>
        md_protocol_rights (ce_meta e) AND right = right) (rt_map t)"

definition native_signals :: "(oid \<Rightarrow> na_signal) \<Rightarrow> na_handle \<Rightarrow> resource_table \<Rightarrow> na_signal" where
  "native_signals signals_of handle t =
     (case lookup_native handle t of
        None \<Rightarrow> 0
      | Some e \<Rightarrow> (case ce_object e of None \<Rightarrow> 0 | Some ob \<Rightarrow> signals_of ob))"

definition close_native ::
  "na_handle \<Rightarrow> resource_table \<Rightarrow> na_status \<times> resource_table \<times> cap_event list" where
  "close_native handle t =
     (if handle = NA_HANDLE_INVALID then (NA_STATUS_INVALID_HANDLE, t, [])
      else case hm_get handle t of
        None \<Rightarrow> (NA_STATUS_INVALID_HANDLE, t, [])
      | Some found \<Rightarrow>
          if ce_state found \<noteq> st_active then (NA_STATUS_INVALID_HANDLE, t, [])
          else let t1 = hm_remove handle t
               in (NA_STATUS_OK, t1\<lparr>rt_count := rt_count t1 - 1\<rparr>,
                   case ce_object found of
                     None \<Rightarrow> []
                   | Some ob \<Rightarrow> [Ev_release ob table_root, Ev_unref ob]))"

section \<open>Duplication and restriction\<close>

definition duplicate_native ::
  "(oid \<Rightarrow> bool) \<Rightarrow> na_handle \<Rightarrow> na_meta_rights \<Rightarrow> resource_table \<Rightarrow>
     na_status \<times> na_handle \<times> resource_table \<times> cap_event list" where
  "duplicate_native unique source requested_rights t =
     (case hm_get source t of
        None \<Rightarrow> (NA_STATUS_INVALID_HANDLE, NA_HANDLE_INVALID, t, [])
      | Some found \<Rightarrow>
          if ce_state found \<noteq> st_active then (NA_STATUS_INVALID_HANDLE, NA_HANDLE_INVALID, t, [])
          else case ce_object found of
            None \<Rightarrow> (NA_STATUS_INVALID_HANDLE, NA_HANDLE_INVALID, t, [])
          | Some ob \<Rightarrow>
              if md_meta_rights (ce_meta found) AND NA_RIGHT_DUPLICATE = 0 \<or> unique ob
              then (NA_STATUS_ACCESS_DENIED, NA_HANDLE_INVALID, t, [])
              else (let rights = (if requested_rights = 0 then md_meta_rights (ce_meta found) else requested_rights)
                    in if rights AND NOT (md_meta_rights (ce_meta found)) \<noteq> 0
                       then (NA_STATUS_ACCESS_DENIED, NA_HANDLE_INVALID, t, [])
                       else let (handle, t1) = allocate_native_handle_locked t
                            in if handle = NA_HANDLE_INVALID
                               then (NA_STATUS_RESOURCE_EXHAUSTED, NA_HANDLE_INVALID, t, [])
                               else let duplicated = found\<lparr>ce_meta := (ce_meta found)\<lparr>md_meta_rights := rights\<rparr>,
                                          ce_generation := handle\<rparr>;
                                        t2 = hm_insert handle duplicated t1
                                    in (NA_STATUS_OK, handle, t2\<lparr>rt_count := rt_count t2 + 1\<rparr>,
                                        [Ev_ref ob, Ev_acquire ob table_root])))"

record na_handle_restriction =
  rs_struct_size :: u32
  rs_flags :: u32
  rs_scope :: u64
  rs_revision :: u64
  rs_features :: u64
  rs_meta_rights :: na_meta_rights
  rs_protocol_rights :: u64

definition restriction_known_flags :: u32 where
  "restriction_known_flags = NA_RESTRICTION_SCOPE OR NA_RESTRICTION_REVISION OR NA_RESTRICTION_FEATURES OR
     NA_RESTRICTION_META_RIGHTS OR NA_RESTRICTION_PROTOCOL_RIGHTS"

definition sizeof_na_handle_restriction :: u32 where
  "sizeof_na_handle_restriction = 48"

text \<open>The checks of \<^verbatim>\<open>restrict_native\<close> on the metadata of the source, in the order of the code.\<close>

definition restrict_denied :: "na_handle_restriction \<Rightarrow> metadata \<Rightarrow> bool" where
  "restrict_denied r meta \<longleftrightarrow>
     (let rights = (if rs_flags r AND NA_RESTRICTION_META_RIGHTS = 0 then md_meta_rights meta else rs_meta_rights r);
          protocol_rights = (if rs_flags r AND NA_RESTRICTION_PROTOCOL_RIGHTS = 0
                             then md_protocol_rights meta else rs_protocol_rights r)
      in rights AND NOT (md_meta_rights meta) \<noteq> 0 \<or>
         protocol_rights AND NOT (md_protocol_rights meta) \<noteq> 0 \<or>
         (rs_flags r AND NA_RESTRICTION_SCOPE \<noteq> 0 \<and> (rs_scope r = 0 \<or> rs_scope r \<noteq> md_scope meta)) \<or>
         (rs_flags r AND NA_RESTRICTION_REVISION \<noteq> 0 \<and>
            (rs_revision r = 0 \<or> rs_revision r > md_revision meta)) \<or>
         (rs_flags r AND NA_RESTRICTION_FEATURES \<noteq> 0 \<and> rs_features r AND NOT (md_features meta) \<noteq> 0))"

definition restrict_meta :: "na_handle_restriction \<Rightarrow> metadata \<Rightarrow> metadata" where
  "restrict_meta r meta =
     meta\<lparr>md_meta_rights := if rs_flags r AND NA_RESTRICTION_META_RIGHTS = 0 then md_meta_rights meta else rs_meta_rights r,
          md_protocol_rights := if rs_flags r AND NA_RESTRICTION_PROTOCOL_RIGHTS = 0
                                then md_protocol_rights meta else rs_protocol_rights r,
          md_scope := if rs_flags r AND NA_RESTRICTION_SCOPE \<noteq> 0 then rs_scope r else md_scope meta,
          md_revision := if rs_flags r AND NA_RESTRICTION_REVISION \<noteq> 0 then rs_revision r else md_revision meta,
          md_features := if rs_flags r AND NA_RESTRICTION_FEATURES \<noteq> 0 then rs_features r else md_features meta\<rparr>"

text \<open>Returns the status, the handle of the reserved replacement, the backup of the source.\<close>

definition restrict_native ::
  "na_handle \<Rightarrow> na_handle_restriction \<Rightarrow> resource_table \<Rightarrow>
     na_status \<times> na_handle \<times> cap_entry \<times> resource_table \<times> cap_event list" where
  "restrict_native source r t =
     (if rs_struct_size r < sizeof_na_handle_restriction \<or> rs_flags r AND NOT restriction_known_flags \<noteq> 0
      then (NA_STATUS_INVALID_ARGUMENT, NA_HANDLE_INVALID, cap_entry_default, t, [])
      else case hm_get source t of
        None \<Rightarrow> (NA_STATUS_INVALID_HANDLE, NA_HANDLE_INVALID, cap_entry_default, t, [])
      | Some found \<Rightarrow>
          if ce_state found \<noteq> st_active
          then (NA_STATUS_INVALID_HANDLE, NA_HANDLE_INVALID, cap_entry_default, t, [])
          else if restrict_denied r (ce_meta found)
          then (NA_STATUS_ACCESS_DENIED, NA_HANDLE_INVALID, cap_entry_default, t, [])
          else (let (handle, t1) = allocate_native_handle_locked t
                in if handle = NA_HANDLE_INVALID
                   then (NA_STATUS_RESOURCE_EXHAUSTED, NA_HANDLE_INVALID, cap_entry_default, t, [])
                   else let restricted = \<lparr>ce_object = None, ce_generation = handle, ce_state = st_reserved,
                              ce_meta = restrict_meta r (ce_meta found)\<rparr>;
                            t2 = hm_insert source (found\<lparr>ce_state := st_restricting\<rparr>) t1;
                            t3 = hm_insert handle restricted t2
                        in (NA_STATUS_OK, handle, found, t3\<lparr>rt_count := rt_count t3 + 1\<rparr>,
                            snd (h_copy (ce_object found)))))"

definition commit_restrict ::
  "na_handle \<Rightarrow> na_handle \<Rightarrow> resource_table \<Rightarrow> na_status \<times> resource_table \<times> cap_event list" where
  "commit_restrict source restricted t =
     (if source = NA_HANDLE_INVALID \<or> restricted = NA_HANDLE_INVALID then (NA_STATUS_INVALID_ARGUMENT, t, [])
      else case (hm_get source t, hm_get restricted t) of
        (Some source_entry, Some pending) \<Rightarrow>
          if ce_state source_entry \<noteq> st_restricting \<or> ce_object source_entry = None \<or>
             ce_state pending \<noteq> st_reserved
          then (NA_STATUS_INVALID_HANDLE, t, [])
          else (let (object, _, es) = h_assign_move (ce_object pending) (ce_object source_entry);
                    t1 = hm_insert restricted (pending\<lparr>ce_object := object, ce_state := st_active\<rparr>) t;
                    t2 = hm_remove source t1
                in (NA_STATUS_OK, t2\<lparr>rt_count := rt_count t2 - 1\<rparr>,
                    es @ (case object of None \<Rightarrow> []
                          | Some ob \<Rightarrow> [Ev_acquire ob table_root, Ev_release ob table_root])))
      | _ \<Rightarrow> (NA_STATUS_INVALID_HANDLE, t, []))"

definition rollback_restrict ::
  "na_handle \<Rightarrow> na_handle \<Rightarrow> cap_entry \<Rightarrow> resource_table \<Rightarrow> na_status \<times> resource_table" where
  "rollback_restrict source restricted source_backup t =
     (if source = NA_HANDLE_INVALID \<or> restricted = NA_HANDLE_INVALID \<or> ce_object source_backup = None
      then (NA_STATUS_INVALID_ARGUMENT, t)
      else case (hm_get source t, hm_get restricted t) of
        (Some source_entry, Some restricted_entry) \<Rightarrow>
          if ce_state source_entry \<noteq> st_restricting \<or> ce_object source_entry = None \<or>
             ce_state restricted_entry \<noteq> st_reserved
          then (NA_STATUS_INVALID_HANDLE, t)
          else (let t1 = hm_remove restricted t;
                    t2 = t1\<lparr>rt_count := rt_count t1 - 1\<rparr>
                in (NA_STATUS_OK, hm_insert source (source_entry\<lparr>ce_state := st_active\<rparr>) t2))
      | _ \<Rightarrow> (NA_STATUS_INVALID_HANDLE, t))"

section \<open>Fork\<close>

text \<open>
  The scopes of the terminal endpoints are constants of a generated header; they are
  parameters here.
\<close>

definition fork_inheritable :: "u64 \<Rightarrow> u64 \<Rightarrow> cap_entry \<Rightarrow> bool" where
  "fork_inheritable scope_terminal_master scope_terminal_slave entry =
     (if md_binding (ce_meta entry) \<noteq> NA_BINDING_KERNEL_VIEW \<and> md_binding (ce_meta entry) \<noteq> NA_BINDING_CLIENT_END
      then False
      else if md_meta_rights (ce_meta entry) AND NA_RIGHT_DUPLICATE \<noteq> 0 then True
      else md_binding (ce_meta entry) = NA_BINDING_CLIENT_END \<and>
           (md_scope (ce_meta entry) = scope_terminal_master \<or> md_scope (ce_meta entry) = scope_terminal_slave))"

definition fork_clonable :: "u64 \<Rightarrow> u64 \<Rightarrow> cap_entry \<Rightarrow> bool" where
  "fork_clonable sm ss entry \<longleftrightarrow>
     ce_state entry = st_active \<and> ce_object entry \<noteq> None \<and> fork_inheritable sm ss entry"

fun clone_loop :: "u64 \<Rightarrow> u64 \<Rightarrow> (na_handle \<times> cap_entry) list \<Rightarrow> resource_table \<Rightarrow> oid list \<Rightarrow> resource_table \<times> oid list" where
  "clone_loop sm ss [] t acquired = (t, acquired)"
| "clone_loop sm ss ((key, entry) # rest) t acquired =
     (if ce_state entry \<noteq> st_active \<or> ce_object entry = None \<or> \<not> fork_inheritable sm ss entry
      then clone_loop sm ss rest t acquired
      else let t1 = hm_insert key (entry\<lparr>ce_generation := key\<rparr>) t
           in clone_loop sm ss rest (t1\<lparr>rt_count := rt_count t1 + 1\<rparr>) (acquired @ [the (ce_object entry)]))"

definition clone_fork_bindings ::
  "u64 \<Rightarrow> u64 \<Rightarrow> bool \<Rightarrow> resource_table \<Rightarrow> resource_table \<Rightarrow> na_status \<times> resource_table \<times> cap_event list" where
  "clone_fork_bindings sm ss mem_ok source t =
     (if rt_this t = rt_this source then (NA_STATUS_INVALID_ARGUMENT, t, [])
      else if rt_count t \<noteq> 0 then (NA_STATUS_INVALID_ARGUMENT, t, [])
      else let clonable = length (filter (\<lambda>(key, entry). fork_clonable sm ss entry) (rt_map source))
           in if clonable > unat NA_CAPABILITY_MAX_PER_PROCESS then (NA_STATUS_RESOURCE_EXHAUSTED, t, [])
              else if clonable \<noteq> 0 \<and> \<not> mem_ok then (NA_STATUS_RESOURCE_EXHAUSTED, t, [])
              else let (t', acquired) = clone_loop sm ss (rt_map source) (t\<lparr>rt_next := rt_next source\<rparr>) []
                   in (NA_STATUS_OK, t', concat (map (\<lambda>ob. [Ev_ref ob]) acquired) @
                         map (\<lambda>ob. Ev_acquire ob table_root) acquired))"

section \<open>Batches of capabilities in transit\<close>

record na_resource_disposition =
  ds_handle :: na_handle
  ds_operation :: u32
  ds_flags :: u32
  ds_rights :: na_meta_rights
  ds_scope :: u64

text \<open>The first pass of \<^verbatim>\<open>take_native_batch\<close>: every disposition is checked before anything moves.\<close>

fun batch_validate ::
  "(oid \<Rightarrow> bool) \<Rightarrow> na_handle \<Rightarrow> resource_table \<Rightarrow> na_resource_disposition list \<Rightarrow>
     na_resource_disposition list \<Rightarrow> na_status + (cap_entry \<times> u32) list" where
  "batch_validate unique target t seen [] = Inr []"
| "batch_validate unique target t seen (d # ds) =
     (if ds_handle d = NA_HANDLE_INVALID \<or> ds_flags d \<noteq> 0 \<or> ds_handle d = target
      then Inl NA_STATUS_INVALID_ARGUMENT
      else if list_ex (\<lambda>e. ds_handle e = ds_handle d) seen then Inl NA_STATUS_INVALID_ARGUMENT
      else case hm_get (ds_handle d) t of
        None \<Rightarrow> Inl NA_STATUS_INVALID_HANDLE
      | Some found \<Rightarrow>
          if ce_state found \<noteq> st_active then Inl NA_STATUS_INVALID_HANDLE
          else case ce_object found of
            None \<Rightarrow> Inl NA_STATUS_INVALID_HANDLE
          | Some ob \<Rightarrow>
              if ds_operation d \<noteq> NA_RESOURCE_MOVE \<and> ds_operation d \<noteq> NA_RESOURCE_DUPLICATE
              then Inl NA_STATUS_INVALID_ARGUMENT
              else if md_meta_rights (ce_meta found) AND NA_RIGHT_TRANSFER = 0 then Inl NA_STATUS_ACCESS_DENIED
              else if ds_operation d = NA_RESOURCE_DUPLICATE \<and>
                      (md_meta_rights (ce_meta found) AND NA_RIGHT_DUPLICATE = 0 \<or> unique ob)
              then Inl NA_STATUS_ACCESS_DENIED
              else (let rights = (if ds_rights d = 0 then md_meta_rights (ce_meta found) else ds_rights d)
                    in if rights AND NOT (md_meta_rights (ce_meta found)) \<noteq> 0 then Inl NA_STATUS_ACCESS_DENIED
                       else if ds_scope d \<noteq> 0 \<and> ds_scope d \<noteq> md_scope (ce_meta found)
                       then Inl NA_STATUS_ACCESS_DENIED
                       else let snapshot = found\<lparr>ce_meta := (ce_meta found)\<lparr>md_meta_rights := rights,
                                  md_scope := if ds_scope d \<noteq> 0 then ds_scope d else md_scope (ce_meta found)\<rparr>\<rparr>
                            in (case batch_validate unique target t (seen @ [d]) ds of
                                  Inl e \<Rightarrow> Inl e
                                | Inr rest \<Rightarrow> Inr ((snapshot, ds_operation d) # rest))))"

text \<open>
  The second pass detaches the nodes of the moved handles. The snapshot already refers to
  the object of the node, so the move assignment from the node leaves the node's reference
  in place. Should a node be missing, the nodes detached so far are attached again.
\<close>

fun batch_detach ::
  "(na_resource_disposition \<times> cap_entry \<times> u32) list \<Rightarrow> (na_handle \<times> cap_entry) option list \<Rightarrow>
     resource_table \<Rightarrow> (na_handle \<times> cap_entry) option list option \<times> resource_table" where
  "batch_detach [] nodes t = (Some nodes, t)"
| "batch_detach ((d, snapshot, operation) # rest) nodes t =
     (if operation = NA_RESOURCE_MOVE
      then case hm_detach (ds_handle d) t of
             (None, t1) \<Rightarrow>
               (None, fold (\<lambda>node t. case node of None \<Rightarrow> t | Some nd \<Rightarrow> snd (hm_attach nd t)) nodes t1)
           | (Some node, t1) \<Rightarrow> batch_detach rest (nodes @ [Some node]) t1
      else batch_detach rest (nodes @ [None]) t)"

text \<open>The third pass runs after the table lock is released and builds the transfer records.\<close>

fun batch_records ::
  "nat \<Rightarrow> (na_resource_disposition \<times> cap_entry \<times> u32) list \<Rightarrow> (na_handle \<times> cap_entry) option list \<Rightarrow>
     transfer_record list \<times> cap_event list" where
  "batch_records this ((d, snapshot, operation) # rest) (node # nodes) =
     (let moved = (operation = NA_RESOURCE_MOVE);
          (resource, es) = tr_make (ce_object snapshot) (ce_meta snapshot);
          handoff = (case ce_object snapshot of Some ob \<Rightarrow> [Ev_handoff ob table_root in_transit] | None \<Rightarrow> []);
          token = (case node of Some nd \<Rightarrow> if moved then tk_make this nd else tk_default | None \<Rightarrow> tk_default);
          (records, es') = batch_records this rest nodes
      in (\<lparr>rec_source = ds_handle d, rec_moved = moved, rec_resource = resource, rec_token = token\<rparr> # records,
          es @ (if moved then handoff else []) @ es'))"
| "batch_records this _ _ = ([], [])"

definition take_native_batch ::
  "(oid \<Rightarrow> bool) \<Rightarrow> bool \<Rightarrow> na_resource_disposition list option \<Rightarrow> u64 \<Rightarrow> na_handle \<Rightarrow> resource_table \<Rightarrow>
     na_status \<times> transfer_record list \<times> resource_table \<times> cap_event list" where
  "take_native_batch unique mem_ok dispositions count target t =
     (if count > NA_CHANNEL_MAX_RESOURCES \<or> (count \<noteq> 0 \<and> dispositions = None)
      then (NA_STATUS_INVALID_ARGUMENT, [], t, [])
      else if count \<noteq> 0 \<and> \<not> mem_ok then (NA_STATUS_RESOURCE_EXHAUSTED, [], t, [])
      else let ds = (case dispositions of None \<Rightarrow> [] | Some l \<Rightarrow> take (unat count) l)
           in case batch_validate unique target t [] ds of
                Inl status \<Rightarrow> (status, [], t, [])
              | Inr snapshots \<Rightarrow>
                  (case batch_detach (zip ds snapshots) [] t of
                     (None, t1) \<Rightarrow> (NA_STATUS_RESOURCE_EXHAUSTED, [], t1, [])
                   | (Some nodes, t1) \<Rightarrow>
                       (let refs = concat (map (\<lambda>(e, operation). snd (h_copy (ce_object e))) snapshots);
                            (records, es) = batch_records (rt_this t) (zip ds snapshots) nodes
                        in (NA_STATUS_OK, records, t1, refs @ es))))"

text \<open>Restoring: a check of all records, the attachment of the nodes, then the hooks outside the lock.\<close>

definition restore_blocked :: "resource_table \<Rightarrow> transfer_record \<Rightarrow> bool" where
  "restore_blocked t r \<longleftrightarrow>
     rec_moved r \<and> tk_valid (rec_token r) \<and>
     (\<not> tk_belongs_to (rec_token r) (rt_this t) \<or> rec_source r = NA_HANDLE_INVALID \<or>
      \<not> tr_valid (rec_resource r) \<or> hm_get (rec_source r) t \<noteq> None)"

text \<open>
  Attaching one node: the handle of the resource is assigned to the node, which still
  refers to the same object, so the temporary reference is dropped.
\<close>

definition restore_attach ::
  "transfer_record \<Rightarrow> resource_table \<Rightarrow> (transfer_record \<times> resource_table \<times> cap_event list) option" where
  "restore_attach r t =
     (case tk_slot (rec_token r) of
        None \<Rightarrow> Some (r, t, [])
      | Some node \<Rightarrow>
          if \<not> rec_moved r then Some (r, t, [])
          else case hm_attach node t of
            (False, _) \<Rightarrow> None
          | (True, t1) \<Rightarrow>
              (let (object, resource) = tr_take_object_without_callback (rec_resource r);
                   (node_object, rest, es) = h_assign_move (ce_object (snd node)) object;
                   (_, es') = h_drop rest;
                   t2 = hm_insert (fst node) ((snd node)\<lparr>ce_object := node_object, ce_state := st_active\<rparr>) t1;
                   (callback, es'') = h_copy node_object
               in Some (r\<lparr>rec_resource := resource,
                          rec_token := tk_disarm ((rec_token r)\<lparr>tk_callback_object := callback\<rparr>)\<rparr>,
                        t2, es @ es' @ es'')))"

fun restore_attach_all ::
  "transfer_record list \<Rightarrow> resource_table \<Rightarrow> bool \<times> transfer_record list \<times> resource_table \<times> cap_event list" where
  "restore_attach_all [] t = (True, [], t, [])"
| "restore_attach_all (r # rs) t =
     (case restore_attach r t of
        None \<Rightarrow> (False, r # rs, t, [])
      | Some (r', t1, es) \<Rightarrow>
          (let (ok, rs', t2, es') = restore_attach_all rs t1 in (ok, r' # rs', t2, es @ es')))"

definition restore_callbacks :: "transfer_record \<Rightarrow> transfer_record \<times> cap_event list" where
  "restore_callbacks r =
     (case tk_callback_object (rec_token r) of
        None \<Rightarrow> (let (resource, es) = tr_release_transit (rec_resource r) in (r\<lparr>rec_resource := resource\<rparr>, es))
      | Some ob \<Rightarrow>
          if \<not> rec_moved r then (r, [])
          else (r\<lparr>rec_token := (rec_token r)\<lparr>tk_callback_object := None\<rparr>\<rparr>,
                [Ev_acquire ob table_root, Ev_release ob in_transit, Ev_unref ob]))"

definition restore_native_batch ::
  "transfer_record list \<Rightarrow> resource_table \<Rightarrow> na_status \<times> transfer_record list \<times> resource_table \<times> cap_event list" where
  "restore_native_batch records t =
     (if list_ex (restore_blocked t) records then (NA_STATUS_RESOURCE_EXHAUSTED, records, t, [])
      else case restore_attach_all records t of
        (False, records', t', es) \<Rightarrow> (NA_STATUS_RESOURCE_EXHAUSTED, records', t', es)
      | (True, records', t', es) \<Rightarrow>
          (NA_STATUS_OK, map (fst \<circ> restore_callbacks) records', t',
           es @ concat (map (snd \<circ> restore_callbacks) records')))"

definition commit_one :: "transfer_record \<Rightarrow> resource_table \<Rightarrow> transfer_record \<times> resource_table \<times> cap_event list" where
  "commit_one r t =
     (if \<not> rec_moved r \<or> \<not> tk_belongs_to (rec_token r) (rt_this t) then (r, t, [])
      else (r\<lparr>rec_token := tk_disarm (rec_token r)\<rparr>, t\<lparr>rt_count := rt_count t - 1\<rparr>,
            case tk_slot (rec_token r) of Some node \<Rightarrow> node_destroy node | None \<Rightarrow> []))"

fun commit_native_batch ::
  "transfer_record list \<Rightarrow> resource_table \<Rightarrow> transfer_record list \<times> resource_table \<times> cap_event list" where
  "commit_native_batch [] t = ([], t, [])"
| "commit_native_batch (r # rs) t =
     (let (r', t1, es) = commit_one r t; (rs', t2, es') = commit_native_batch rs t1
      in (r' # rs', t2, es @ es'))"

definition clear_native_locked :: "resource_table \<Rightarrow> resource_table \<times> oid list" where
  "clear_native_locked t =
     (t\<lparr>rt_map := [], rt_count := 0\<rparr>, List.map_filter (\<lambda>(k, e). ce_object e) (rt_map t))"

definition rt_clear :: "resource_table \<Rightarrow> resource_table \<times> cap_event list" where
  "rt_clear t =
     (let (t', released) = clear_native_locked t
      in (t', map (\<lambda>ob. Ev_release ob table_root) released @ map Ev_unref released))"

end
