(* ===== verification/Resource_Table_Inv.thy ===== *)
theory Resource_Table_Inv
  imports Resource_Table
begin

text \<open>
  The invariant of the capability table and the facts on its map primitives. \<open>rt_wf n t\<close>:
  the keys are distinct, nonzero and below the next handle to be given out (which is zero
  once all handles are used up); the generation of an entry is its handle; exactly the
  reserved entries have no object; and the entry count is the number of entries plus the
  \<open>n\<close> nodes that are detached while their capability is in transit.
\<close>

definition entry_ok :: "na_handle \<Rightarrow> na_handle \<times> cap_entry \<Rightarrow> bool" where
  "entry_ok nxt ke \<longleftrightarrow>
     fst ke \<noteq> NA_HANDLE_INVALID \<and> (nxt = 0 \<or> fst ke < nxt) \<and> ce_generation (snd ke) = fst ke \<and>
     (ce_state (snd ke) = st_reserved \<longleftrightarrow> ce_object (snd ke) = None)"

definition rt_wf :: "nat \<Rightarrow> resource_table \<Rightarrow> bool" where
  "rt_wf n t \<longleftrightarrow>
     distinct (map fst (rt_map t)) \<and> list_all (entry_ok (rt_next t)) (rt_map t) \<and>
     unat (rt_count t) = length (rt_map t) + n \<and> unat (rt_count t) \<le> unat NA_CAPABILITY_MAX_PER_PROCESS"

section \<open>Association lists\<close>

lemma alist_update_fresh: "map_of al k = None \<Longrightarrow> AList.update k e al = al @ [(k, e)]"
  by (induction al) (auto split: if_splits)

lemma alist_length_update:
  "length (AList.update k e al) = length al + (if map_of al k = None then 1 else 0)"
  by (induction al) auto

lemma alist_length_delete:
  "distinct (map fst al) \<Longrightarrow> map_of al k = Some e \<Longrightarrow> length al = Suc (length (AList.delete k al))"
proof (induction al)
  case (Cons a al)
  show ?case
  proof (cases "fst a = k")
    case True
    with Cons.prems(1) have "k \<notin> fst ` set al" by auto
    with True show ?thesis by (cases a) (simp add: delete_id)
  next
    case False
    with Cons show ?thesis by (cases a) auto
  qed
qed simp

lemma list_all_update:
  "list_all P al \<Longrightarrow> P (k, e) \<Longrightarrow> list_all P (AList.update k e al)"
  by (induction al) auto

lemma list_all_delete: "list_all P al \<Longrightarrow> list_all P (AList.delete k al)"
  by (induction al) (auto simp: AList.delete_eq)

definition tbl_refs :: "oid \<Rightarrow> (na_handle \<times> cap_entry) list \<Rightarrow> int" where
  "tbl_refs ob al = (\<Sum>ke\<leftarrow>al. holds ob (ce_object (snd ke)))"

lemma tbl_refs_simps [simp]:
  "tbl_refs ob [] = 0"
  "tbl_refs ob (ke # al) = holds ob (ce_object (snd ke)) + tbl_refs ob al"
  "tbl_refs ob (al @ al') = tbl_refs ob al + tbl_refs ob al'"
  by (simp_all add: tbl_refs_def)

lemma tbl_refs_update:
  "tbl_refs ob (AList.update k e al) = tbl_refs ob al + holds ob (ce_object e) -
     (case map_of al k of None \<Rightarrow> 0 | Some e' \<Rightarrow> holds ob (ce_object e'))"
  by (induction al) (auto split: option.split)

lemma tbl_refs_delete:
  "distinct (map fst al) \<Longrightarrow>
   tbl_refs ob (AList.delete k al) = tbl_refs ob al -
     (case map_of al k of None \<Rightarrow> 0 | Some e' \<Rightarrow> holds ob (ce_object e'))"
proof (induction al)
  case (Cons a al)
  show ?case
  proof (cases "fst a = k")
    case True
    with Cons.prems have "k \<notin> fst ` set al" by auto
    with True show ?thesis by (cases a) (simp add: delete_id)
  next
    case False
    with Cons show ?thesis by (cases a) (auto split: option.split)
  qed
qed simp

section \<open>Map primitives on a well-formed table\<close>

lemma hm_get_entry_ok:
  "list_all (entry_ok nxt) (rt_map t) \<Longrightarrow> hm_get h t = Some e \<Longrightarrow> entry_ok nxt (h, e)"
  by (auto simp: hm_get_def list_all_iff dest: map_of_SomeD)

lemma hm_get_insert [simp]: "hm_get h (hm_insert k e t) = (if h = k then Some e else hm_get h t)"
  by (simp add: hm_get_def hm_insert_def update_conv')

lemma hm_get_remove [simp]: "hm_get h (hm_remove k t) = (if h = k then None else hm_get h t)"
  by (simp add: hm_get_def hm_remove_def delete_conv')

lemma hm_get_count [simp]: "hm_get h (t\<lparr>rt_count := c\<rparr>) = hm_get h t"
  by (simp add: hm_get_def)

lemma hm_get_next [simp]: "hm_get h (t\<lparr>rt_next := c\<rparr>) = hm_get h t"
  by (simp add: hm_get_def)

lemma hm_fields [simp]:
  "rt_this (hm_insert k e t) = rt_this t" "rt_next (hm_insert k e t) = rt_next t"
  "rt_count (hm_insert k e t) = rt_count t" "rt_this (hm_remove k t) = rt_this t"
  "rt_next (hm_remove k t) = rt_next t" "rt_count (hm_remove k t) = rt_count t"
  by (simp_all add: hm_insert_def hm_remove_def)

lemma word_next_cases: "(n :: u64) + 1 = 0 \<or> n < n + 1"
proof (cases "unat n + 1 < 2 ^ 64")
  case True
  then have "unat (n + 1) = unat n + 1" using unat_add_no_wrap [of n 1] by simp
  then show ?thesis by (simp add: word_less_nat_alt)
next
  case False
  moreover have "unat n < 2 ^ 64" using unsigned_less [of n, where ?'a = nat] by simp
  ultimately have "unat n + 1 = 2 ^ 64" by linarith
  then have "unat (n + 1) = 0" by (simp add: unat_word_ariths)
  then have "n + 1 = 0" by (simp only: unat_eq_zero_iff)
  then show ?thesis ..
qed

lemma rt_wf_allocate:
  assumes "rt_wf n t" "allocate_native_handle_locked t = (h, t')" "h \<noteq> NA_HANDLE_INVALID"
  shows "rt_wf n t'" "t' = t\<lparr>rt_next := rt_next t + 1\<rparr>" "h = rt_next t"
    "hm_get h t = None" "rt_count t < NA_CAPABILITY_MAX_PER_PROCESS"
    "rt_next t' = 0 \<or> h < rt_next t'"
proof -
  show t': "t' = t\<lparr>rt_next := rt_next t + 1\<rparr>" and h: "h = rt_next t"
    and "rt_count t < NA_CAPABILITY_MAX_PER_PROCESS"
    using assms(2,3) by (auto simp: allocate_native_handle_locked_def split: if_splits)
  show nx: "rt_next t' = 0 \<or> h < rt_next t'"
    using t' h word_next_cases [of "rt_next t"] by simp
  have "entry_ok (rt_next t') ke" if "entry_ok (rt_next t) ke" for ke
    using that nx h assms(3) by (auto simp: entry_ok_def NA_HANDLE_INVALID_def)
  with assms(1) t' show "rt_wf n t'" by (auto simp: rt_wf_def list_all_iff)
  show "hm_get h t = None"
  proof (rule ccontr)
    assume "hm_get h t \<noteq> None"
    then obtain e where "hm_get h t = Some e" by blast
    then have "entry_ok (rt_next t) (h, e)"
      using assms(1) hm_get_entry_ok by (auto simp: rt_wf_def)
    with h assms(3) show False by (simp add: entry_ok_def NA_HANDLE_INVALID_def)
  qed
qed

lemma rt_wf_insert_fresh:
  assumes "rt_wf n t" "hm_get k t = None" "entry_ok (rt_next t) (k, e)"
    "rt_count t < NA_CAPABILITY_MAX_PER_PROCESS"
  shows "rt_wf n ((hm_insert k e t)\<lparr>rt_count := rt_count t + 1\<rparr>)"
proof -
  have lt: "unat (rt_count t) < unat NA_CAPABILITY_MAX_PER_PROCESS"
    using assms(4) by (simp add: word_less_nat_alt)
  then have "unat (rt_count t + 1) = unat (rt_count t) + 1"
    by (subst unat_add_no_wrap) (simp_all add: NA_CAPABILITY_MAX_PER_PROCESS_def)
  with assms lt show ?thesis
    by (auto simp: rt_wf_def hm_get_def hm_insert_def alist_length_update distinct_update list_all_update)
qed

lemma rt_wf_replace:
  assumes "rt_wf n t" "hm_get k t = Some e'" "entry_ok (rt_next t) (k, e)"
  shows "rt_wf n (hm_insert k e t)"
  using assms
  by (auto simp: rt_wf_def hm_get_def hm_insert_def alist_length_update distinct_update list_all_update)

lemma rt_wf_detach:
  assumes "rt_wf n t" "hm_get k t = Some e"
  shows "rt_wf (Suc n) (hm_remove k t)"
  using assms alist_length_delete [of "rt_map t" k e]
  by (auto simp: rt_wf_def hm_get_def hm_remove_def distinct_delete list_all_delete)

lemma rt_wf_uncount:
  assumes "rt_wf (Suc n) t"
  shows "rt_wf n (t\<lparr>rt_count := rt_count t - 1\<rparr>)"
proof -
  have "rt_count t \<noteq> 0" using assms by (auto simp: rt_wf_def)
  then have "unat (rt_count t - 1) = unat (rt_count t) - 1" by (simp add: unat_minus_one)
  with assms show ?thesis by (auto simp: rt_wf_def)
qed

lemma rt_wf_remove:
  assumes "rt_wf n t" "hm_get k t = Some e"
  shows "rt_wf n ((hm_remove k t)\<lparr>rt_count := rt_count t - 1\<rparr>)"
  using rt_wf_uncount [OF rt_wf_detach [OF assms]] by simp

lemma rt_wf_attach:
  assumes "rt_wf (Suc n) t" "hm_get k t = None" "entry_ok (rt_next t) (k, e)"
  shows "rt_wf n (hm_insert k e t)"
  using assms
  by (auto simp: rt_wf_def hm_get_def hm_insert_def alist_length_update distinct_update list_all_update)

lemma rt_wf_entry: "rt_wf n t \<Longrightarrow> hm_get h t = Some e \<Longrightarrow> entry_ok (rt_next t) (h, e)"
  using hm_get_entry_ok by (auto simp: rt_wf_def)

lemma rt_wf_object: "rt_wf n t \<Longrightarrow> hm_get h t = Some e \<Longrightarrow> ce_object e = None \<longleftrightarrow> ce_state e = st_reserved"
  using rt_wf_entry by (fastforce simp: entry_ok_def)

lemma rt_wf_new: "rt_wf 0 (rt_new this)"
  by (simp add: rt_wf_def rt_new_def)

definition roots :: "oid \<Rightarrow> resource_table \<Rightarrow> int" where
  "roots ob t = tbl_refs ob (rt_map t)"

lemma roots_insert [simp]:
  "roots ob (hm_insert k e t) = roots ob t + holds ob (ce_object e) -
     (case hm_get k t of None \<Rightarrow> 0 | Some e' \<Rightarrow> holds ob (ce_object e'))"
  by (simp add: roots_def hm_insert_def hm_get_def tbl_refs_update)

lemma roots_remove:
  "rt_wf n t \<Longrightarrow> roots ob (hm_remove k t) = roots ob t -
     (case hm_get k t of None \<Rightarrow> 0 | Some e' \<Rightarrow> holds ob (ce_object e'))"
  by (simp add: roots_def hm_remove_def hm_get_def tbl_refs_delete rt_wf_def)

lemma roots_fields [simp]:
  "roots ob (t\<lparr>rt_count := c\<rparr>) = roots ob t" "roots ob (t\<lparr>rt_next := c\<rparr>) = roots ob t"
  by (simp_all add: roots_def)

lemma hm_insert_record [simp]:
  "hm_insert k e (t\<lparr>rt_next := c\<rparr>) = (hm_insert k e t)\<lparr>rt_next := c\<rparr>"
  by (simp add: hm_insert_def)

section \<open>Every operation keeps the invariant and the hook accounting\<close>

text \<open>
  For each operation: the invariant is kept, and the net number of root hooks it runs for
  an object is the change in the number of table entries that name the object.
\<close>

lemma install_native_inv:
  assumes "rt_wf n t" "install_native object meta t = (h, t', es)"
  shows "rt_wf n t' \<and> roots ob t' = roots ob t + net table_root ob es \<and> net in_transit ob es = 0"
proof (cases object)
  case None
  with assms show ?thesis by (auto simp: install_native_def)
next
  case (Some p)
  obtain hd t1 where al: "allocate_native_handle_locked t = (hd, t1)" by fastforce
  show ?thesis
  proof (cases "hd = NA_HANDLE_INVALID")
    case True
    with assms Some al show ?thesis by (auto simp: install_native_def Let_def)
  next
    case False
    note a = rt_wf_allocate [OF assms(1) al False]
    have ok: "entry_ok (rt_next t1) (hd, \<lparr>ce_object = Some p, ce_generation = hd, ce_state = st_active, ce_meta = meta\<rparr>)"
      using a False by (auto simp: entry_ok_def)
    have "rt_wf n ((hm_insert hd \<lparr>ce_object = Some p, ce_generation = hd, ce_state = st_active, ce_meta = meta\<rparr> t1)
        \<lparr>rt_count := rt_count t1 + 1\<rparr>)"
      using a ok by (intro rt_wf_insert_fresh) auto
    with assms Some al False a show ?thesis by (auto simp: install_native_def Let_def)
  qed
qed

lemma default_reserved_ok:
  assumes "h \<noteq> NA_HANDLE_INVALID" "nxt = 0 \<or> h < nxt"
  shows "entry_ok nxt (h, cap_entry_default\<lparr>ce_generation := h, ce_state := st_reserved\<rparr>)"
  using assms by (simp add: entry_ok_def cap_entry_default_def)

lemma hm_remove_fold:
  "rt_this (fold hm_remove hs t) = rt_this t \<and> rt_next (fold hm_remove hs t) = rt_next t \<and>
   rt_count (fold hm_remove hs t) = rt_count t \<and>
   hm_get k (fold hm_remove hs t) = (if k \<in> set hs then None else hm_get k t)"
  by (induction hs arbitrary: t) auto

text \<open>
  Removing reserved entries again: the invariant with the uncounted ones in transit, and no
  change of roots because reserved entries have no object.
\<close>

lemma rt_wf_remove_reserved:
  assumes "rt_wf n t" "distinct hs"
    "\<And>h. h \<in> set hs \<Longrightarrow> \<exists>e. hm_get h t = Some e \<and> ce_object e = None"
  shows "rt_wf (n + length hs) (fold hm_remove hs t) \<and> roots ob (fold hm_remove hs t) = roots ob t"
  using assms
proof (induction hs arbitrary: n t)
  case (Cons h hs)
  from Cons.prems(3) obtain e where e: "hm_get h t = Some e" "ce_object e = None" by auto
  have "rt_wf (Suc n + length hs) (fold hm_remove hs (hm_remove h t)) \<and>
      roots ob (fold hm_remove hs (hm_remove h t)) = roots ob (hm_remove h t)"
    using Cons.prems rt_wf_detach [OF Cons.prems(1) e(1)]
    by (intro Cons.IH) (auto simp: Cons.prems(3))
  with e roots_remove [OF Cons.prems(1), of ob h] show ?case by simp
qed simp

lemma rt_wf_uncount_many:
  assumes "rt_wf (n + k) t"
  shows "rt_wf n (t\<lparr>rt_count := rt_count t - of_nat k\<rparr>)"
proof -
  have le: "k \<le> unat (rt_count t)" and lim: "unat (rt_count t) \<le> 4096"
    using assms by (auto simp: rt_wf_def NA_CAPABILITY_MAX_PER_PROCESS_def)
  then have k: "unat (of_nat k :: u64) = k" by (simp add: unat_of_nat)
  then have "(of_nat k :: u64) \<le> rt_count t" using le by (simp add: word_le_nat_alt)
  then have "unat (rt_count t - of_nat k) = unat (rt_count t) - k" using k by (simp add: unat_sub)
  with assms le show ?thesis by (auto simp: rt_wf_def)
qed

lemma reserve_loop_inv:
  assumes "rt_wf n t" "reserve_loop m hs t = (status, hs', t')" "distinct hs"
    "\<And>h. h \<in> set hs \<Longrightarrow> \<exists>e. hm_get h t = Some e \<and> ce_object e = None \<and> ce_state e = st_reserved"
  shows "rt_wf n t' \<and> roots ob t' = roots ob t \<and> distinct hs' \<and>
    (status = NA_STATUS_OK \<longrightarrow> length hs' = length hs + m \<and>
       (\<forall>h \<in> set hs'. \<exists>e. hm_get h t' = Some e \<and> ce_object e = None \<and> ce_state e = st_reserved)) \<and>
    (status \<noteq> NA_STATUS_OK \<longrightarrow> status = NA_STATUS_RESOURCE_EXHAUSTED \<and> hs' = [])"
  using assms
proof (induction m arbitrary: hs t)
  case 0
  then show ?case by auto
next
  case (Suc m)
  obtain h t1 where al: "allocate_native_handle_locked t = (h, t1)" by fastforce
  show ?case
  proof (cases "h = NA_HANDLE_INVALID")
    case True
    then have t1: "t1 = t" using al by (auto simp: allocate_native_handle_locked_def split: if_splits)
    have r: "rt_wf (n + length hs) (fold hm_remove hs t) \<and> roots ob (fold hm_remove hs t) = roots ob t"
      using Suc.prems by (intro rt_wf_remove_reserved) auto
    have "t' = (fold hm_remove hs t)\<lparr>rt_count := rt_count (fold hm_remove hs t) - of_nat (length hs)\<rparr>"
      "hs' = []" "status = NA_STATUS_RESOURCE_EXHAUSTED"
      using Suc.prems(2) al True t1 by (auto simp: Let_def)
    with r rt_wf_uncount_many [of n "length hs" "fold hm_remove hs t"] show ?thesis by simp
  next
    case False
    note a = rt_wf_allocate [OF Suc.prems(1) al False]
    let ?e = "cap_entry_default\<lparr>ce_generation := h, ce_state := st_reserved\<rparr>"
    let ?t = "(hm_insert h ?e t1)\<lparr>rt_count := rt_count t1 + 1\<rparr>"
    have wf: "rt_wf n ?t"
      using a False default_reserved_ok [OF False a(6)] by (intro rt_wf_insert_fresh) auto
    have fresh: "h \<notin> set hs" using a(4) Suc.prems(4) by fastforce
    have obj: "ce_object ?e = None" by (simp add: cap_entry_default_def)
    have run: "reserve_loop m (hs @ [h]) ?t = (status, hs', t')"
      using Suc.prems(2) al False by (simp add: Let_def)
    have res: "\<exists>e. hm_get k ?t = Some e \<and> ce_object e = None \<and> ce_state e = st_reserved"
      if "k \<in> set (hs @ [h])" for k
      using that Suc.prems(4) a(2) obj fresh by (cases "k = h") auto
    have "roots ob ?t = roots ob t" using a obj by simp
    with Suc.IH [OF wf run _ res] fresh Suc.prems(3) show ?thesis by auto
  qed
qed

lemma reserve_native_inv:
  assumes "rt_wf n t" "reserve_native mem_ok count t = (status, hs, t')"
  shows "rt_wf n t' \<and> roots ob t' = roots ob t \<and> distinct hs \<and>
    (status = NA_STATUS_OK \<longrightarrow> length hs = unat count \<and>
       (\<forall>h \<in> set hs. \<exists>e. hm_get h t' = Some e \<and> ce_object e = None \<and> ce_state e = st_reserved)) \<and>
    (status \<noteq> NA_STATUS_OK \<longrightarrow> status = NA_STATUS_RESOURCE_EXHAUSTED \<and> hs = [])"
proof (cases "count > NA_CAPABILITY_MAX_PER_PROCESS \<or> (count \<noteq> 0 \<and> \<not> mem_ok)")
  case True
  with assms show ?thesis by (auto simp: reserve_native_def split: if_splits)
next
  case False
  with assms have "reserve_loop (unat count) [] t = (status, hs, t')"
    by (auto simp: reserve_native_def split: if_splits)
  from reserve_loop_inv [OF assms(1) this, of ob] show ?thesis by auto
qed

lemma rollback_one_inv:
  assumes "rt_wf n t"
  shows "rt_wf n (rollback_one h t) \<and> roots ob (rollback_one h t) = roots ob t"
  using assms rt_wf_remove [OF assms, of h] roots_remove [OF assms, of ob h] rt_wf_object [OF assms, of h]
  by (auto simp: rollback_one_def Let_def split: option.split)

lemma rollback_native_inv:
  assumes "rt_wf n t"
  shows "rt_wf n (rollback_native hs t) \<and> roots ob (rollback_native hs t) = roots ob t"
  using assms
proof (induction hs arbitrary: t)
  case (Cons h hs)
  with rollback_one_inv [of n t h ob] show ?case by (auto simp: rollback_native_def)
qed (simp add: rollback_native_def)

lemma activate_native_inv:
  assumes "rt_wf n t" "activate_native h r t = (status, r', t', es)"
  shows "rt_wf n t' \<and> roots ob t' = roots ob t + net table_root ob es \<and>
    (tr_in_transit r \<longrightarrow> tr_transit ob r' = tr_transit ob r + net in_transit ob es)"
proof (cases "status = NA_STATUS_OK")
  case False
  then show ?thesis using assms
    by (auto simp: activate_native_def tr_take_object_without_callback_def tr_valid_def Let_def
        split: option.splits if_splits prod.splits)
next
  case True
  then obtain e p where e: "hm_get h t = Some e" "ce_state e = st_reserved" and p: "tr_object r = Some p"
    and h: "h \<noteq> NA_HANDLE_INVALID"
    using assms(2)
    by (auto simp: activate_native_def tr_take_object_without_callback_def tr_valid_def Let_def
        split: option.splits if_splits)
  from rt_wf_object [OF assms(1) e(1)] e(2) have none: "ce_object e = None" by simp
  let ?e = "e\<lparr>ce_object := Some p, ce_state := st_active, ce_meta := tr_meta r\<rparr>"
  have "t' = hm_insert h ?e t" "es = [Ev_acquire p table_root, Ev_release p in_transit]"
    "r' = r\<lparr>tr_object := None, tr_in_transit := False\<rparr>"
    using assms(2) e p h none
    by (auto simp: activate_native_def tr_take_object_without_callback_def tr_valid_def Let_def
        h_assign_move_def h_drop_def)
  moreover have "entry_ok (rt_next t) (h, ?e)"
    using rt_wf_entry [OF assms(1) e(1)] by (simp add: entry_ok_def)
  ultimately show ?thesis
    using rt_wf_replace [OF assms(1) e(1)] none p e by (auto simp: tr_transit_def)
qed

lemma close_native_inv:
  assumes "rt_wf n t" "close_native h t = (status, t', es)"
  shows "rt_wf n t' \<and> roots ob t' = roots ob t + net table_root ob es \<and> net in_transit ob es = 0"
  using assms rt_wf_remove [OF assms(1), of h] roots_remove [OF assms(1), of ob h]
  by (auto simp: close_native_def Let_def split: option.splits if_splits)

lemma duplicate_native_inv:
  assumes "rt_wf n t" "duplicate_native unique source rights t = (status, h, t', es)"
  shows "rt_wf n t' \<and> roots ob t' = roots ob t + net table_root ob es \<and> net in_transit ob es = 0"
proof (cases "status = NA_STATUS_OK")
  case False
  then show ?thesis using assms
    by (auto simp: duplicate_native_def Let_def split: option.splits if_splits prod.splits)
next
  case True
  then obtain e p t1 where e: "hm_get source t = Some e" "ce_state e = st_active" "ce_object e = Some p"
    and al: "allocate_native_handle_locked t = (h, t1)" and h: "h \<noteq> NA_HANDLE_INVALID"
    and t': "t' = (hm_insert h (e\<lparr>ce_meta := (ce_meta e)\<lparr>md_meta_rights :=
          (if rights = 0 then md_meta_rights (ce_meta e) else rights)\<rparr>, ce_generation := h\<rparr>) t1)
          \<lparr>rt_count := rt_count t1 + 1\<rparr>"
    and es: "es = [Ev_ref p, Ev_acquire p table_root]"
    using assms(2)
    by (auto simp: duplicate_native_def Let_def split: option.splits if_splits prod.splits)
  note a = rt_wf_allocate [OF assms(1) al h]
  have "rt_wf n t'" unfolding t'
    using a e h by (intro rt_wf_insert_fresh) (auto simp: entry_ok_def)
  with a e t' es show ?thesis by auto
qed

lemma restrict_native_inv:
  assumes "rt_wf n t" "restrict_native source r t = (status, h, backup, t', es)"
  shows "rt_wf n t' \<and> roots ob t' = roots ob t + net table_root ob es \<and> net in_transit ob es = 0"
proof (cases "status = NA_STATUS_OK")
  case False
  then show ?thesis using assms
    by (auto simp: restrict_native_def Let_def split: option.splits if_splits prod.splits)
next
  case True
  then obtain e t1 where e: "hm_get source t = Some e" "ce_state e = st_active"
    and al: "allocate_native_handle_locked t = (h, t1)" and h: "h \<noteq> NA_HANDLE_INVALID"
    and t': "t' = (hm_insert h \<lparr>ce_object = None, ce_generation = h, ce_state = st_reserved,
                      ce_meta = restrict_meta r (ce_meta e)\<rparr>
                    (hm_insert source (e\<lparr>ce_state := st_restricting\<rparr>) t1))\<lparr>rt_count := rt_count t1 + 1\<rparr>"
    and es: "es = snd (h_copy (ce_object e))"
    using assms(2)
    by (auto simp: restrict_native_def Let_def split: option.splits if_splits prod.splits)
  note a = rt_wf_allocate [OF assms(1) al h]
  let ?t2 = "hm_insert source (e\<lparr>ce_state := st_restricting\<rparr>) t1"
  have src: "hm_get source t1 = Some e" using e a(2) by simp
  have wf2: "rt_wf n ?t2"
    using rt_wf_entry [OF a(1) src] e by (intro rt_wf_replace [OF a(1) src]) (auto simp: entry_ok_def)
  have ne: "h \<noteq> source" using a(4) e by auto
  have "rt_wf n ((hm_insert h \<lparr>ce_object = None, ce_generation = h, ce_state = st_reserved,
                      ce_meta = restrict_meta r (ce_meta e)\<rparr> ?t2)\<lparr>rt_count := rt_count ?t2 + 1\<rparr>)"
    using a ne h by (intro rt_wf_insert_fresh [OF wf2]) (auto simp: entry_ok_def)
  with a e ne t' es show ?thesis by auto
qed

lemma commit_restrict_inv:
  assumes "rt_wf n t" "commit_restrict source h t = (status, t', es)"
  shows "rt_wf n t' \<and> roots ob t' = roots ob t + net table_root ob es \<and> net in_transit ob es = 0"
proof (cases "status = NA_STATUS_OK")
  case False
  then show ?thesis using assms
    by (auto simp: commit_restrict_def Let_def split: option.splits if_splits prod.splits)
next
  case True
  then obtain e d p where e: "hm_get source t = Some e" "ce_state e = st_restricting" "ce_object e = Some p"
    and d: "hm_get h t = Some d" "ce_state d = st_reserved"
    using assms(2)
    by (auto simp: commit_restrict_def Let_def split: option.splits if_splits prod.splits)
  from rt_wf_object [OF assms(1) d(1)] d(2) have none: "ce_object d = None" by simp
  let ?t1 = "hm_insert h (d\<lparr>ce_object := Some p, ce_state := st_active\<rparr>) t"
  have t': "t' = (hm_remove source ?t1)\<lparr>rt_count := rt_count t - 1\<rparr>"
    and es: "es = [Ev_acquire p table_root, Ev_release p table_root]"
    using assms(2) True e d none
    by (auto simp: commit_restrict_def Let_def h_assign_move_def h_drop_def split: if_splits)
  have ne: "source \<noteq> h" using e d by auto
  have wf1: "rt_wf n ?t1"
    using rt_wf_entry [OF assms(1) d(1)] by (intro rt_wf_replace [OF assms(1) d(1)]) (auto simp: entry_ok_def)
  have g1: "hm_get source ?t1 = Some e" using e ne by simp
  show ?thesis
    using rt_wf_remove [OF wf1 g1] roots_remove [OF wf1, of ob source] t' es e d none ne g1 by auto
qed

lemma rollback_restrict_inv:
  assumes "rt_wf n t" "rollback_restrict source h backup t = (status, t')"
  shows "rt_wf n t' \<and> roots ob t' = roots ob t"
proof (cases "status = NA_STATUS_OK")
  case False
  then show ?thesis using assms
    by (auto simp: rollback_restrict_def Let_def split: option.splits if_splits prod.splits)
next
  case True
  then obtain e d p where e: "hm_get source t = Some e" "ce_state e = st_restricting" "ce_object e = Some p"
    and d: "hm_get h t = Some d" "ce_state d = st_reserved"
    and t': "t' = hm_insert source (e\<lparr>ce_state := st_active\<rparr>) ((hm_remove h t)\<lparr>rt_count := rt_count t - 1\<rparr>)"
    using assms(2)
    by (auto simp: rollback_restrict_def Let_def split: option.splits if_splits prod.splits)
  from rt_wf_object [OF assms(1) d(1)] d(2) have none: "ce_object d = None" by simp
  have ne: "source \<noteq> h" using e d by auto
  have wf1: "rt_wf n ((hm_remove h t)\<lparr>rt_count := rt_count t - 1\<rparr>)" by (rule rt_wf_remove [OF assms(1) d(1)])
  have g1: "hm_get source ((hm_remove h t)\<lparr>rt_count := rt_count t - 1\<rparr>) = Some e" using e ne by simp
  have "rt_wf n t'" unfolding t'
    using rt_wf_entry [OF wf1 g1] e by (intro rt_wf_replace [OF wf1 g1]) (auto simp: entry_ok_def)
  then show ?thesis using t' roots_remove [OF assms(1), of ob h] d none e ne g1 by auto
qed

lemma tbl_refs_map_filter:
  "tbl_refs ob al = int (count_list (List.map_filter (\<lambda>(k, e). ce_object e) al) ob)"
  by (induction al) (auto simp: map_filter_simps split: option.split)

lemma net_release_list:
  "net table_root ob (map (\<lambda>p. Ev_release p table_root) ps) = - int (count_list ps ob)"
  "net in_transit ob (map (\<lambda>p. Ev_release p table_root) ps) = 0"
  "net l ob (map Ev_unref ps) = 0"
  by (induction ps) auto

lemma rt_clear_inv:
  assumes "rt_wf 0 t" "rt_clear t = (t', es)"
  shows "rt_wf 0 t' \<and> roots ob t' = roots ob t + net table_root ob es \<and> net in_transit ob es = 0"
  using assms tbl_refs_map_filter [of ob "rt_map t"]
  by (auto simp: rt_clear_def clear_native_locked_def rt_wf_def roots_def net_release_list Let_def)

section \<open>Fork\<close>

definition map_ok :: "resource_table \<Rightarrow> bool" where
  "map_ok t \<longleftrightarrow> distinct (map fst (rt_map t)) \<and> list_all (entry_ok (rt_next t)) (rt_map t)"

lemma rt_wf_map_ok: "rt_wf n t \<Longrightarrow> map_ok t"
  by (simp add: rt_wf_def map_ok_def)

lemma clone_loop_inv:
  assumes "distinct (map fst al)" "list_all (entry_ok (rt_next t)) al" "rt_wf 0 t"
    "\<forall>k \<in> set (map fst al). hm_get k t = None"
    "unat (rt_count t) + length (filter (\<lambda>(key, entry). fork_clonable sm ss entry) al) \<le> unat NA_CAPABILITY_MAX_PER_PROCESS"
    "clone_loop sm ss al t acq = (t', acq')"
  shows "rt_wf 0 t' \<and> rt_this t' = rt_this t \<and> rt_next t' = rt_next t \<and>
    roots ob t' = roots ob t + int (count_list acq' ob) - int (count_list acq ob) \<and>
    (\<forall>k. hm_get k t' = (case map_of al k of Some e \<Rightarrow> if fork_clonable sm ss e then Some e else None | None \<Rightarrow> hm_get k t))"
  using assms
proof (induction sm ss al t acq rule: clone_loop.induct)
  case (2 sm ss key entry rest t acq)
  have fresh: "hm_get key t = None" "map_of rest key = None" using "2.prems" by (auto simp: map_of_eq_None_iff)
  show ?case
  proof (cases "fork_clonable sm ss entry")
    case False
    then have "\<not> (ce_state entry = st_active \<and> ce_object entry \<noteq> None \<and> fork_inheritable sm ss entry)"
      by (simp add: fork_clonable_def)
    then have "rt_wf 0 t' \<and> rt_this t' = rt_this t \<and> rt_next t' = rt_next t \<and>
        roots ob t' = roots ob t + int (count_list acq' ob) - int (count_list acq ob) \<and>
        (\<forall>k. hm_get k t' = (case map_of rest k of Some e \<Rightarrow> if fork_clonable sm ss e then Some e else None | None \<Rightarrow> hm_get k t))"
      using "2.prems" False by (intro "2.IH"(1)) auto
    then show ?thesis using fresh False by (auto split: option.splits)
  next
    case True
    then obtain p where p: "ce_object entry = Some p" by (auto simp: fork_clonable_def)
    have gen: "entry\<lparr>ce_generation := key\<rparr> = entry" using "2.prems"(2) by (simp add: entry_ok_def)
    let ?t1 = "(hm_insert key entry t)\<lparr>rt_count := rt_count t + 1\<rparr>"
    have active: "\<not> (ce_state entry \<noteq> st_active \<or> ce_object entry = None \<or> \<not> fork_inheritable sm ss entry)"
      using True by (simp add: fork_clonable_def)
    have step: "clone_loop sm ss rest ?t1 (acq @ [p]) = (t', acq')"
      using "2.prems"(6) True p gen by (simp add: fork_clonable_def Let_def)
    have lt: "unat (rt_count t) < unat NA_CAPABILITY_MAX_PER_PROCESS" using "2.prems"(5) True by simp
    have wf1: "rt_wf 0 ?t1"
      using "2.prems" lt by (intro rt_wf_insert_fresh) (auto simp: word_less_nat_alt)
    have cnt: "unat (rt_count t + 1) = unat (rt_count t) + 1"
      using lt by (subst unat_add_no_wrap) (simp_all add: NA_CAPABILITY_MAX_PER_PROCESS_def)
    have "rt_wf 0 t' \<and> rt_this t' = rt_this ?t1 \<and> rt_next t' = rt_next ?t1 \<and>
        roots ob t' = roots ob ?t1 + int (count_list acq' ob) - int (count_list (acq @ [p]) ob) \<and>
        (\<forall>k. hm_get k t' = (case map_of rest k of Some e \<Rightarrow> if fork_clonable sm ss e then Some e else None | None \<Rightarrow> hm_get k ?t1))"
      using "2.prems" True wf1 step cnt
      by (intro "2.IH"(2) [OF active refl, unfolded gen p option.sel hm_fields]) auto
    with fresh p True show ?thesis by (auto split: option.splits)
  qed
qed simp

lemma net_acquire_list:
  "net table_root ob (map (\<lambda>p. Ev_acquire p table_root) ps) = int (count_list ps ob)"
  "net in_transit ob (map (\<lambda>p. Ev_acquire p table_root) ps) = 0"
  "net l ob (map Ev_ref ps) = 0"
  by (induction ps) auto

lemma clone_fork_bindings_inv:
  assumes "rt_wf n t" "map_ok source" "clone_fork_bindings sm ss mem_ok source t = (NA_STATUS_OK, t', es)"
  shows "n = 0 \<and> rt_wf 0 t' \<and> rt_this t' = rt_this t \<and> roots ob t' = roots ob t + net table_root ob es \<and>
    net in_transit ob es = 0 \<and>
    (\<forall>k. hm_get k t' = (case hm_get k source of Some e \<Rightarrow> if fork_clonable sm ss e then Some e else None | None \<Rightarrow> None))"
proof -
  let ?t0 = "t\<lparr>rt_next := rt_next source\<rparr>"
  from assms(3) have zero: "rt_count t = 0"
    and len: "length (filter (\<lambda>(key, entry). fork_clonable sm ss entry) (rt_map source)) \<le> unat NA_CAPABILITY_MAX_PER_PROCESS"
    by (auto simp: clone_fork_bindings_def Let_def split: if_splits prod.splits)
  obtain acq where loop: "clone_loop sm ss (rt_map source) ?t0 [] = (t', acq)"
    and es: "es = concat (map (\<lambda>ob. [Ev_ref ob]) acq) @ map (\<lambda>ob. Ev_acquire ob table_root) acq"
    using assms(3) by (auto simp: clone_fork_bindings_def Let_def split: if_splits prod.splits)
  have n: "n = 0" "rt_map t = []" using assms(1) zero by (auto simp: rt_wf_def)
  have wf0: "rt_wf 0 ?t0" using assms(1) n by (simp add: rt_wf_def)
  have "rt_wf 0 t' \<and> rt_this t' = rt_this ?t0 \<and> rt_next t' = rt_next ?t0 \<and>
      roots ob t' = roots ob ?t0 + int (count_list acq ob) - int (count_list [] ob) \<and>
      (\<forall>k. hm_get k t' = (case map_of (rt_map source) k of
         Some e \<Rightarrow> if fork_clonable sm ss e then Some e else None | None \<Rightarrow> hm_get k ?t0))"
    using assms(2) zero len n
    by (intro clone_loop_inv [OF _ _ wf0 _ _ loop]) (auto simp: map_ok_def hm_get_def)
  moreover have "hm_get k ?t0 = None" for k using n by (simp add: hm_get_def)
  ultimately show ?thesis
    using n es by (auto simp: net_acquire_list hm_get_def [of _ source] split: option.splits)
qed

lemma clone_fork_bindings_error:
  assumes "clone_fork_bindings sm ss mem_ok source t = (status, t', es)" "status \<noteq> NA_STATUS_OK"
  shows "t' = t \<and> es = []"
  using assms by (auto simp: clone_fork_bindings_def Let_def split: if_splits prod.splits)

section \<open>Handles are not given out again\<close>

text \<open>
  \<open>tbl_ext t t'\<close>: \<open>t'\<close> is the same table at a later time. A handle that was given out before
  and is not in the table stays out of it.
\<close>

definition tbl_ext :: "resource_table \<Rightarrow> resource_table \<Rightarrow> bool" where
  "tbl_ext t t' \<longleftrightarrow>
     rt_this t' = rt_this t \<and> (\<forall>ke. entry_ok (rt_next t) ke \<longrightarrow> entry_ok (rt_next t') ke) \<and>
     (\<forall>h e. entry_ok (rt_next t) (h, e) \<longrightarrow> hm_get h t = None \<longrightarrow> hm_get h t' = None)"

lemma tbl_ext_refl [simp]: "tbl_ext t t"
  by (simp add: tbl_ext_def)

lemma tbl_ext_trans: "tbl_ext t t' \<Longrightarrow> tbl_ext t' t'' \<Longrightarrow> tbl_ext t t''"
  unfolding tbl_ext_def by metis

lemma tbl_ext_count [simp]: "tbl_ext t (t'\<lparr>rt_count := c\<rparr>) = tbl_ext t t'"
  by (simp add: tbl_ext_def)

lemma tbl_ext_remove: "tbl_ext t (hm_remove h t)"
  by (auto simp: tbl_ext_def)

lemma tbl_ext_replace: "hm_get h t = Some e \<Longrightarrow> tbl_ext t (hm_insert h e' t)"
  by (auto simp: tbl_ext_def)

lemma tbl_ext_allocate:
  assumes "allocate_native_handle_locked t = (h, t1)" "h \<noteq> NA_HANDLE_INVALID"
  shows "tbl_ext t (hm_insert h e t1)"
proof -
  have t1: "t1 = t\<lparr>rt_next := rt_next t + 1\<rparr>" and h: "h = rt_next t"
    using assms by (auto simp: allocate_native_handle_locked_def split: if_splits)
  have "entry_ok (rt_next t + 1) ke" if "entry_ok (rt_next t) ke" for ke
    using that assms(2) h word_next_cases [of "rt_next t"] by (auto simp: entry_ok_def NA_HANDLE_INVALID_def)
  with t1 h assms(2) show ?thesis
    by (auto simp: tbl_ext_def entry_ok_def NA_HANDLE_INVALID_def)
qed

lemmas tbl_ext_intros = tbl_ext_refl tbl_ext_remove tbl_ext_replace tbl_ext_allocate

lemma install_native_ext: "install_native object meta t = (h, t', es) \<Longrightarrow> tbl_ext t t'"
  by (auto simp: install_native_def Let_def tbl_ext_allocate split: option.splits if_splits prod.splits)

lemma fold_hm_remove_ext: "tbl_ext t (fold hm_remove hs t)"
proof (induction hs arbitrary: t)
  case (Cons h hs)
  show ?case using tbl_ext_trans [OF tbl_ext_remove Cons.IH] by simp
qed simp

lemma reserve_loop_ext: "reserve_loop n hs t = (status, hs', t') \<Longrightarrow> tbl_ext t t'"
proof (induction n arbitrary: hs t)
  case (Suc n)
  obtain h t1 where al: "allocate_native_handle_locked t = (h, t1)" by fastforce
  show ?case
  proof (cases "h = NA_HANDLE_INVALID")
    case True
    then have "t1 = t" using al by (auto simp: allocate_native_handle_locked_def split: if_splits)
    with Suc.prems al True show ?thesis by (auto simp: Let_def fold_hm_remove_ext)
  next
    case False
    let ?t2 = "hm_insert h (cap_entry_default\<lparr>ce_generation := h, ce_state := st_reserved\<rparr>) t1"
    have "tbl_ext (?t2\<lparr>rt_count := rt_count ?t2 + 1\<rparr>) t'"
      using Suc.prems al False by (intro Suc.IH) (auto simp: Let_def)
    moreover have "tbl_ext t (?t2\<lparr>rt_count := rt_count ?t2 + 1\<rparr>)" using tbl_ext_allocate [OF al False] by simp
    ultimately show ?thesis using tbl_ext_trans by blast
  qed
qed simp

lemma reserve_native_ext: "reserve_native mem_ok n t = (status, hs, t') \<Longrightarrow> tbl_ext t t'"
  by (auto simp: reserve_native_def reserve_loop_ext split: if_splits)

lemma rollback_native_ext: "tbl_ext t (rollback_native hs t)"
proof -
  have one: "tbl_ext t (rollback_one h t)" for h t
    by (auto simp: rollback_one_def Let_def tbl_ext_remove split: option.split)
  show ?thesis unfolding rollback_native_def
  proof (induction hs arbitrary: t)
    case (Cons h hs)
    show ?case using tbl_ext_trans [OF one Cons.IH] by simp
  qed simp
qed

lemma activate_native_ext: "activate_native h r t = (status, r', t', es) \<Longrightarrow> tbl_ext t t'"
  by (auto simp: activate_native_def Let_def tbl_ext_replace split: option.splits if_splits prod.splits)

lemma close_native_ext: "close_native h t = (status, t', es) \<Longrightarrow> tbl_ext t t'"
  by (auto simp: close_native_def Let_def tbl_ext_remove split: option.splits if_splits)

lemma duplicate_native_ext: "duplicate_native unique h rights t = (status, k, t', es) \<Longrightarrow> tbl_ext t t'"
  by (auto simp: duplicate_native_def Let_def tbl_ext_allocate split: option.splits if_splits prod.splits)

lemma restrict_native_ext:
  assumes "restrict_native h r t = (status, k, backup, t', es)"
  shows "tbl_ext t t'"
proof (cases "status = NA_STATUS_OK")
  case False
  with assms show ?thesis
    by (auto simp: restrict_native_def Let_def split: option.splits if_splits prod.splits)
next
  case True
  then obtain e t1 where e: "hm_get h t = Some e"
    and al: "allocate_native_handle_locked t = (k, t1)" and k: "k \<noteq> NA_HANDLE_INVALID"
    and t': "t' = (hm_insert k \<lparr>ce_object = None, ce_generation = k, ce_state = st_reserved,
                      ce_meta = restrict_meta r (ce_meta e)\<rparr>
                    (hm_insert h (e\<lparr>ce_state := st_restricting\<rparr>) t1))\<lparr>rt_count := rt_count t1 + 1\<rparr>"
    using assms by (auto simp: restrict_native_def Let_def split: option.splits if_splits prod.splits)
  have "t1 = t\<lparr>rt_next := rt_next t + 1\<rparr>" "k = rt_next t"
    using al k by (auto simp: allocate_native_handle_locked_def split: if_splits)
  moreover from this have "\<not> entry_ok (rt_next t) (rt_next t, x)" for x
    using k by (simp add: entry_ok_def NA_HANDLE_INVALID_def)
  moreover have "entry_ok (rt_next t) ke \<Longrightarrow> entry_ok (rt_next t1) ke" for ke
    using tbl_ext_allocate [OF al k, of e] by (cases ke) (simp add: tbl_ext_def)
  ultimately show ?thesis using t' e by (auto simp: tbl_ext_def)
qed

lemma commit_restrict_ext: "commit_restrict h k t = (status, t', es) \<Longrightarrow> tbl_ext t t'"
  by (auto simp: commit_restrict_def Let_def tbl_ext_def split: option.splits if_splits prod.splits)

lemma rollback_restrict_ext: "rollback_restrict h k backup t = (status, t') \<Longrightarrow> tbl_ext t t'"
  by (auto simp: rollback_restrict_def Let_def tbl_ext_def split: option.splits if_splits prod.splits)

end
