(* ===== verification/Resource_Batch.thy ===== *)
theory Resource_Batch
  imports Resource_Table_Inv
begin

text \<open>
  Facts on \<^verbatim>\<open>take_native_batch\<close>, \<^verbatim>\<open>restore_native_batch\<close> and
  \<^verbatim>\<open>commit_native_batch\<close>. A successful take is characterised by a closed description of its
  records (\<open>taken_record\<close>) and of the table it leaves; restoring and committing are then
  described on any batch whose records have the shape that a take gives them.
\<close>

section \<open>The validation pass\<close>

definition snapshot_of :: "na_resource_disposition \<Rightarrow> cap_entry \<Rightarrow> cap_entry" where
  "snapshot_of d found =
     found\<lparr>ce_meta := (ce_meta found)
       \<lparr>md_meta_rights := if ds_rights d = 0 then md_meta_rights (ce_meta found) else ds_rights d,
        md_scope := if ds_scope d \<noteq> 0 then ds_scope d else md_scope (ce_meta found)\<rparr>\<rparr>"

definition disposition_ok ::
  "(oid \<Rightarrow> bool) \<Rightarrow> na_handle \<Rightarrow> resource_table \<Rightarrow> na_resource_disposition \<Rightarrow> cap_entry \<times> u32 \<Rightarrow> bool" where
  "disposition_ok unique target t d so \<longleftrightarrow>
     ds_handle d \<noteq> NA_HANDLE_INVALID \<and> ds_handle d \<noteq> target \<and> snd so = ds_operation d \<and>
     (\<exists>found ob. hm_get (ds_handle d) t = Some found \<and> ce_state found = st_active \<and> ce_object found = Some ob \<and>
        fst so = snapshot_of d found \<and>
        (ds_operation d = NA_RESOURCE_MOVE \<or> ds_operation d = NA_RESOURCE_DUPLICATE) \<and>
        md_meta_rights (ce_meta found) AND NA_RIGHT_TRANSFER \<noteq> 0 \<and>
        (ds_operation d = NA_RESOURCE_DUPLICATE \<longrightarrow>
           md_meta_rights (ce_meta found) AND NA_RIGHT_DUPLICATE \<noteq> 0 \<and> \<not> unique ob) \<and>
        md_meta_rights (ce_meta (fst so)) AND NOT (md_meta_rights (ce_meta found)) = 0 \<and>
        md_scope (ce_meta (fst so)) = md_scope (ce_meta found))"

lemma batch_validate_Cons:
  assumes "batch_validate unique target t seen (d # ds) = Inr snaps"
  obtains so rest where "snaps = so # rest" "batch_validate unique target t (seen @ [d]) ds = Inr rest"
    "disposition_ok unique target t d so" "ds_handle d \<notin> ds_handle ` set seen"
proof -
  from assms obtain found ob where found: "hm_get (ds_handle d) t = Some found" "ce_state found = st_active"
      "ce_object found = Some ob" and fresh: "\<not> list_ex (\<lambda>e. ds_handle e = ds_handle d) seen"
    by (auto split: if_splits option.splits)
  from assms obtain rest where rest: "batch_validate unique target t (seen @ [d]) ds = Inr rest"
      "snaps = (snapshot_of d found, ds_operation d) # rest"
    by (auto simp: found Let_def snapshot_of_def split: if_splits sum.splits)
  have "disposition_ok unique target t d (snapshot_of d found, ds_operation d)"
    unfolding disposition_ok_def using assms rest
    by (auto simp: found Let_def snapshot_of_def split: if_splits)
  moreover have "ds_handle d \<notin> ds_handle ` set seen"
    using fresh by (auto simp: list_ex_iff)
  ultimately show thesis using that rest by blast
qed

lemma batch_validate_ok:
  assumes "batch_validate unique target t seen ds = Inr snaps"
  shows "list_all2 (disposition_ok unique target t) ds snaps \<and> distinct (map ds_handle ds) \<and>
    set (map ds_handle ds) \<inter> set (map ds_handle seen) = {}"
  using assms
proof (induction ds arbitrary: seen snaps)
  case (Cons d ds)
  from batch_validate_Cons [OF Cons.prems] obtain so rest where
    *: "snaps = so # rest" "batch_validate unique target t (seen @ [d]) ds = Inr rest"
      "disposition_ok unique target t d so" "ds_handle d \<notin> ds_handle ` set seen" by metis
  from Cons.IH [OF *(2)] * show ?case by auto
qed simp

section \<open>The detaching pass\<close>

definition moved_handles :: "(na_resource_disposition \<times> cap_entry \<times> u32) list \<Rightarrow> na_handle list" where
  "moved_handles zs = map (\<lambda>z. ds_handle (fst z)) (filter (\<lambda>z. snd (snd z) = NA_RESOURCE_MOVE) zs)"

definition taken_node ::
  "resource_table \<Rightarrow> na_resource_disposition \<times> cap_entry \<times> u32 \<Rightarrow> (na_handle \<times> cap_entry) option" where
  "taken_node t z =
     (if snd (snd z) = NA_RESOURCE_MOVE
      then map_option (Pair (ds_handle (fst z))) (hm_get (ds_handle (fst z)) t) else None)"

lemma moved_handles_simps [simp]:
  "moved_handles [] = []"
  "moved_handles ((d, s, op) # zs) = (if op = NA_RESOURCE_MOVE then ds_handle d # moved_handles zs else moved_handles zs)"
  by (simp_all add: moved_handles_def)

lemma set_moved_handles: "set (moved_handles zs) \<subseteq> (\<lambda>z. ds_handle (fst z)) ` set zs"
  by (auto simp: moved_handles_def)

lemma batch_detach_ok:
  assumes "distinct (map (\<lambda>z. ds_handle (fst z)) zs)" "\<forall>z \<in> set zs. hm_get (ds_handle (fst z)) t \<noteq> None"
  shows "batch_detach zs nodes t = (Some (nodes @ map (taken_node t) zs), fold hm_remove (moved_handles zs) t)"
  using assms
proof (induction zs arbitrary: nodes t)
  case (Cons z zs)
  obtain d s op where z: "z = (d, s, op)" by (cases z)
  show ?case
  proof (cases "op = NA_RESOURCE_MOVE")
    case True
    from Cons.prems(2) z obtain e where e: "hm_get (ds_handle d) t = Some e" by auto
    have "batch_detach zs (nodes @ [Some (ds_handle d, e)]) (hm_remove (ds_handle d) t) =
        (Some ((nodes @ [Some (ds_handle d, e)]) @ map (taken_node (hm_remove (ds_handle d) t)) zs),
         fold hm_remove (moved_handles zs) (hm_remove (ds_handle d) t))"
      using Cons.prems z by (intro Cons.IH) force+
    moreover have "map (taken_node (hm_remove (ds_handle d) t)) zs = map (taken_node t) zs"
      using Cons.prems(1) z by (force simp: taken_node_def)
    ultimately show ?thesis using z True e by (simp add: hm_detach_def taken_node_def)
  next
    case False
    have "batch_detach zs (nodes @ [None]) t =
        (Some ((nodes @ [None]) @ map (taken_node t) zs), fold hm_remove (moved_handles zs) t)"
      using Cons.prems z by (intro Cons.IH) auto
    with z False show ?thesis by (simp add: taken_node_def)
  qed
qed simp

lemma rt_wf_detach_fold:
  assumes "rt_wf n t" "distinct hs" "\<And>h. h \<in> set hs \<Longrightarrow> hm_get h t \<noteq> None"
  shows "rt_wf (n + length hs) (fold hm_remove hs t) \<and>
    roots ob (fold hm_remove hs t) =
      roots ob t - (\<Sum>h\<leftarrow>hs. case hm_get h t of None \<Rightarrow> 0 | Some e \<Rightarrow> holds ob (ce_object e))"
  using assms
proof (induction hs arbitrary: n t)
  case (Cons h hs)
  from Cons.prems(3) obtain e where e: "hm_get h t = Some e" by fastforce
  have "rt_wf (Suc n + length hs) (fold hm_remove hs (hm_remove h t)) \<and>
      roots ob (fold hm_remove hs (hm_remove h t)) = roots ob (hm_remove h t) -
        (\<Sum>k\<leftarrow>hs. case hm_get k (hm_remove h t) of None \<Rightarrow> 0 | Some e \<Rightarrow> holds ob (ce_object e))"
    using Cons.prems rt_wf_detach [OF Cons.prems(1) e]
    by (intro Cons.IH) (use Cons.prems(3) in auto)
  moreover have "(\<Sum>k\<leftarrow>hs. case hm_get k (hm_remove h t) of None \<Rightarrow> 0 | Some e \<Rightarrow> holds ob (ce_object e)) =
      (\<Sum>k\<leftarrow>hs. case hm_get k t of None \<Rightarrow> 0 | Some e \<Rightarrow> holds ob (ce_object e))"
    using Cons.prems(2) by (intro arg_cong [where f = sum_list] map_cong) auto
  ultimately show ?case using e roots_remove [OF Cons.prems(1), of ob h] by simp
qed simp

section \<open>The records of a successful take\<close>

definition taken_record ::
  "nat \<Rightarrow> resource_table \<Rightarrow> na_resource_disposition \<times> cap_entry \<times> u32 \<Rightarrow> transfer_record" where
  "taken_record this t z =
     \<lparr>rec_source = ds_handle (fst z), rec_moved = (snd (snd z) = NA_RESOURCE_MOVE),
      rec_resource = \<lparr>tr_object = ce_object (fst (snd z)), tr_meta = ce_meta (fst (snd z)), tr_in_transit = True\<rparr>,
      rec_token = (case taken_node t z of Some nd \<Rightarrow> tk_make this nd | None \<Rightarrow> tk_default)\<rparr>"

lemma batch_records_eq:
  "fst (batch_records this zs (map (taken_node t) zs)) = map (taken_record this t) zs"
  by (induction zs)
    (auto simp: taken_record_def taken_node_def tr_make_def Let_def case_prod_unfold split: option.splits)

text \<open>
  The shape of the records of a batch: the resource is in transit with an object; a moved
  record owns the detached node of its source, an active entry for the same object.
\<close>

definition rec_ok :: "nat \<Rightarrow> na_handle \<Rightarrow> transfer_record \<Rightarrow> bool" where
  "rec_ok this nxt r \<longleftrightarrow>
     tr_in_transit (rec_resource r) \<and> tr_object (rec_resource r) \<noteq> None \<and>
     (if rec_moved r
      then \<exists>e. rec_token r = tk_make this (rec_source r, e) \<and> entry_ok nxt (rec_source r, e) \<and>
               ce_state e = st_active \<and> ce_object e = tr_object (rec_resource r)
      else rec_token r = tk_default)"

definition moved_sources :: "transfer_record list \<Rightarrow> na_handle list" where
  "moved_sources rs = map rec_source (filter rec_moved rs)"

definition batch_transit :: "oid \<Rightarrow> transfer_record list \<Rightarrow> int" where
  "batch_transit ob rs = (\<Sum>r\<leftarrow>rs. tr_transit ob (rec_resource r))"

definition batch_moved :: "oid \<Rightarrow> transfer_record list \<Rightarrow> int" where
  "batch_moved ob rs = (\<Sum>r\<leftarrow>filter rec_moved rs. holds ob (tr_object (rec_resource r)))"

lemma batch_sums_simps [simp]:
  "moved_sources [] = []"
  "moved_sources (r # rs) = (if rec_moved r then rec_source r # moved_sources rs else moved_sources rs)"
  "batch_transit ob [] = 0" "batch_transit ob (r # rs) = tr_transit ob (rec_resource r) + batch_transit ob rs"
  "batch_moved ob [] = 0"
  "batch_moved ob (r # rs) = (if rec_moved r then holds ob (tr_object (rec_resource r)) else 0) + batch_moved ob rs"
  by (simp_all add: moved_sources_def batch_transit_def batch_moved_def)

lemma batch_records_net:
  assumes "\<forall>z \<in> set zs. ce_object (fst (snd z)) \<noteq> None"
  shows "net in_transit ob (snd (batch_records this zs (map (taken_node t) zs))) =
      batch_transit ob (map (taken_record this t) zs) \<and>
    net table_root ob (snd (batch_records this zs (map (taken_node t) zs))) =
      - batch_moved ob (map (taken_record this t) zs)"
  using assms
  by (induction zs)
    (auto simp: taken_record_def tr_make_def tr_acquire_transit_def tr_transit_def Let_def case_prod_unfold)

lemma refs_net:
  "net l ob (concat (map (\<lambda>(e, operation). snd (h_copy (ce_object e))) snaps)) = 0"
  by (induction snaps) auto

lemma batch_validate_error: "batch_validate unique target t seen ds = Inl e \<Longrightarrow> e \<noteq> NA_STATUS_OK"
  by (induction ds arbitrary: seen) (auto simp: Let_def split: if_splits option.splits sum.splits)

lemma map_zip_fst: "length xs = length ys \<Longrightarrow> map (\<lambda>z. f (fst z)) (zip xs ys) = map f xs"
  by (induction xs ys rule: list_induct2) auto

lemma moved_taken:
  "moved_sources (map (taken_record this t) zs) = moved_handles zs"
  by (induction zs) (auto simp: taken_record_def)

lemma take_native_batch_cases:
  assumes "take_native_batch unique mem_ok dispositions count target t = (NA_STATUS_OK, rs, t', es)"
  obtains ds snaps where
    "ds = (case dispositions of None \<Rightarrow> [] | Some l \<Rightarrow> take (unat count) l)"
    "list_all2 (disposition_ok unique target t) ds snaps" "distinct (map ds_handle ds)"
    "rs = map (taken_record (rt_this t) t) (zip ds snaps)"
    "t' = fold hm_remove (moved_sources rs) t"
    "\<And>ob. net in_transit ob es = batch_transit ob rs"
    "\<And>ob. net table_root ob es = - batch_moved ob rs"
proof -
  define ds where "ds = (case dispositions of None \<Rightarrow> [] | Some l \<Rightarrow> take (unat count) l)"
  define body where "body = (case batch_validate unique target t [] ds of
      Inl status \<Rightarrow> (status, [], t, [])
    | Inr snapshots \<Rightarrow>
        (case batch_detach (zip ds snapshots) [] t of
           (None, t1) \<Rightarrow> (NA_STATUS_RESOURCE_EXHAUSTED, [], t1, [])
         | (Some nodes, t1) \<Rightarrow>
             (let refs = concat (map (\<lambda>(e, operation). snd (h_copy (ce_object e))) snapshots);
                  (records, es) = batch_records (rt_this t) (zip ds snapshots) nodes
              in (NA_STATUS_OK, records, t1, refs @ es))))"
  have body: "body = (NA_STATUS_OK, rs, t', es)"
    using assms unfolding take_native_batch_def ds_def [symmetric] Let_def [of ds] body_def [symmetric]
    by (simp split: if_split_asm)
  obtain snaps where v: "batch_validate unique target t [] ds = Inr snaps"
    using batch_validate_error [of unique target t "[]" ds] body
    by (cases "batch_validate unique target t [] ds") (auto simp: body_def)
  note ok = batch_validate_ok [OF v]
  let ?zs = "zip ds snaps"
  have len: "length ds = length snaps" using ok list_all2_lengthD by blast
  have dis: "distinct (map (\<lambda>z. ds_handle (fst z)) ?zs)" using ok len by (simp add: map_zip_fst)
  have each: "hm_get (ds_handle (fst z)) t \<noteq> None \<and> ce_object (fst (snd z)) \<noteq> None" if "z \<in> set ?zs" for z
  proof -
    have "disposition_ok unique target t (fst z) (snd z)"
      using ok that by (auto simp: list_all2_iff)
    then show ?thesis by (auto simp: disposition_ok_def snapshot_of_def)
  qed
  have det: "batch_detach ?zs [] t = (Some (map (taken_node t) ?zs), fold hm_remove (moved_handles ?zs) t)"
    using batch_detach_ok [OF dis, of t "[]"] each by simp
  have "rs = fst (batch_records (rt_this t) ?zs (map (taken_node t) ?zs))"
    "t' = fold hm_remove (moved_handles ?zs) t"
    "es = concat (map (\<lambda>(e, operation). snd (h_copy (ce_object e))) snaps) @
       snd (batch_records (rt_this t) ?zs (map (taken_node t) ?zs))"
    using body v det by (simp_all add: body_def case_prod_unfold Let_def)
  moreover note batch_records_eq [of "rt_this t" ?zs t]
  moreover have "net in_transit ob (snd (batch_records (rt_this t) ?zs (map (taken_node t) ?zs))) =
      batch_transit ob (map (taken_record (rt_this t) t) ?zs) \<and>
    net table_root ob (snd (batch_records (rt_this t) ?zs (map (taken_node t) ?zs))) =
      - batch_moved ob (map (taken_record (rt_this t) t) ?zs)" for ob
    using each by (intro batch_records_net) blast
  ultimately show thesis
    using ok by (intro that [of ds snaps]) (simp_all add: ds_def [symmetric] moved_taken refs_net)
qed

lemma taken_rec_ok:
  assumes "rt_wf n t" "list_all2 (disposition_ok unique target t) ds snaps"
  shows "list_all (rec_ok (rt_this t) (rt_next t)) (map (taken_record (rt_this t) t) (zip ds snaps))"
proof -
  have "rec_ok (rt_this t) (rt_next t) (taken_record (rt_this t) t (d, so))"
    if "disposition_ok unique target t d so" for d so
    using that rt_wf_entry [OF assms(1)]
    by (auto simp: disposition_ok_def rec_ok_def taken_record_def taken_node_def snapshot_of_def tk_make_def)
  with assms(2) show ?thesis by (auto simp: list_all_iff list_all2_iff)
qed

lemma batch_moved_table:
  assumes "list_all (rec_ok this nxt) rs"
    "\<And>r. r \<in> set rs \<Longrightarrow> rec_moved r \<Longrightarrow> \<exists>e. hm_get (rec_source r) t = Some e \<and> ce_object e = tr_object (rec_resource r)"
  shows "(\<Sum>h\<leftarrow>moved_sources rs. case hm_get h t of None \<Rightarrow> 0 | Some e \<Rightarrow> holds ob (ce_object e)) = batch_moved ob rs"
  using assms
proof (induction rs)
  case (Cons r rs)
  then have IH: "(\<Sum>h\<leftarrow>moved_sources rs. case hm_get h t of None \<Rightarrow> 0 | Some e \<Rightarrow> holds ob (ce_object e)) = batch_moved ob rs"
    by simp
  show ?case
  proof (cases "rec_moved r")
    case True
    with Cons.prems(2) [of r] obtain e where "hm_get (rec_source r) t = Some e" "ce_object e = tr_object (rec_resource r)"
      by auto
    with IH True show ?thesis by simp
  qed (simp add: IH)
qed simp

lemma take_native_batch_inv:
  assumes "rt_wf n t" "take_native_batch unique mem_ok dispositions count target t = (NA_STATUS_OK, rs, t', es)"
  shows "rt_wf (n + length (moved_sources rs)) t' \<and> t' = fold hm_remove (moved_sources rs) t \<and>
    list_all (rec_ok (rt_this t) (rt_next t)) rs \<and> distinct (moved_sources rs) \<and>
    (\<forall>r \<in> set rs. rec_moved r \<longrightarrow> (\<exists>e. hm_get (rec_source r) t = Some e \<and> ce_state e = st_active \<and>
       rec_token r = tk_make (rt_this t) (rec_source r, e))) \<and>
    roots ob t' = roots ob t + net table_root ob es \<and> net in_transit ob es = batch_transit ob rs"
proof -
  from take_native_batch_cases [OF assms(2)] obtain ds snaps where
    ok: "list_all2 (disposition_ok unique target t) ds snaps" "distinct (map ds_handle ds)"
    and rs: "rs = map (taken_record (rt_this t) t) (zip ds snaps)"
    and t': "t' = fold hm_remove (moved_sources rs) t"
    and net: "\<And>ob. net in_transit ob es = batch_transit ob rs" "\<And>ob. net table_root ob es = - batch_moved ob rs"
    by metis
  have recs: "list_all (rec_ok (rt_this t) (rt_next t)) rs"
    unfolding rs by (rule taken_rec_ok [OF assms(1) ok(1)])
  have src: "\<exists>e. hm_get (rec_source r) t = Some e \<and> ce_state e = st_active \<and>
       rec_token r = tk_make (rt_this t) (rec_source r, e) \<and> ce_object e = tr_object (rec_resource r)"
    if "r \<in> set rs" "rec_moved r" for r
  proof -
    from that(1) obtain d so where z: "(d, so) \<in> set (zip ds snaps)" "r = taken_record (rt_this t) t (d, so)"
      unfolding rs by auto
    then have "disposition_ok unique target t d so" using ok(1) by (auto simp: list_all2_iff)
    with that(2) z(2) show ?thesis
      by (auto simp: disposition_ok_def taken_record_def taken_node_def snapshot_of_def)
  qed
  have "distinct (map rec_source rs)"
    using ok list_all2_lengthD [OF ok(1)]
    by (simp add: rs taken_record_def comp_def map_zip_fst)
  then have dist: "distinct (moved_sources rs)"
    unfolding moved_sources_def by (induction rs) auto
  have in_t: "hm_get h t \<noteq> None" if "h \<in> set (moved_sources rs)" for h
    using that src by (force simp: moved_sources_def)
  have sum: "(\<Sum>h\<leftarrow>moved_sources rs. case hm_get h t of None \<Rightarrow> 0 | Some e \<Rightarrow> holds ob (ce_object e)) = batch_moved ob rs"
    using src by (intro batch_moved_table [OF recs]) blast
  show ?thesis
    using rt_wf_detach_fold [OF assms(1) dist in_t, of ob] recs dist net t' sum
    by (auto dest!: src)
qed

lemma take_native_batch_error:
  assumes "take_native_batch unique mem_ok dispositions count target t = (status, rs, t', es)"
    "status \<noteq> NA_STATUS_OK"
  shows "rs = [] \<and> t' = t \<and> es = []"
proof -
  define ds where "ds = (case dispositions of None \<Rightarrow> [] | Some l \<Rightarrow> take (unat count) l)"
  show ?thesis
  proof (cases "batch_validate unique target t [] ds")
    case (Inl e)
    with assms show ?thesis
      unfolding take_native_batch_def ds_def [symmetric] Let_def [of ds] by (simp split: if_split_asm)
  next
    case (Inr snaps)
    note ok = batch_validate_ok [OF Inr]
    then have ok': "list_all2 (disposition_ok unique target t) ds snaps" by simp
    have dis: "distinct (map (\<lambda>z. ds_handle (fst z)) (zip ds snaps))"
      using ok list_all2_lengthD [OF ok'] by (simp add: map_zip_fst)
    have "batch_detach (zip ds snaps) [] t = (Some (map (taken_node t) (zip ds snaps)),
        fold hm_remove (moved_handles (zip ds snaps)) t)"
      using batch_detach_ok [OF dis, of t "[]"] ok' by (fastforce simp: list_all2_iff disposition_ok_def)
    with Inr assms show ?thesis
      unfolding take_native_batch_def ds_def [symmetric] Let_def [of ds]
      by (simp add: case_prod_unfold Let_def split: if_split_asm)
  qed
qed

section \<open>Restoring a batch\<close>

definition restored_record :: "transfer_record \<Rightarrow> transfer_record" where
  "restored_record r =
     (if rec_moved r
      then r\<lparr>rec_resource := (rec_resource r)\<lparr>tr_object := None, tr_in_transit := False\<rparr>,
             rec_token := (rec_token r)\<lparr>tk_slot := None, tk_callback_object := tr_object (rec_resource r)\<rparr>\<rparr>
      else r)"

definition reattach :: "transfer_record \<Rightarrow> resource_table \<Rightarrow> resource_table" where
  "reattach r t = (case tk_slot (rec_token r) of Some (h, e) \<Rightarrow> hm_insert h e t | None \<Rightarrow> t)"

lemma rec_okE:
  assumes "rec_ok this nxt r" "rec_moved r"
  obtains e ob where "rec_token r = tk_make this (rec_source r, e)" "entry_ok nxt (rec_source r, e)"
    "ce_state e = st_active" "ce_object e = Some ob" "tr_object (rec_resource r) = Some ob"
  using assms by (auto simp: rec_ok_def)

lemma restore_attach_ok:
  assumes "rec_ok this nxt r" "rec_moved r \<Longrightarrow> hm_get (rec_source r) t = None"
  obtains es where "restore_attach r t = Some (restored_record r, reattach r t, es)"
    "\<And>l ob. net l ob es = 0"
proof (cases "rec_moved r")
  case True
  then obtain e ob where e: "rec_token r = tk_make this (rec_source r, e)" "ce_state e = st_active"
    "ce_object e = Some ob" "tr_object (rec_resource r) = Some ob"
    by (rule rec_okE [OF assms(1)])
  have same: "e\<lparr>ce_object := Some ob, ce_state := st_active\<rparr> = e" using e by simp
  show thesis
    using e True assms(2)
    by (intro that [of "[Ev_unref ob, Ev_ref ob]"])
      (auto simp: restore_attach_def hm_attach_def tr_take_object_without_callback_def h_assign_move_def
         h_drop_def h_copy_def restored_record_def reattach_def tk_make_def tk_disarm_def same hm_insert_def)
next
  case False
  with assms(1) show thesis
    by (intro that [of "[]"]) (auto simp: restore_attach_def restored_record_def reattach_def rec_ok_def tk_default_def)
qed

lemma reattach_get:
  assumes "rec_ok this nxt r"
  shows "hm_get h (reattach r t) =
    (if rec_moved r \<and> h = rec_source r then map_option snd (tk_slot (rec_token r)) else hm_get h t)"
  using assms by (cases "rec_moved r") (auto simp: reattach_def rec_ok_def tk_make_def tk_default_def)

lemma reattach_fields [simp]:
  "rt_this (reattach r t) = rt_this t" "rt_next (reattach r t) = rt_next t" "rt_count (reattach r t) = rt_count t"
  by (auto simp: reattach_def split: option.splits)

lemma restore_attach_all_ok:
  assumes "list_all (rec_ok this nxt) rs" "distinct (moved_sources rs)"
    "\<And>h. h \<in> set (moved_sources rs) \<Longrightarrow> hm_get h t = None"
  shows "\<exists>es. restore_attach_all rs t = (True, map restored_record rs, fold reattach rs t, es) \<and>
    (\<forall>l ob. net l ob es = 0)"
  using assms
proof (induction rs arbitrary: t)
  case (Cons r rs)
  then obtain es where es: "restore_attach r t = Some (restored_record r, reattach r t, es)"
      "\<And>l ob. net l ob es = 0"
    using restore_attach_ok [of this nxt r t thesis] by auto
  have "\<exists>es. restore_attach_all rs (reattach r t) = (True, map restored_record rs, fold reattach rs (reattach r t), es) \<and>
      (\<forall>l ob. net l ob es = 0)"
    using Cons.prems by (intro Cons.IH) (auto simp: reattach_get [of this nxt] split: if_splits)
  with es show ?case by auto
qed simp

lemma reattach_wf:
  assumes "rt_wf (Suc n) t" "rec_ok this (rt_next t) r" "rec_moved r" "hm_get (rec_source r) t = None"
  shows "rt_wf n (reattach r t) \<and> roots ob (reattach r t) = roots ob t + holds ob (tr_object (rec_resource r))"
  using assms rec_okE [OF assms(2,3)] rt_wf_attach [OF assms(1,4)]
  by (fastforce simp: reattach_def tk_make_def)

lemma fold_reattach_wf:
  assumes "list_all (rec_ok this (rt_next t)) rs" "distinct (moved_sources rs)"
    "\<And>h. h \<in> set (moved_sources rs) \<Longrightarrow> hm_get h t = None" "rt_wf (n + length (moved_sources rs)) t"
  shows "rt_wf n (fold reattach rs t) \<and> roots ob (fold reattach rs t) = roots ob t + batch_moved ob rs"
  using assms
proof (induction rs arbitrary: t)
  case (Cons r rs)
  show ?case
  proof (cases "rec_moved r")
    case True
    have w: "rt_wf (n + length (moved_sources rs)) (reattach r t) \<and>
        roots ob (reattach r t) = roots ob t + holds ob (tr_object (rec_resource r))"
      using Cons.prems True by (intro reattach_wf [where this = this]) auto
    then have "rt_wf n (fold reattach rs (reattach r t)) \<and>
        roots ob (fold reattach rs (reattach r t)) = roots ob (reattach r t) + batch_moved ob rs"
      using Cons.prems True by (intro Cons.IH) (auto simp: reattach_get [of this "rt_next t"])
    with w True show ?thesis by simp
  next
    case False
    then have "reattach r t = t" using Cons.prems(1) by (simp add: reattach_def rec_ok_def tk_default_def)
    with Cons False show ?thesis by simp
  qed
qed simp

lemma restored_callbacks_net:
  assumes "rec_ok this nxt r"
  shows "net table_root ob (snd (restore_callbacks (restored_record r))) =
      (if rec_moved r then holds ob (tr_object (rec_resource r)) else 0)"
    "net in_transit ob (snd (restore_callbacks (restored_record r))) = - tr_transit ob (rec_resource r)"
    "net l ob (rec_destroy (fst (restore_callbacks (restored_record r)))) = 0"
  using assms
  by (auto simp: rec_ok_def restore_callbacks_def restored_record_def tk_default_def tk_make_def rec_destroy_def
      tk_reset_def tr_destroy_def tr_transit_def case_prod_unfold Let_def tr_release_transit_def
      split: option.splits if_splits)

lemma restored_callbacks_net_all:
  assumes "list_all (rec_ok this nxt) rs"
  shows "net table_root ob (concat (map (snd \<circ> restore_callbacks) (map restored_record rs))) = batch_moved ob rs \<and>
    net in_transit ob (concat (map (snd \<circ> restore_callbacks) (map restored_record rs))) = - batch_transit ob rs \<and>
    net l ob (concat (map rec_destroy (map (fst \<circ> restore_callbacks) (map restored_record rs)))) = 0"
  using assms by (induction rs) (auto simp: restored_callbacks_net [of this nxt])

lemma restore_native_batch_ok:
  assumes "list_all (rec_ok (rt_this t) (rt_next t)) rs" "distinct (moved_sources rs)"
    "\<And>h. h \<in> set (moved_sources rs) \<Longrightarrow> hm_get h t = None"
  obtains es where
    "restore_native_batch rs t =
       (NA_STATUS_OK, map (fst \<circ> restore_callbacks) (map restored_record rs), fold reattach rs t, es)"
    "\<And>ob. net table_root ob es = batch_moved ob rs" "\<And>ob. net in_transit ob es = - batch_transit ob rs"
proof -
  have "\<not> restore_blocked t r" if "r \<in> set rs" for r
  proof (cases "rec_moved r")
    case True
    have "rec_ok (rt_this t) (rt_next t) r" using assms(1) that by (simp add: list_all_iff)
    then obtain e ob where "rec_token r = tk_make (rt_this t) (rec_source r, e)"
      "entry_ok (rt_next t) (rec_source r, e)" "tr_object (rec_resource r) = Some ob"
      using rec_okE True by metis
    moreover have "hm_get (rec_source r) t = None"
      using assms(3) that True by (simp add: moved_sources_def)
    ultimately show ?thesis
      by (simp add: restore_blocked_def tk_belongs_to_def tk_valid_def tk_make_def tr_valid_def entry_ok_def)
  qed (simp add: restore_blocked_def)
  then have nb: "\<not> list_ex (restore_blocked t) rs" by (auto simp: list_ex_iff)
  from restore_attach_all_ok [OF assms] obtain es where
    es: "restore_attach_all rs t = (True, map restored_record rs, fold reattach rs t, es)"
      "\<And>l ob. net l ob es = 0" by blast
  show thesis
    using es nb restored_callbacks_net_all [OF assms(1)]
    by (intro that [of "es @ concat (map (snd \<circ> restore_callbacks) (map restored_record rs))"])
      (simp_all add: restore_native_batch_def)
qed

section \<open>Committing a batch\<close>

text \<open>\<^verbatim>\<open>enqueue\<close> moves the resources into the message before it commits the batch.\<close>

definition move_out :: "transfer_record \<Rightarrow> transfer_record" where
  "move_out r = r\<lparr>rec_resource := snd (tr_move (rec_resource r))\<rparr>"

lemma tr_destroy_empty [simp]: "tr_destroy (r\<lparr>tr_object := None, tr_in_transit := False\<rparr>) = []"
  by (simp add: tr_destroy_def tr_release_transit_def h_drop_def)

lemma commit_native_batch_ok:
  assumes "list_all (rec_ok (rt_this t) nxt) rs"
  shows "\<exists>rs' es. commit_native_batch (map move_out rs) t =
      (rs', t\<lparr>rt_count := rt_count t - of_nat (length (moved_sources rs))\<rparr>, es) \<and>
    (\<forall>l ob. net l ob es = 0) \<and> (\<forall>l ob. net l ob (concat (map rec_destroy rs')) = 0)"
  using assms
proof (induction rs arbitrary: t)
  case (Cons r rs)
  let ?t1 = "if rec_moved r then t\<lparr>rt_count := rt_count t - 1\<rparr> else t"
  obtain r' es where one: "commit_one (move_out r) t = (r', ?t1, es)"
    "\<And>l ob. net l ob es = 0" "\<And>l ob. net l ob (rec_destroy r') = 0"
  proof (cases "rec_moved r")
    case True
    then obtain e ob where "rec_token r = tk_make (rt_this t) (rec_source r, e)"
      using rec_okE [of "rt_this t" nxt r] Cons.prems by auto
    with True show thesis
      by (intro that) (auto simp: commit_one_def move_out_def tk_belongs_to_def tk_valid_def tk_make_def tk_disarm_def
          node_destroy_def rec_destroy_def tk_reset_def tr_move_def tr_transit_def)
  next
    case False
    with Cons.prems show thesis
      by (intro that) (auto simp: commit_one_def move_out_def rec_ok_def tk_default_def rec_destroy_def tk_reset_def
          tr_move_def tr_transit_def)
  qed
  have this: "rt_this ?t1 = rt_this t" by simp
  from Cons.prems have "list_all (rec_ok (rt_this ?t1) nxt) rs" by simp
  from Cons.IH [OF this] obtain rs' es' where
    "commit_native_batch (map move_out rs) ?t1 = (rs', ?t1\<lparr>rt_count := rt_count ?t1 - of_nat (length (moved_sources rs))\<rparr>, es')"
    "\<forall>l ob. net l ob es' = 0" "\<forall>l ob. net l ob (concat (map rec_destroy rs')) = 0" by blast
  with one show ?case by (auto simp: algebra_simps)
qed simp

end
