(* ===== verification/Capability_System.thy ===== *)
theory Capability_System
  imports Resource_Batch
begin

text \<open>
  The capability table of a process together with what is in flight: the batches of
  capabilities that threads of the process have taken and neither committed nor restored,
  the replacements of restricted handles that are neither committed nor rolled back, and the
  resources that committed batches have put into messages. \<open>cap_step\<close> performs one
  operation of the table; the operations of different threads interleave in any order. The
  hooks are recorded, so that the theorems can count them.
\<close>

record cap_sys =
  sy_table :: resource_table
  sy_batches :: "transfer_record list list"
  sy_restricts :: "(na_handle \<times> na_handle \<times> cap_entry) list"
  sy_pool :: "transferred_resource list"
  sy_lost :: nat
  sy_hooks :: "cap_event list"

definition cap_init :: "nat \<Rightarrow> cap_sys" where
  "cap_init this = \<lparr>sy_table = rt_new this, sy_batches = [], sy_restricts = [], sy_pool = [],
      sy_lost = 0, sy_hooks = []\<rparr>"

text \<open>
  The operations. \<open>Op_commit i\<close> is the successful path of \<^verbatim>\<open>channel_state::enqueue\<close>: the
  resources of batch \<open>i\<close> move into the message, then the batch is committed. \<open>Op_restore i\<close>
  is its failing path. \<open>Op_abandon i\<close> is the early return of \<^verbatim>\<open>enqueue\<close>, which leaves the
  batch to its destructor; \<open>sy_lost\<close> counts the nodes discarded that way. \<open>Op_drop i\<close>
  destroys a resource with its message. \<open>Op_commit_restrict i\<close> and \<open>Op_rollback_restrict i\<close>
  end the restriction \<open>i\<close> in progress with the handles it began with, as its only caller does;
  a commit that fails is followed by the rollback.
\<close>

datatype cap_op =
    Op_install khandle metadata
  | Op_reserve bool u64
  | Op_rollback "na_handle list"
  | Op_activate na_handle nat
  | Op_close na_handle
  | Op_duplicate na_handle na_meta_rights
  | Op_restrict na_handle na_handle_restriction
  | Op_commit_restrict nat
  | Op_rollback_restrict nat
  | Op_fork u64 u64 bool resource_table
  | Op_take bool "na_resource_disposition list option" u64 na_handle
  | Op_commit nat
  | Op_restore nat
  | Op_abandon nat
  | Op_drop nat
  | Op_clear

definition remove_nth :: "nat \<Rightarrow> 'a list \<Rightarrow> 'a list" where
  "remove_nth i xs = take i xs @ drop (Suc i) xs"

definition with_table :: "cap_sys \<Rightarrow> resource_table \<Rightarrow> cap_event list \<Rightarrow> cap_sys" where
  "with_table s t es = s\<lparr>sy_table := t, sy_hooks := sy_hooks s @ es\<rparr>"

fun cap_step :: "(oid \<Rightarrow> bool) \<Rightarrow> cap_op \<Rightarrow> cap_sys \<Rightarrow> cap_sys" where
  "cap_step unique (Op_install object meta) s =
     (let (h, t, es) = install_native object meta (sy_table s) in with_table s t es)"
| "cap_step unique (Op_reserve mem_ok n) s =
     (let (status, hs, t) = reserve_native mem_ok n (sy_table s) in with_table s t [])"
| "cap_step unique (Op_rollback hs) s = with_table s (rollback_native hs (sy_table s)) []"
| "cap_step unique (Op_activate h i) s =
     (if i < length (sy_pool s)
      then let (status, r, t, es) = activate_native h (sy_pool s ! i) (sy_table s)
           in (with_table s t es)\<lparr>sy_pool := (sy_pool s)[i := r]\<rparr>
      else s)"
| "cap_step unique (Op_close h) s =
     (let (status, t, es) = close_native h (sy_table s) in with_table s t es)"
| "cap_step unique (Op_duplicate h rights) s =
     (let (status, k, t, es) = duplicate_native unique h rights (sy_table s) in with_table s t es)"
| "cap_step unique (Op_restrict h r) s =
     (let (status, k, backup, t, es) = restrict_native h r (sy_table s)
      in if status = NA_STATUS_OK then (with_table s t es)\<lparr>sy_restricts := (h, k, backup) # sy_restricts s\<rparr>
         else with_table s t es)"
| "cap_step unique (Op_commit_restrict i) s =
     (if i < length (sy_restricts s)
      then let (h, k, backup) = sy_restricts s ! i;
               (status, t, es) = commit_restrict h k (sy_table s);
               (status', t') = (if status = NA_STATUS_OK then (status, t) else rollback_restrict h k backup t)
           in (with_table s t' es)\<lparr>sy_restricts := remove_nth i (sy_restricts s)\<rparr>
      else s)"
| "cap_step unique (Op_rollback_restrict i) s =
     (if i < length (sy_restricts s)
      then let (h, k, backup) = sy_restricts s ! i;
               (status, t) = rollback_restrict h k backup (sy_table s)
           in (with_table s t [])\<lparr>sy_restricts := remove_nth i (sy_restricts s)\<rparr>
      else s)"
| "cap_step unique (Op_fork sm ss mem_ok source) s =
     (if map_ok source \<and> sy_restricts s = []
      then let (status, t, es) = clone_fork_bindings sm ss mem_ok source (sy_table s) in with_table s t es
      else s)"
| "cap_step unique (Op_take mem_ok ds n target) s =
     (let (status, rs, t, es) = take_native_batch unique mem_ok ds n target (sy_table s)
      in if status = NA_STATUS_OK then (with_table s t es)\<lparr>sy_batches := rs # sy_batches s\<rparr>
         else with_table s t es)"
| "cap_step unique (Op_commit i) s =
     (if i < length (sy_batches s)
      then let rs = sy_batches s ! i;
               (rs', t, es) = commit_native_batch (map move_out rs) (sy_table s)
           in (with_table s t (es @ concat (map rec_destroy rs')))
                \<lparr>sy_batches := remove_nth i (sy_batches s), sy_pool := sy_pool s @ map rec_resource rs\<rparr>
      else s)"
| "cap_step unique (Op_restore i) s =
     (if i < length (sy_batches s)
      then let (status, rs', t, es) = restore_native_batch (sy_batches s ! i) (sy_table s)
           in (with_table s t (es @ concat (map rec_destroy rs')))\<lparr>sy_batches := remove_nth i (sy_batches s)\<rparr>
      else s)"
| "cap_step unique (Op_abandon i) s =
     (if i < length (sy_batches s)
      then (with_table s (sy_table s) (concat (map rec_destroy (sy_batches s ! i))))
             \<lparr>sy_batches := remove_nth i (sy_batches s),
              sy_lost := sy_lost s + length (moved_sources (sy_batches s ! i))\<rparr>
      else s)"
| "cap_step unique (Op_drop i) s =
     (if i < length (sy_pool s)
      then (with_table s (sy_table s) (tr_destroy (sy_pool s ! i)))\<lparr>sy_pool := remove_nth i (sy_pool s)\<rparr>
      else s)"
| "cap_step unique Op_clear s =
     (if sy_batches s = []
      then let (t, es) = rt_clear (sy_table s) in (with_table s t es)\<lparr>sy_lost := 0\<rparr>
      else s)"

definition cap_run :: "(oid \<Rightarrow> bool) \<Rightarrow> cap_op list \<Rightarrow> cap_sys \<Rightarrow> cap_sys" where
  "cap_run unique ops s = fold (cap_step unique) ops s"

section \<open>The invariant\<close>

definition armed :: "cap_sys \<Rightarrow> na_handle list" where
  "armed s = concat (map moved_sources (sy_batches s))"

definition pool_transit :: "oid \<Rightarrow> transferred_resource list \<Rightarrow> int" where
  "pool_transit ob rs = (\<Sum>r\<leftarrow>rs. tr_transit ob r)"

definition in_flight :: "oid \<Rightarrow> cap_sys \<Rightarrow> int" where
  "in_flight ob s = (\<Sum>rs\<leftarrow>sy_batches s. batch_transit ob rs) + pool_transit ob (sy_pool s)"

definition flight_ok :: "cap_sys \<Rightarrow> bool" where
  "flight_ok s \<longleftrightarrow>
     list_all (list_all (rec_ok (rt_this (sy_table s)) (rt_next (sy_table s)))) (sy_batches s) \<and>
     distinct (armed s) \<and> (\<forall>h \<in> set (armed s). hm_get h (sy_table s) = None) \<and>
     list_all (\<lambda>r. tr_object r \<noteq> None \<longrightarrow> tr_in_transit r) (sy_pool s)"

definition hooks_ok :: "cap_sys \<Rightarrow> bool" where
  "hooks_ok s \<longleftrightarrow>
     (\<forall>ob. net table_root ob (sy_hooks s) = roots ob (sy_table s) \<and>
           net in_transit ob (sy_hooks s) = in_flight ob s)"

definition cap_ok :: "cap_sys \<Rightarrow> bool" where
  "cap_ok s \<longleftrightarrow> rt_wf (length (armed s) + sy_lost s) (sy_table s) \<and> flight_ok s \<and> hooks_ok s"

section \<open>Operations on the table alone\<close>

lemma with_table_simps [simp]:
  "sy_table (with_table s t es) = t" "sy_batches (with_table s t es) = sy_batches s"
  "sy_pool (with_table s t es) = sy_pool s" "sy_lost (with_table s t es) = sy_lost s"
  "sy_restricts (with_table s t es) = sy_restricts s" "sy_hooks (with_table s t es) = sy_hooks s @ es" "armed (with_table s t es) = armed s"
  "in_flight ob (with_table s t es) = in_flight ob s"
  by (simp_all add: with_table_def armed_def in_flight_def)

lemma armed_upd [simp]:
  "armed (s\<lparr>sy_pool := p\<rparr>) = armed s" "armed (s\<lparr>sy_lost := l\<rparr>) = armed s"
  "armed (s\<lparr>sy_restricts := rs\<rparr>) = armed s"
  by (simp_all add: armed_def)

lemma armed_entry_ok:
  assumes "flight_ok s" "h \<in> set (armed s)"
  shows "\<exists>e. entry_ok (rt_next (sy_table s)) (h, e)"
  using assms by (fastforce simp: flight_ok_def armed_def moved_sources_def list_all_iff rec_ok_def)

lemma rec_ok_mono:
  "tbl_ext t t' \<Longrightarrow> rec_ok (rt_this t) (rt_next t) r \<Longrightarrow> rec_ok (rt_this t') (rt_next t') r"
  by (auto simp: rec_ok_def tbl_ext_def split: if_splits)

lemma flight_ok_ext:
  assumes "flight_ok s" "tbl_ext (sy_table s) t"
  shows "flight_ok (with_table s t es)"
proof -
  have "hm_get h t = None" if "h \<in> set (armed s)" for h
    using assms armed_entry_ok [OF assms(1) that] that by (auto simp: tbl_ext_def flight_ok_def)
  with assms rec_ok_mono [OF assms(2)] show ?thesis by (auto simp: flight_ok_def list_all_iff)
qed

lemma cap_ok_pool:
  assumes "cap_ok s" "rt_wf (length (armed s) + sy_lost s) t" "tbl_ext (sy_table s) t"
    "\<And>ob. roots ob t = roots ob (sy_table s) + net table_root ob es"
    "\<And>ob. pool_transit ob p = pool_transit ob (sy_pool s) + net in_transit ob es"
    "list_all (\<lambda>r. tr_object r \<noteq> None \<longrightarrow> tr_in_transit r) p"
  shows "cap_ok ((with_table s t es)\<lparr>sy_pool := p\<rparr>)"
proof -
  have "flight_ok (with_table s t es)" using assms flight_ok_ext by (simp add: cap_ok_def)
  with assms show ?thesis
    by (auto simp: cap_ok_def flight_ok_def hooks_ok_def in_flight_def)
qed

lemma cap_ok_table:
  assumes "cap_ok s" "rt_wf (length (armed s) + sy_lost s) t" "tbl_ext (sy_table s) t"
    "\<And>ob. roots ob t = roots ob (sy_table s) + net table_root ob es \<and> net in_transit ob es = 0"
  shows "cap_ok (with_table s t es)"
proof -
  have "cap_ok ((with_table s t es)\<lparr>sy_pool := sy_pool s\<rparr>)"
    using assms by (intro cap_ok_pool) (auto simp: cap_ok_def flight_ok_def)
  then show ?thesis by (simp add: with_table_def)
qed

lemma cap_ok_wf: "cap_ok s \<Longrightarrow> rt_wf (length (armed s) + sy_lost s) (sy_table s)"
  by (simp add: cap_ok_def)

text \<open>One lemma serves every operation that only touches the table.\<close>

lemma cap_ok_op:
  assumes "cap_ok s"
    "\<And>n ob. rt_wf n (sy_table s) \<Longrightarrow>
       rt_wf n t \<and> roots ob t = roots ob (sy_table s) + net table_root ob es \<and> net in_transit ob es = 0"
    "tbl_ext (sy_table s) t"
  shows "cap_ok (with_table s t es)"
  using assms cap_ok_wf [OF assms(1)] by (intro cap_ok_table) blast+

lemma sum_list_update_int:
  "i < length xs \<Longrightarrow> sum_list (xs[i := v]) = sum_list xs - xs ! i + (v :: int)"
  by (induction xs arbitrary: i) (auto split: nat.split)

lemma cap_ok_activate:
  assumes "cap_ok s" "i < length (sy_pool s)"
    "activate_native h (sy_pool s ! i) (sy_table s) = (status, r, t, es)"
  shows "cap_ok ((with_table s t es)\<lparr>sy_pool := (sy_pool s)[i := r]\<rparr>)"
proof -
  let ?r = "sy_pool s ! i"
  have tr: "tr_object ?r \<noteq> None \<longrightarrow> tr_in_transit ?r" using assms(1,2) by (auto simp: cap_ok_def flight_ok_def list_all_length)
  have same: "r = ?r \<and> es = []" if "tr_object ?r = None"
    using that assms(3) by (auto simp: activate_native_def tr_valid_def)
  have r: "tr_object r \<noteq> None \<longrightarrow> tr_in_transit r"
    using assms(3) tr by (auto simp: activate_native_def tr_take_object_without_callback_def Let_def
        split: if_splits option.splits prod.splits)
  have net: "tr_transit ob r = tr_transit ob ?r + net in_transit ob es" for ob
    using activate_native_inv [OF cap_ok_wf [OF assms(1)] assms(3), of ob] tr same by auto
  have pool: "pool_transit ob ((sy_pool s)[i := r]) = pool_transit ob (sy_pool s) + net in_transit ob es" for ob
    using assms(2) net [of ob] by (simp add: pool_transit_def map_update sum_list_update_int)
  have "list_all (\<lambda>r. tr_object r \<noteq> None \<longrightarrow> tr_in_transit r) ((sy_pool s)[i := r])"
    using assms(1) r by (auto simp: cap_ok_def flight_ok_def list_all_iff dest!: set_update_subset_insert [THEN subsetD])
  then show ?thesis
    using activate_native_inv [OF cap_ok_wf [OF assms(1)] assms(3)] activate_native_ext [OF assms(3)] pool assms(1)
    by (intro cap_ok_pool) auto
qed

section \<open>Operations on batches\<close>

lemma remove_nth_split:
  assumes "i < length xs"
  obtains pre post where "xs = pre @ xs ! i # post" "remove_nth i xs = pre @ post"
  using that [of "take i xs" "drop (Suc i) xs"] assms by (simp add: remove_nth_def id_take_nth_drop [symmetric])

lemma cap_ok_take:
  assumes "cap_ok s" "take_native_batch unique mem_ok ds n target (sy_table s) = (NA_STATUS_OK, rs, t, es)"
  shows "cap_ok ((with_table s t es)\<lparr>sy_batches := rs # sy_batches s\<rparr>)"
proof -
  let ?t = "sy_table s" and ?s = "(with_table s t es)\<lparr>sy_batches := rs # sy_batches s\<rparr>"
  note inv = take_native_batch_inv [OF cap_ok_wf [OF assms(1)] assms(2)]
  have t: "t = fold hm_remove (moved_sources rs) ?t" using inv by blast
  have ext: "tbl_ext ?t t" unfolding t by (rule fold_hm_remove_ext)
  have old: "flight_ok (with_table s t es)" using assms(1) ext flight_ok_ext by (simp add: cap_ok_def)
  have new: "list_all (rec_ok (rt_this t) (rt_next t)) rs"
    using inv rec_ok_mono [OF ext] by (auto simp: list_all_iff)
  have armed: "armed ?s = moved_sources rs @ armed s" by (simp add: armed_def)
  have "\<forall>r \<in> set rs. rec_moved r \<longrightarrow> hm_get (rec_source r) ?t \<noteq> None" using inv by blast
  then have src: "hm_get h ?t \<noteq> None" if "h \<in> set (moved_sources rs)" for h
    using that by (auto simp: moved_sources_def)
  have gone: "hm_get h t = None" if "h \<in> set (moved_sources rs)" for h
    using that by (simp add: t hm_remove_fold)
  have "distinct (moved_sources rs)" using inv by blast
  then have "distinct (armed ?s)"
    unfolding armed using src assms(1) by (fastforce simp: cap_ok_def flight_ok_def)
  then have fl: "flight_ok ?s" using old new gone by (auto simp: flight_ok_def armed)
  have "in_flight ob ?s = batch_transit ob rs + in_flight ob s" for ob by (simp add: in_flight_def)
  moreover have "roots ob t = roots ob ?t + net table_root ob es" "net in_transit ob es = batch_transit ob rs" for ob
    using inv by blast+
  ultimately have "hooks_ok ?s" using assms(1) by (simp add: hooks_ok_def cap_ok_def)
  moreover have "rt_wf (length (armed s) + sy_lost s + length (moved_sources rs)) t" using inv by blast
  ultimately show ?thesis using fl by (simp add: cap_ok_def armed add_ac)
qed

lemma cap_ok_finish:
  assumes "cap_ok s" "sy_batches s = pre @ rs # post"
    "rt_this t = rt_this (sy_table s)" "rt_next t = rt_next (sy_table s)"
    "rt_wf (length (concat (map moved_sources (pre @ post))) + l) t"
    "\<And>h. h \<in> set (concat (map moved_sources (pre @ post))) \<Longrightarrow> hm_get h t = None"
    "\<And>ob. roots ob t = roots ob (sy_table s) + net table_root ob es"
    "\<And>ob. pool_transit ob p = pool_transit ob (sy_pool s) + batch_transit ob rs + net in_transit ob es"
    "list_all (\<lambda>r. tr_object r \<noteq> None \<longrightarrow> tr_in_transit r) p"
  shows "cap_ok ((with_table s t es)\<lparr>sy_batches := pre @ post, sy_pool := p, sy_lost := l\<rparr>)"
proof -
  let ?s = "(with_table s t es)\<lparr>sy_batches := pre @ post, sy_pool := p, sy_lost := l\<rparr>"
  have armed: "armed ((with_table s t es)\<lparr>sy_batches := pre @ post\<rparr>) = concat (map moved_sources (pre @ post))"
    by (simp add: armed_def)
  have "distinct (concat (map moved_sources (pre @ post)))"
    using assms(1,2) by (auto simp: cap_ok_def flight_ok_def armed_def)
  with assms have "flight_ok ?s" by (auto simp: flight_ok_def armed cap_ok_def)
  moreover have "in_flight ob ?s = in_flight ob s + net in_transit ob es" for ob
    using assms(2,8) by (simp add: in_flight_def)
  ultimately show ?thesis using assms by (auto simp: cap_ok_def hooks_ok_def armed)
qed

lemma batch_in_flight:
  assumes "cap_ok s" "sy_batches s = pre @ rs # post"
  shows "list_all (rec_ok (rt_this (sy_table s)) (rt_next (sy_table s))) rs" "distinct (moved_sources rs)"
    "\<And>h. h \<in> set (moved_sources rs) \<Longrightarrow> hm_get h (sy_table s) = None"
    "rt_wf (length (concat (map moved_sources (pre @ post))) + sy_lost s + length (moved_sources rs)) (sy_table s)"
    "set (moved_sources rs) \<inter> set (concat (map moved_sources (pre @ post))) = {}"
    "\<And>h. h \<in> set (concat (map moved_sources (pre @ post))) \<Longrightarrow> hm_get h (sy_table s) = None"
  using assms by (auto simp: cap_ok_def flight_ok_def armed_def add_ac)

lemma cap_ok_commit:
  assumes "cap_ok s" "sy_batches s = pre @ rs # post"
    "commit_native_batch (map move_out rs) (sy_table s) = (rs', t, es)"
  shows "cap_ok ((with_table s t (es @ concat (map rec_destroy rs')))
      \<lparr>sy_batches := pre @ post, sy_pool := sy_pool s @ map rec_resource rs, sy_lost := sy_lost s\<rparr>)"
proof -
  note b = batch_in_flight [OF assms(1,2)]
  from commit_native_batch_ok [OF b(1)] assms(3)
  have t: "t = (sy_table s)\<lparr>rt_count := rt_count (sy_table s) - of_nat (length (moved_sources rs))\<rparr>"
    and net: "\<And>l ob. net l ob es = 0" "\<And>l ob. net l ob (concat (map rec_destroy rs')) = 0" by auto
  have wf: "rt_wf (length (concat (map moved_sources (pre @ post))) + sy_lost s) t"
    unfolding t using b(4) by (intro rt_wf_uncount_many) (simp add: add_ac)
  have pool: "pool_transit ob (sy_pool s @ map rec_resource rs) = pool_transit ob (sy_pool s) + batch_transit ob rs" for ob
    by (simp add: pool_transit_def batch_transit_def comp_def)
  show ?thesis
    using wf pool net b assms(1,2)
    by (intro cap_ok_finish [where rs = rs])
      (auto simp: t hm_get_count cap_ok_def flight_ok_def list_all_iff rec_ok_def)
qed

lemma fold_reattach_get:
  "list_all (rec_ok this nxt) rs \<Longrightarrow> h \<notin> set (moved_sources rs) \<Longrightarrow> hm_get h (fold reattach rs t) = hm_get h t"
  by (induction rs arbitrary: t) (auto simp: reattach_get split: if_splits)

lemma fold_reattach_fields [simp]:
  "rt_this (fold reattach rs t) = rt_this t" "rt_next (fold reattach rs t) = rt_next t"
  "rt_count (fold reattach rs t) = rt_count t"
  by (induction rs arbitrary: t) auto

lemma cap_ok_restore:
  assumes "cap_ok s" "sy_batches s = pre @ rs # post"
    "restore_native_batch rs (sy_table s) = (status, rs', t, es)"
  shows "status = NA_STATUS_OK \<and> cap_ok ((with_table s t (es @ concat (map rec_destroy rs')))
      \<lparr>sy_batches := pre @ post, sy_pool := sy_pool s, sy_lost := sy_lost s\<rparr>)"
proof -
  note b = batch_in_flight [OF assms(1,2)]
  obtain es' where r: "restore_native_batch rs (sy_table s) =
       (NA_STATUS_OK, map (fst \<circ> restore_callbacks) (map restored_record rs), fold reattach rs (sy_table s), es')"
    and net: "\<And>ob. net table_root ob es' = batch_moved ob rs" "\<And>ob. net in_transit ob es' = - batch_transit ob rs"
    by (rule restore_native_batch_ok [OF b(1,2,3)]) blast+
  have t: "t = fold reattach rs (sy_table s)" and es: "es = es'"
    and rs': "rs' = map (fst \<circ> restore_callbacks) (map restored_record rs)" and st: "status = NA_STATUS_OK"
    using assms(3) r by simp_all
  have d: "net l ob (concat (map rec_destroy rs')) = 0" for l ob
    using restored_callbacks_net_all [OF b(1), of ob l] unfolding rs' by simp
  have wf: "rt_wf (length (concat (map moved_sources (pre @ post))) + sy_lost s) t \<and>
      roots ob t = roots ob (sy_table s) + batch_moved ob rs" for ob
    unfolding t using b by (intro fold_reattach_wf) auto
  have gone: "hm_get h t = None" if "h \<in> set (concat (map moved_sources (pre @ post)))" for h
    using that b(5,6) fold_reattach_get [OF b(1)] unfolding t by (metis disjoint_iff)
  show ?thesis
    using st wf gone net d assms(1,2) t es
    by (intro conjI cap_ok_finish [where rs = rs]) (auto simp: cap_ok_def flight_ok_def)
qed

lemma rec_destroy_net:
  assumes "list_all (rec_ok this nxt) rs"
  shows "net table_root ob (concat (map rec_destroy rs)) = 0 \<and>
    net in_transit ob (concat (map rec_destroy rs)) = - batch_transit ob rs"
  using assms
  by (induction rs) (auto simp: rec_destroy_def tk_reset_def node_destroy_def split: option.split)

lemma cap_ok_abandon:
  assumes "cap_ok s" "sy_batches s = pre @ rs # post"
  shows "cap_ok ((with_table s (sy_table s) (concat (map rec_destroy rs)))
      \<lparr>sy_batches := pre @ post, sy_pool := sy_pool s, sy_lost := sy_lost s + length (moved_sources rs)\<rparr>)"
  using assms batch_in_flight [OF assms] rec_destroy_net
  by (intro cap_ok_finish [where rs = rs]) (auto simp: cap_ok_def flight_ok_def add_ac)

lemma cap_ok_drop:
  assumes "cap_ok s" "i < length (sy_pool s)"
  shows "cap_ok ((with_table s (sy_table s) (tr_destroy (sy_pool s ! i)))\<lparr>sy_pool := remove_nth i (sy_pool s)\<rparr>)"
proof -
  from assms(2) obtain pre post where split: "sy_pool s = pre @ sy_pool s ! i # post"
    and rm: "remove_nth i (sy_pool s) = pre @ post" by (rule remove_nth_split)
  have "pool_transit ob (sy_pool s) = pool_transit ob (pre @ post) + tr_transit ob (sy_pool s ! i)" for ob
    by (subst split) (simp add: pool_transit_def)
  moreover have "list_all (\<lambda>r. tr_object r \<noteq> None \<longrightarrow> tr_in_transit r) (pre @ sy_pool s ! i # post)"
    using assms(1) split by (simp add: cap_ok_def flight_ok_def)
  ultimately show ?thesis
    unfolding rm using assms(1) cap_ok_wf [OF assms(1)] by (intro cap_ok_pool) auto
qed

lemma cap_ok_clear:
  assumes "cap_ok s" "sy_batches s = []" "rt_clear (sy_table s) = (t, es)"
  shows "cap_ok ((with_table s t es)\<lparr>sy_lost := 0\<rparr>)"
proof -
  have t: "rt_map t = []" "rt_count t = 0"
    and es: "es = map (\<lambda>ob. Ev_release ob table_root) (List.map_filter (\<lambda>(k, e). ce_object e) (rt_map (sy_table s))) @
      map Ev_unref (List.map_filter (\<lambda>(k, e). ce_object e) (rt_map (sy_table s)))"
    using assms(3) by (auto simp: rt_clear_def clear_native_locked_def)
  have "roots ob t = roots ob (sy_table s) + net table_root ob es \<and> net in_transit ob es = 0" for ob
    using t es tbl_refs_map_filter [of ob "rt_map (sy_table s)"] by (simp add: roots_def net_release_list)
  moreover have "armed s = []" using assms(2) by (simp add: armed_def)
  ultimately show ?thesis
    using assms(1,2) t by (simp add: cap_ok_def flight_ok_def hooks_ok_def rt_wf_def in_flight_def)
qed

lemma cap_ok_fork:
  assumes "cap_ok s" "map_ok source" "clone_fork_bindings sm ss mem_ok source (sy_table s) = (status, t, es)"
  shows "cap_ok (with_table s t es)"
proof (cases "status = NA_STATUS_OK")
  case False
  with clone_fork_bindings_error [OF assms(3)] assms(1) show ?thesis
    by (intro cap_ok_op) auto
next
  case True
  note inv = clone_fork_bindings_inv [OF cap_ok_wf [OF assms(1)] assms(2) assms(3) [unfolded True]]
  then have empty: "armed s = []" "sy_lost s = 0" by auto
  then have "\<forall>rs \<in> set (sy_batches s). \<forall>r \<in> set rs. \<not> rec_moved r"
    by (auto simp: armed_def moved_sources_def filter_empty_conv)
  moreover have "list_all (list_all (rec_ok (rt_this (sy_table s)) (rt_next (sy_table s)))) (sy_batches s)"
    using assms(1) by (simp add: cap_ok_def flight_ok_def)
  ultimately have "list_all (list_all (rec_ok (rt_this t) (rt_next t))) (sy_batches s)"
    by (auto simp: list_all_iff rec_ok_def)
  then show ?thesis
    using inv assms(1) empty by (auto simp: cap_ok_def flight_ok_def hooks_ok_def)
qed

lemma cap_init_ok: "cap_ok (cap_init this)"
  using rt_wf_new [of this]
  by (simp add: cap_ok_def cap_init_def armed_def flight_ok_def hooks_ok_def in_flight_def pool_transit_def
      roots_def rt_new_def)

lemma batch_upd_same [simp]:
  "(with_table s t es)\<lparr>sy_batches := b, sy_pool := sy_pool s, sy_lost := sy_lost s\<rparr> = (with_table s t es)\<lparr>sy_batches := b\<rparr>"
  "(with_table s t es)\<lparr>sy_batches := b, sy_pool := p, sy_lost := sy_lost s\<rparr> = (with_table s t es)\<lparr>sy_batches := b, sy_pool := p\<rparr>"
  "(with_table s t es)\<lparr>sy_batches := b, sy_pool := sy_pool s, sy_lost := l\<rparr> = (with_table s t es)\<lparr>sy_batches := b, sy_lost := l\<rparr>"
  by (simp_all add: with_table_def)

lemma cap_step_batch:
  assumes "cap_ok s"
  shows "cap_ok (cap_step unique (Op_commit i) s)" "cap_ok (cap_step unique (Op_restore i) s)"
    "cap_ok (cap_step unique (Op_abandon i) s)"
proof -
  have "cap_ok (cap_step unique (Op_commit i) s) \<and> cap_ok (cap_step unique (Op_restore i) s) \<and>
      cap_ok (cap_step unique (Op_abandon i) s)" if "i < length (sy_batches s)"
  proof -
    from that obtain pre post where split: "sy_batches s = pre @ sy_batches s ! i # post"
      and rm: "remove_nth i (sy_batches s) = pre @ post" by (rule remove_nth_split)
    show ?thesis
      using cap_ok_commit [OF assms split] cap_ok_restore [OF assms split] cap_ok_abandon [OF assms split] that rm
      by (simp add: Let_def split: prod.split)
  qed
  then show "cap_ok (cap_step unique (Op_commit i) s)" "cap_ok (cap_step unique (Op_restore i) s)"
      "cap_ok (cap_step unique (Op_abandon i) s)"
    using assms by auto
qed

lemma cap_ok_restricts [simp]: "cap_ok (s\<lparr>sy_restricts := rs\<rparr>) = cap_ok s"
  by (simp add: cap_ok_def flight_ok_def hooks_ok_def in_flight_def)

lemmas table_op_ext =
  install_native_ext reserve_native_ext rollback_native_ext close_native_ext duplicate_native_ext
  restrict_native_ext commit_restrict_ext rollback_restrict_ext

lemma cap_ok_commit_restrict:
  assumes "cap_ok s" "commit_restrict h k (sy_table s) = (status, t, es)"
    "(if status = NA_STATUS_OK then (status, t) else rollback_restrict h k backup t) = (status', t')"
  shows "cap_ok (with_table s t' es)"
proof -
  have c: "cap_ok (with_table s t es)"
    using assms(1,2) commit_restrict_inv by (intro cap_ok_op) (auto intro: table_op_ext)
  have "cap_ok (with_table (with_table s t es) t' [])"
    using assms(3) rollback_restrict_inv by (intro cap_ok_op [OF c]) (auto intro: table_op_ext split: if_splits)
  then show ?thesis by (simp add: with_table_def)
qed

lemma cap_step_ok: "cap_ok s \<Longrightarrow> cap_ok (cap_step unique op s)"
proof (cases op)
  case (Op_take mem_ok ds n target)
  assume "cap_ok s"
  then show ?thesis
    using cap_ok_take [of s unique mem_ok ds n target] take_native_batch_error [of unique mem_ok ds n target "sy_table s"]
    by (auto simp: Op_take intro: cap_ok_op split: prod.split)
next
  case (Op_fork sm ss mem_ok source)
  assume "cap_ok s"
  then show ?thesis
    using cap_ok_fork unfolding Op_fork by (auto split: prod.split)
next
  case (Op_commit_restrict i)
  assume "cap_ok s"
  then show ?thesis
    using cap_ok_commit_restrict unfolding Op_commit_restrict by (auto simp: Let_def split: prod.splits)
qed (auto simp: cap_step_batch cap_ok_drop cap_ok_clear cap_ok_fork cap_ok_activate rollback_native_inv
    split: prod.split intro!: cap_ok_op dest: install_native_inv reserve_native_inv close_native_inv
      duplicate_native_inv restrict_native_inv rollback_restrict_inv intro: table_op_ext
    simp del: cap_step.simps(12-14))

lemma cap_run_ok: "cap_ok s \<Longrightarrow> cap_ok (cap_run unique ops s)"
  unfolding cap_run_def by (induction ops arbitrary: s) (auto intro: cap_step_ok)

end
