(* ===== verification/Capability_Authority.thy ===== *)
theory Capability_Authority
  imports Capability_System
begin

text \<open>
  Authority never grows. Every capability of the table, of a batch or of a message goes back
  to a capability for the same object that the kernel installed (or that the table was forked
  with), and it has at most the rights of that one: \<open>meta_le\<close> orders the metadata.
\<close>

definition rights_sub :: "u64 \<Rightarrow> u64 \<Rightarrow> bool" where
  "rights_sub a b \<longleftrightarrow> a AND NOT b = 0"

definition meta_le :: "metadata \<Rightarrow> metadata \<Rightarrow> bool" where
  "meta_le m m' \<longleftrightarrow>
     rights_sub (md_meta_rights m) (md_meta_rights m') \<and> rights_sub (md_protocol_rights m) (md_protocol_rights m') \<and>
     rights_sub (md_features m) (md_features m') \<and> md_revision m \<le> md_revision m' \<and> md_scope m = md_scope m' \<and>
     md_binding m = md_binding m' \<and> md_protocol_uuid m = md_protocol_uuid m'"

lemma rights_sub_iff: "rights_sub a b \<longleftrightarrow> (\<forall>n < 64. bit a n \<longrightarrow> bit b n)"
  by (auto simp: rights_sub_def bit_eq_iff bit_simps)

lemma rights_sub_refl [simp]: "rights_sub a a"
  by (simp add: rights_sub_iff)

lemma rights_sub_trans: "rights_sub a b \<Longrightarrow> rights_sub b c \<Longrightarrow> rights_sub a c"
  by (auto simp: rights_sub_iff)

lemma meta_le_refl [simp]: "meta_le m m"
  by (simp add: meta_le_def)

lemma meta_le_trans: "meta_le m1 m2 \<Longrightarrow> meta_le m2 m3 \<Longrightarrow> meta_le m1 m3"
  unfolding meta_le_def using rights_sub_trans order_trans by metis

text \<open>The capabilities an operation brings in from outside.\<close>

fun op_origins :: "cap_op \<Rightarrow> (oid \<times> metadata) list" where
  "op_origins (Op_install (Some ob) meta) = [(ob, meta)]"
| "op_origins (Op_fork sm ss mem_ok source) =
     List.map_filter (\<lambda>(k, e). map_option (\<lambda>ob. (ob, ce_meta e)) (ce_object e)) (rt_map source)"
| "op_origins _ = []"

definition auth :: "(oid \<times> metadata) set \<Rightarrow> khandle \<Rightarrow> metadata \<Rightarrow> bool" where
  "auth org object meta \<longleftrightarrow>
     (case object of None \<Rightarrow> True | Some ob \<Rightarrow> \<exists>m. (ob, m) \<in> org \<and> meta_le meta m)"

lemma auth_None [simp]: "auth org None meta"
  by (simp add: auth_def)

lemma auth_le: "auth org object m \<Longrightarrow> meta_le m' m \<Longrightarrow> auth org object m'"
  by (auto simp: auth_def split: option.splits intro: meta_le_trans)

definition table_auth :: "(oid \<times> metadata) set \<Rightarrow> resource_table \<Rightarrow> bool" where
  "table_auth org t \<longleftrightarrow> (\<forall>h e. hm_get h t = Some e \<longrightarrow> auth org (ce_object e) (ce_meta e))"

definition rec_auth :: "(oid \<times> metadata) set \<Rightarrow> transfer_record \<Rightarrow> bool" where
  "rec_auth org r \<longleftrightarrow>
     auth org (tr_object (rec_resource r)) (tr_meta (rec_resource r)) \<and>
     (case tk_slot (rec_token r) of None \<Rightarrow> True | Some (h, e) \<Rightarrow> auth org (ce_object e) (ce_meta e))"

text \<open>
  A restriction in progress: the source is in the restricting state or gone, no two have the
  same source, and while the replacement is reserved its metadata is at most the source's.
\<close>

definition pend_one :: "resource_table \<Rightarrow> na_handle \<Rightarrow> na_handle \<Rightarrow> bool" where
  "pend_one t h k \<longleftrightarrow>
     (\<exists>x. entry_ok (rt_next t) (h, x)) \<and> (\<exists>x. entry_ok (rt_next t) (k, x)) \<and>
     (\<forall>e. hm_get h t = Some e \<longrightarrow> ce_state e = st_restricting) \<and>
     (\<forall>e d. hm_get h t = Some e \<longrightarrow> hm_get k t = Some d \<longrightarrow> ce_state d = st_reserved \<longrightarrow>
        meta_le (ce_meta d) (ce_meta e))"

definition pend_ok :: "(na_handle \<times> na_handle \<times> cap_entry) list \<Rightarrow> resource_table \<Rightarrow> bool" where
  "pend_ok ps t \<longleftrightarrow> distinct (map fst ps) \<and> (\<forall>p \<in> set ps. pend_one t (fst p) (fst (snd p)))"

definition sys_auth :: "(oid \<times> metadata) set \<Rightarrow> cap_sys \<Rightarrow> bool" where
  "sys_auth org s \<longleftrightarrow>
     table_auth org (sy_table s) \<and> list_all (list_all (rec_auth org)) (sy_batches s) \<and>
     list_all (\<lambda>r. auth org (tr_object r) (tr_meta r)) (sy_pool s) \<and> pend_ok (sy_restricts s) (sy_table s) \<and>
     set (map fst (sy_restricts s)) \<inter> set (armed s) = {}"

section \<open>Operations on the table\<close>

lemma table_auth_insert: "table_auth org t \<Longrightarrow> auth org (ce_object e) (ce_meta e) \<Longrightarrow> table_auth org (hm_insert h e t)"
  by (auto simp: table_auth_def)

lemma table_auth_remove: "table_auth org t \<Longrightarrow> table_auth org (hm_remove h t)"
  by (auto simp: table_auth_def)

lemma table_auth_fields [simp]:
  "table_auth org (t\<lparr>rt_count := c\<rparr>) = table_auth org t" "table_auth org (t\<lparr>rt_next := c\<rparr>) = table_auth org t"
  by (simp_all add: table_auth_def)

lemma table_authD: "table_auth org t \<Longrightarrow> hm_get h t = Some e \<Longrightarrow> auth org (ce_object e) (ce_meta e)"
  by (simp add: table_auth_def)

lemma allocate_auth: "allocate_native_handle_locked t = (h, t') \<Longrightarrow> table_auth org t' = table_auth org t"
  by (auto simp: allocate_native_handle_locked_def split: if_splits)

lemma install_native_auth:
  assumes "table_auth org t" "install_native object meta t = (h, t', es)" "auth org object meta"
  shows "table_auth org t'"
  using assms by (auto simp: install_native_def Let_def allocate_auth intro!: table_auth_insert
      split: option.splits if_splits prod.splits)

lemma fold_hm_remove_auth: "table_auth org t \<Longrightarrow> table_auth org (fold hm_remove hs t)"
  by (induction hs arbitrary: t) (auto intro: table_auth_remove)

lemma reserve_loop_auth: "table_auth org t \<Longrightarrow> reserve_loop n hs t = (status, hs', t') \<Longrightarrow> table_auth org t'"
proof (induction n arbitrary: hs t)
  case (Suc n)
  obtain h t1 where al: "allocate_native_handle_locked t = (h, t1)" by fastforce
  have t1: "table_auth org t1" using Suc.prems(1) al by (simp add: allocate_auth)
  let ?t2 = "hm_insert h (cap_entry_default\<lparr>ce_generation := h, ce_state := st_reserved\<rparr>) t1"
  have t2: "table_auth org ?t2" using t1 by (intro table_auth_insert) (simp_all add: cap_entry_default_def)
  show ?case
    using Suc.prems(2) al t1 t2 Suc.IH [of "?t2\<lparr>rt_count := rt_count ?t2 + 1\<rparr>" "hs @ [h]"]
    by (auto simp: Let_def fold_hm_remove_auth split: if_splits)
qed simp

lemma rollback_native_auth: "table_auth org t \<Longrightarrow> table_auth org (rollback_native hs t)"
proof -
  have "table_auth org t \<Longrightarrow> table_auth org (rollback_one h t)" for h t
    by (auto simp: rollback_one_def Let_def table_auth_remove split: option.split)
  then show "table_auth org t \<Longrightarrow> table_auth org (rollback_native hs t)"
    unfolding rollback_native_def by (induction hs arbitrary: t) auto
qed

lemma duplicate_native_auth:
  assumes "table_auth org t" "duplicate_native unique h rights t = (status, k, t', es)"
  shows "table_auth org t'"
proof (cases "status = NA_STATUS_OK")
  case False
  with assms show ?thesis
    by (auto simp: duplicate_native_def Let_def split: option.splits if_splits prod.splits)
next
  case True
  let ?m = "\<lambda>e. (ce_meta e)\<lparr>md_meta_rights := if rights = 0 then md_meta_rights (ce_meta e) else rights\<rparr>"
  from True assms(2) obtain e t1 where e: "hm_get h t = Some e"
    and al: "allocate_native_handle_locked t = (k, t1)"
    and sub: "rights_sub (if rights = 0 then md_meta_rights (ce_meta e) else rights) (md_meta_rights (ce_meta e))"
    and t': "t' = (hm_insert k (e\<lparr>ce_meta := ?m e, ce_generation := k\<rparr>) t1)\<lparr>rt_count := rt_count t1 + 1\<rparr>"
    by (auto simp: duplicate_native_def rights_sub_def Let_def split: option.splits if_splits prod.splits)
  have "auth org (ce_object e) (?m e)"
    using table_authD [OF assms(1) e] sub by (elim auth_le) (simp add: meta_le_def)
  then show ?thesis using assms(1) al unfolding t' by (auto simp: allocate_auth intro!: table_auth_insert)
qed

section \<open>Restrictions in progress\<close>

definition pend_frame :: "na_handle set \<Rightarrow> resource_table \<Rightarrow> resource_table \<Rightarrow> bool" where
  "pend_frame H t t' \<longleftrightarrow>
     tbl_ext t t' \<and>
     (\<forall>x e e'. hm_get x t = Some e \<longrightarrow> hm_get x t' = Some e' \<longrightarrow>
        e' = e \<or> (ce_state e' = st_active \<and> (ce_state e = st_restricting \<longrightarrow> x \<in> H)))"

lemma pend_frameD:
  assumes "pend_frame H t t'" "entry_ok (rt_next t) (x, y)" "hm_get x t' = Some d"
  obtains d0 where "hm_get x t = Some d0" "d = d0 \<or> (ce_state d = st_active \<and> (ce_state d0 = st_restricting \<longrightarrow> x \<in> H))"
proof (cases "hm_get x t")
  case None
  with assms have "hm_get x t' = None" by (auto simp: pend_frame_def tbl_ext_def)
  with assms(3) show thesis by simp
next
  case (Some d0)
  with assms show thesis by (intro that [of d0]) (auto simp: pend_frame_def)
qed

lemma pend_one_frame:
  assumes "pend_one t h k" "pend_frame H t t'" "h \<notin> H"
  shows "pend_one t' h k"
proof -
  from assms(1) obtain x y where ok: "entry_ok (rt_next t) (h, x)" "entry_ok (rt_next t) (k, y)"
    by (auto simp: pend_one_def)
  then have ok': "entry_ok (rt_next t') (h, x)" "entry_ok (rt_next t') (k, y)"
    using assms(2) by (auto simp: pend_frame_def tbl_ext_def)
  have h: "hm_get h t = Some e" if e: "hm_get h t' = Some e" for e
  proof -
    obtain d0 where d: "hm_get h t = Some d0" "e = d0 \<or> (ce_state e = st_active \<and> (ce_state d0 = st_restricting \<longrightarrow> h \<in> H))"
      using pend_frameD [OF assms(2) ok(1) e] by blast
    moreover have "ce_state d0 = st_restricting" using assms(1) d(1) by (simp add: pend_one_def)
    ultimately show ?thesis using assms(3) by auto
  qed
  have k: "hm_get k t = Some d" if d: "hm_get k t' = Some d" "ce_state d = st_reserved" for d
    by (rule pend_frameD [OF assms(2) ok(2) d(1)]) (use d(2) in auto)
  show ?thesis using assms(1) ok' h k unfolding pend_one_def by metis
qed

lemma pend_ok_frame:
  assumes "pend_ok ps t" "pend_frame H t t'" "\<forall>p \<in> set ps. fst p \<notin> H"
  shows "pend_ok ps t'"
  using assms pend_one_frame [OF _ assms(2)] by (simp add: pend_ok_def)

lemma pend_frame_refl [simp]: "pend_frame H t t"
  by (simp add: pend_frame_def)

lemma pend_frame_count [simp]: "pend_frame H t (t'\<lparr>rt_count := c\<rparr>) = pend_frame H t t'"
  by (simp add: pend_frame_def)

lemma pend_frame_remove: "pend_frame H t (hm_remove h t)"
  by (auto simp: pend_frame_def tbl_ext_remove)

lemma pend_frame_activate:
  "hm_get h t = Some e \<Longrightarrow> ce_state e = st_reserved \<Longrightarrow> ce_state e' = st_active \<Longrightarrow> pend_frame H t (hm_insert h e' t)"
  by (auto simp: pend_frame_def tbl_ext_replace)

lemma pend_frame_same:
  assumes "tbl_ext t t'" "\<And>x e e'. hm_get x t = Some e \<Longrightarrow> hm_get x t' = Some e' \<Longrightarrow> e' = e"
  shows "pend_frame H t t'"
  using assms by (auto simp: pend_frame_def)

lemma allocate_insert_get:
  assumes "rt_wf n t" "allocate_native_handle_locked t = (h, t1)" "h \<noteq> NA_HANDLE_INVALID" "hm_get x t = Some e"
  shows "hm_get x (hm_insert h d t1) = Some e"
proof -
  have "t1 = t\<lparr>rt_next := rt_next t + 1\<rparr>" "hm_get h t = None" by (rule rt_wf_allocate [OF assms(1-3)])+
  with assms(4) show ?thesis by auto
qed

lemma install_native_frame:
  assumes "rt_wf n t" "install_native object meta t = (h, t', es)"
  shows "pend_frame H t t'"
proof (rule pend_frame_same [OF install_native_ext [OF assms(2)]])
  show "e' = e" if x: "hm_get x t = Some e" "hm_get x t' = Some e'" for x e e'
  proof (cases "t' = t")
    case False
    then obtain hd t1 d c where "allocate_native_handle_locked t = (hd, t1)" "hd \<noteq> NA_HANDLE_INVALID"
      "t' = (hm_insert hd d t1)\<lparr>rt_count := c\<rparr>"
      using assms(2) by (auto simp: install_native_def Let_def split: option.splits if_splits prod.splits)
    with allocate_insert_get [OF assms(1) _ _ x(1)] x(2) show ?thesis by fastforce
  qed (use x in simp)
qed

lemma rollback_native_get: "hm_get x (rollback_native hs t) = Some e \<Longrightarrow> hm_get x t = Some e"
proof -
  have one: "hm_get x (rollback_one h t) = Some e \<Longrightarrow> hm_get x t = Some e" for h t
    by (auto simp: rollback_one_def Let_def split: option.splits if_splits)
  show "hm_get x (rollback_native hs t) = Some e \<Longrightarrow> hm_get x t = Some e"
    unfolding rollback_native_def by (induction hs arbitrary: t) (auto dest: one)
qed

lemma reserve_loop_get:
  assumes "rt_wf n t" "reserve_loop m hs t = (status, hs', t')" "x \<notin> set hs" "hm_get x t = Some e"
    "distinct hs" "\<And>h. h \<in> set hs \<Longrightarrow> \<exists>e. hm_get h t = Some e \<and> ce_object e = None \<and> ce_state e = st_reserved"
  shows "hm_get x t' = Some e"
  using assms
proof (induction m arbitrary: hs t)
  case (Suc m)
  obtain h t1 where al: "allocate_native_handle_locked t = (h, t1)" by fastforce
  show ?case
  proof (cases "h = NA_HANDLE_INVALID")
    case True
    then have "t1 = t" using al by (auto simp: allocate_native_handle_locked_def split: if_splits)
    with Suc.prems al True show ?thesis by (auto simp: Let_def hm_remove_fold)
  next
    case False
    note a = rt_wf_allocate [OF Suc.prems(1) al False]
    let ?e = "cap_entry_default\<lparr>ce_generation := h, ce_state := st_reserved\<rparr>"
    let ?t = "(hm_insert h ?e t1)\<lparr>rt_count := rt_count t1 + 1\<rparr>"
    have obj: "ce_object ?e = None" by (simp add: cap_entry_default_def)
    have fresh: "h \<notin> set hs" "h \<noteq> x" using a(4) Suc.prems(4,6) by fastforce+
    have wf: "rt_wf n ?t"
      using a False default_reserved_ok [OF False a(6)] by (intro rt_wf_insert_fresh) auto
    have run: "reserve_loop m (hs @ [h]) ?t = (status, hs', t')"
      using Suc.prems(2) al False by (simp add: Let_def)
    have others: "\<exists>e. hm_get h' ?t = Some e \<and> ce_object e = None \<and> ce_state e = st_reserved" if "h' \<in> set (hs @ [h])" for h'
      using that a(2) obj Suc.prems(6) by (cases "h' = h") auto
    show ?thesis
      using Suc.prems fresh a(2) by (intro Suc.IH [OF wf run _ _ _ others]) auto
  qed
qed simp

lemma reserve_native_frame:
  assumes "rt_wf n t" "reserve_native mem_ok m t = (status, hs, t')"
  shows "pend_frame H t t'"
proof (rule pend_frame_same [OF reserve_native_ext [OF assms(2)]])
  show "e' = e" if "hm_get x t = Some e" "hm_get x t' = Some e'" for x e e'
    using assms that reserve_loop_get [OF assms(1), of _ "[]"]
    by (fastforce simp: reserve_native_def split: if_splits)
qed

lemma duplicate_native_frame:
  assumes "rt_wf n t" "duplicate_native unique h rights t = (status, k, t', es)"
  shows "pend_frame H t t'"
proof (rule pend_frame_same [OF duplicate_native_ext [OF assms(2)]])
  show "e' = e" if x: "hm_get x t = Some e" "hm_get x t' = Some e'" for x e e'
  proof (cases "t' = t")
    case False
    then obtain hd t1 d c where "allocate_native_handle_locked t = (hd, t1)" "hd \<noteq> NA_HANDLE_INVALID"
      "t' = (hm_insert hd d t1)\<lparr>rt_count := c\<rparr>"
      using assms(2) by (auto simp: duplicate_native_def Let_def split: option.splits if_splits prod.splits)
    with allocate_insert_get [OF assms(1) _ _ x(1)] x(2) show ?thesis by fastforce
  qed (use x in simp)
qed

lemma close_native_frame: "close_native h t = (status, t', es) \<Longrightarrow> pend_frame H t t'"
  by (auto simp: close_native_def Let_def pend_frame_remove split: option.splits if_splits)

lemma activate_native_frame: "activate_native h r t = (status, r', t', es) \<Longrightarrow> pend_frame H t t'"
  by (auto simp: activate_native_def Let_def pend_frame_activate split: option.splits if_splits prod.splits)

lemma restrict_meta_le: "\<not> restrict_denied r m \<Longrightarrow> meta_le (restrict_meta r m) m"
  by (auto simp: restrict_denied_def restrict_meta_def meta_le_def rights_sub_def Let_def not_less)

lemma restrict_native_cases:
  assumes "restrict_native h r t = (NA_STATUS_OK, k, backup, t', es)"
  obtains e t1 where "hm_get h t = Some e" "ce_state e = st_active" "\<not> restrict_denied r (ce_meta e)"
    "allocate_native_handle_locked t = (k, t1)" "k \<noteq> NA_HANDLE_INVALID" "backup = e"
    "t' = (hm_insert k \<lparr>ce_object = None, ce_generation = k, ce_state = st_reserved, ce_meta = restrict_meta r (ce_meta e)\<rparr>
            (hm_insert h (e\<lparr>ce_state := st_restricting\<rparr>) t1))\<lparr>rt_count := rt_count t1 + 1\<rparr>"
  using assms by (auto simp: restrict_native_def Let_def split: option.splits if_splits prod.splits)

lemma restrict_native_auth:
  assumes "restrict_native h r t = (NA_STATUS_OK, k, backup, t', es)" "table_auth org t"
  shows "table_auth org t'"
proof (rule restrict_native_cases [OF assms(1)])
  fix e t1
  assume e: "hm_get h t = Some e" and al: "allocate_native_handle_locked t = (k, t1)"
    and t': "t' = (hm_insert k \<lparr>ce_object = None, ce_generation = k, ce_state = st_reserved, ce_meta = restrict_meta r (ce_meta e)\<rparr>
            (hm_insert h (e\<lparr>ce_state := st_restricting\<rparr>) t1))\<lparr>rt_count := rt_count t1 + 1\<rparr>"
  show ?thesis
    unfolding t' using assms(2) table_authD [OF assms(2) e] al by (simp add: table_auth_insert allocate_auth)
qed

lemma restrict_native_pend:
  assumes "rt_wf n t" "restrict_native h r t = (NA_STATUS_OK, k, backup, t', es)" "pend_ok ps t"
  shows "pend_ok ((h, k, backup) # ps) t'"
proof -
  obtain e t1 where e: "hm_get h t = Some e" "ce_state e = st_active" "\<not> restrict_denied r (ce_meta e)"
    and al: "allocate_native_handle_locked t = (k, t1)" and k: "k \<noteq> NA_HANDLE_INVALID"
    and t': "t' = (hm_insert k \<lparr>ce_object = None, ce_generation = k, ce_state = st_reserved, ce_meta = restrict_meta r (ce_meta e)\<rparr>
            (hm_insert h (e\<lparr>ce_state := st_restricting\<rparr>) t1))\<lparr>rt_count := rt_count t1 + 1\<rparr>"
    by (rule restrict_native_cases [OF assms(2)])
  note a = rt_wf_allocate [OF assms(1) al k]
  have wf': "rt_wf n t'" using restrict_native_inv [OF assms(1,2)] by blast
  have ne: "h \<noteq> k" using e a(4) by auto
  have get: "hm_get x t' = (if x = k then Some \<lparr>ce_object = None, ce_generation = k, ce_state = st_reserved,
      ce_meta = restrict_meta r (ce_meta e)\<rparr> else if x = h then Some (e\<lparr>ce_state := st_restricting\<rparr>) else hm_get x t)" for x
    unfolding t' using a(2) by simp
  have new: "pend_one t' h k"
    using ne get restrict_meta_le [OF e(3)] rt_wf_entry [OF wf', of h] rt_wf_entry [OF wf', of k]
    by (auto simp: pend_one_def)
  have ext: "\<And>x y. entry_ok (rt_next t) (x, y) \<Longrightarrow> entry_ok (rt_next t') (x, y)"
    using restrict_native_ext [OF assms(2)] by (simp add: tbl_ext_def)
  have old: "fst p \<noteq> h \<and> pend_one t' (fst p) (fst (snd p))" if "p \<in> set ps" for p
  proof -
    have p: "pend_one t (fst p) (fst (snd p))" using assms(3) that by (simp add: pend_ok_def)
    then have "fst p \<noteq> h" using e by (auto simp: pend_one_def)
    moreover have "\<not> entry_ok (rt_next t) (k, y)" for y
      using k a(3) by (simp add: entry_ok_def NA_HANDLE_INVALID_def)
    then have "fst p \<noteq> k" "fst (snd p) \<noteq> k" using p by (auto simp: pend_one_def)
    ultimately show ?thesis using p get ext unfolding pend_one_def by (auto split: if_splits)
  qed
  show ?thesis using new old assms(3) by (auto simp: pend_ok_def)
qed

lemma commit_restrict_cases:
  assumes "rt_wf n t" "commit_restrict h k t = (NA_STATUS_OK, t', es)"
  obtains e d p where "hm_get h t = Some e" "ce_state e = st_restricting" "ce_object e = Some p"
    "hm_get k t = Some d" "ce_state d = st_reserved"
    "\<And>x. hm_get x t' = (if x = h then None else if x = k then Some (d\<lparr>ce_object := Some p, ce_state := st_active\<rparr>) else hm_get x t)"
proof -
  from assms(2) obtain e d p where e: "hm_get h t = Some e" "ce_state e = st_restricting" "ce_object e = Some p"
    and d: "hm_get k t = Some d" "ce_state d = st_reserved"
    by (auto simp: commit_restrict_def Let_def split: option.splits if_splits prod.splits)
  from rt_wf_object [OF assms(1) d(1)] d(2) have "ce_object d = None" by simp
  with assms(2) e d show thesis
    by (intro that [OF e d]) (auto simp: commit_restrict_def Let_def h_assign_move_def h_drop_def split: if_splits)
qed

lemma commit_restrict_auth:
  assumes "rt_wf n t" "commit_restrict h k t = (status, t', es)" "table_auth org t" "pend_one t h k"
  shows "table_auth org t' \<and> pend_frame H t t'"
proof (cases "status = NA_STATUS_OK")
  case False
  with assms show ?thesis
    by (auto simp: commit_restrict_def Let_def split: option.splits if_splits prod.splits)
next
  case True
  show ?thesis
  proof (rule commit_restrict_cases [OF assms(1) assms(2) [unfolded True]])
    fix e d p
    assume e: "hm_get h t = Some e" "ce_state e = st_restricting" "ce_object e = Some p"
      and d: "hm_get k t = Some d" "ce_state d = st_reserved"
      and get: "\<And>x. hm_get x t' =
        (if x = h then None else if x = k then Some (d\<lparr>ce_object := Some p, ce_state := st_active\<rparr>) else hm_get x t)"
    have "meta_le (ce_meta d) (ce_meta e)" using assms(4) e d by (simp add: pend_one_def)
    then have "auth org (Some p) (ce_meta d)" using auth_le [OF table_authD [OF assms(3) e(1)]] e(3) by simp
    then have "table_auth org t'" using assms(3) by (simp add: table_auth_def get)
    moreover have "pend_frame H t t'"
      using commit_restrict_ext [OF assms(2)] d by (auto simp: pend_frame_def get split: if_splits)
    ultimately show ?thesis ..
  qed
qed

lemma rollback_restrict_auth:
  assumes "rollback_restrict h k backup t = (status, t')" "table_auth org t"
  shows "table_auth org t' \<and> pend_frame {h} t t'"
proof (cases "t' = t")
  case False
  then obtain e where e: "hm_get h t = Some e"
    and t': "t' = hm_insert h (e\<lparr>ce_state := st_active\<rparr>) ((hm_remove k t)\<lparr>rt_count := rt_count t - 1\<rparr>)"
    using assms(1) by (auto simp: rollback_restrict_def Let_def split: option.splits if_splits)
  have "table_auth org t'"
    unfolding t' using assms(2) table_authD [OF assms(2) e] by (intro table_auth_insert) (auto intro: table_auth_remove)
  moreover have "pend_frame {h} t t'"
    using rollback_restrict_ext [OF assms(1)] e by (auto simp: pend_frame_def t')
  ultimately show ?thesis ..
qed (use assms in simp)

section \<open>Batches and fork\<close>

lemma clone_fork_bindings_auth:
  assumes "rt_wf n t" "map_ok source" "clone_fork_bindings sm ss mem_ok source t = (status, t', es)" "table_auth org t"
    "set (op_origins (Op_fork sm ss mem_ok source)) \<subseteq> org"
  shows "table_auth org t'"
proof (cases "status = NA_STATUS_OK")
  case False
  with clone_fork_bindings_error [OF assms(3)] assms(4) show ?thesis by simp
next
  case True
  have get: "hm_get k t' = (case hm_get k source of Some e \<Rightarrow> if fork_clonable sm ss e then Some e else None | None \<Rightarrow> None)" for k
    using clone_fork_bindings_inv [OF assms(1,2) assms(3) [unfolded True]] by blast
  have "auth org (ce_object e) (ce_meta e)" if "hm_get k source = Some e" for k e
  proof (cases "ce_object e")
    case (Some ob)
    have "(k, e) \<in> set (rt_map source)" using that by (simp add: hm_get_def map_of_SomeD)
    with Some have "(ob, ce_meta e) \<in> set (op_origins (Op_fork sm ss mem_ok source))"
      by (force simp: List.map_filter_def)
    with Some assms(5) show ?thesis by (auto simp: auth_def intro: meta_le_refl)
  qed simp
  then show ?thesis by (auto simp: table_auth_def get split: option.splits if_splits)
qed

lemma taken_auth:
  assumes "disposition_ok unique target t d so" "table_auth org t"
  shows "rec_auth org (taken_record (rt_this t) t (d, so))"
proof -
  from assms(1) obtain found ob where f: "hm_get (ds_handle d) t = Some found" "ce_object found = Some ob"
    "fst so = snapshot_of d found" "rights_sub (md_meta_rights (ce_meta (fst so))) (md_meta_rights (ce_meta found))"
    "md_scope (ce_meta (fst so)) = md_scope (ce_meta found)"
    by (auto simp: disposition_ok_def rights_sub_def)
  note org = table_authD [OF assms(2) f(1)]
  have "meta_le (ce_meta (fst so)) (ce_meta found)"
    using f(3-5) by (simp add: meta_le_def snapshot_of_def)
  then have "auth org (ce_object (fst so)) (ce_meta (fst so))"
    using auth_le [OF org] f(3) by (simp add: snapshot_of_def)
  with org f(1) show ?thesis
    by (auto simp: rec_auth_def taken_record_def taken_node_def tk_make_def tk_default_def)
qed

lemma take_native_batch_auth:
  assumes "take_native_batch unique mem_ok ds n target t = (NA_STATUS_OK, rs, t', es)" "table_auth org t"
  shows "table_auth org t' \<and> list_all (rec_auth org) rs \<and> pend_frame H t t'"
proof (rule take_native_batch_cases [OF assms(1)])
  fix dl snaps
  assume ok: "list_all2 (disposition_ok unique target t) dl snaps"
    and rs: "rs = map (taken_record (rt_this t) t) (zip dl snaps)"
    and t': "t' = fold hm_remove (moved_sources rs) t"
  have "list_all (rec_auth org) rs"
    using ok taken_auth [OF _ assms(2)] unfolding rs by (auto simp: list_all_iff list_all2_iff)
  moreover have "table_auth org t'" unfolding t' by (rule fold_hm_remove_auth [OF assms(2)])
  moreover have "pend_frame H t t'"
    unfolding t' by (rule pend_frame_same [OF fold_hm_remove_ext]) (auto simp: hm_remove_fold split: if_splits)
  ultimately show ?thesis by blast
qed

lemma fold_reattach_auth:
  assumes "list_all (rec_auth org) rs" "table_auth org t"
  shows "table_auth org (fold reattach rs t)"
  using assms
proof (induction rs arbitrary: t)
  case (Cons r rs)
  have "table_auth org (reattach r t)"
    using Cons.prems by (auto simp: reattach_def rec_auth_def intro: table_auth_insert split: option.split)
  with Cons show ?case by simp
qed simp

text \<open>
  A restored node does not disturb a restriction in progress: it is active, and it is not the
  node of a source, because those are not in flight.
\<close>

lemma fold_reattach_pend:
  assumes "list_all (rec_ok this (rt_next t)) rs" "pend_ok ps t" "set (map fst ps) \<inter> set (moved_sources rs) = {}"
  shows "pend_ok ps (fold reattach rs t)"
  using assms
proof (induction rs arbitrary: t)
  case (Cons r rs)
  have ok: "rec_ok this (rt_next t) r" using Cons.prems(1) by simp
  have "pend_one (reattach r t) h k" if "pend_one t h k" "rec_moved r \<Longrightarrow> h \<noteq> rec_source r" for h k
  proof (cases "rec_moved r")
    case True
    then obtain e where e: "rec_token r = tk_make this (rec_source r, e)" "ce_state e = st_active"
      using ok by (auto simp: rec_ok_def)
    have get: "hm_get x (reattach r t) = (if x = rec_source r then Some e else hm_get x t)" for x
      using True e(1) by (simp add: reattach_get [OF ok] tk_make_def)
    show ?thesis using that(1) that(2) [OF True] e(2) unfolding pend_one_def get by auto
  next
    case False
    with ok that(1) show ?thesis by (simp add: reattach_def rec_ok_def tk_default_def)
  qed
  moreover have "rec_moved r \<Longrightarrow> rec_source r \<notin> fst ` set ps" using Cons.prems(3) by simp
  then have "rec_moved r \<Longrightarrow> fst p \<noteq> rec_source r" if "p \<in> set ps" for p using that by (metis imageI)
  ultimately have p: "pend_ok ps (reattach r t)" using Cons.prems(2) by (simp add: pend_ok_def)
  have "pend_ok ps (fold reattach rs (reattach r t))"
    by (rule Cons.IH) (use Cons.prems p in \<open>auto split: if_splits\<close>)
  then show ?case by simp
qed simp

section \<open>Every step\<close>

lemma sys_auth_table:
  assumes "sys_auth org s" "table_auth org t" "pend_frame {} (sy_table s) t"
  shows "sys_auth org (with_table s t es)"
  using assms pend_ok_frame [of "sy_restricts s" "sy_table s" "{}" t] by (simp add: sys_auth_def with_table_def armed_def)

lemma sys_auth_same: "sys_auth org s \<Longrightarrow> sys_auth org (with_table s (sy_table s) es)"
  by (simp add: sys_auth_def)

lemma sys_auth_parts:
  assumes "sys_auth org s"
  shows "table_auth org (sy_table s)" "list_all (list_all (rec_auth org)) (sy_batches s)"
    "list_all (\<lambda>r. auth org (tr_object r) (tr_meta r)) (sy_pool s)" "pend_ok (sy_restricts s) (sy_table s)"
  using assms by (simp_all add: sys_auth_def)

lemma sys_auth_pool:
  assumes "sys_auth org s" "list_all (\<lambda>r. auth org (tr_object r) (tr_meta r)) p"
  shows "sys_auth org (s\<lparr>sy_pool := p\<rparr>)"
  using assms by (simp add: sys_auth_def)

lemma sys_auth_activate:
  assumes "sys_auth org s" "i < length (sy_pool s)"
    "activate_native h (sy_pool s ! i) (sy_table s) = (status, r, t, es)"
  shows "sys_auth org ((with_table s t es)\<lparr>sy_pool := (sy_pool s)[i := r]\<rparr>)"
proof -
  note p = sys_auth_parts [OF assms(1)]
  have a: "auth org (tr_object (sy_pool s ! i)) (tr_meta (sy_pool s ! i))"
    using p(3) assms(2) by (simp add: list_all_length)
  have r: "auth org (tr_object r) (tr_meta r)"
    using assms(3) a by (auto simp: activate_native_def tr_take_object_without_callback_def Let_def
        split: if_splits option.splits prod.splits)
  have t: "table_auth org t"
    using assms(3) a p(1)
    by (auto simp: activate_native_def tr_take_object_without_callback_def h_assign_move_def h_drop_def Let_def
        intro!: table_auth_insert split: if_splits option.splits prod.splits)
  have "list_all (\<lambda>r. auth org (tr_object r) (tr_meta r)) ((sy_pool s)[i := r])"
    using p(3) r by (auto simp: list_all_iff dest!: set_update_subset_insert [THEN subsetD])
  then show ?thesis
    using sys_auth_table [OF assms(1) t activate_native_frame [OF assms(3)]] by (intro sys_auth_pool)
qed

lemma list_all_remove_nth: "list_all P xs \<Longrightarrow> list_all P (remove_nth i xs)"
  by (auto simp: remove_nth_def list_all_iff dest: in_set_takeD in_set_dropD)

lemma armed_remove_nth: "set (armed (s\<lparr>sy_batches := remove_nth i (sy_batches s)\<rparr>)) \<subseteq> set (armed s)"
  by (auto simp: armed_def remove_nth_def dest: in_set_takeD in_set_dropD)

lemma sys_auth_drop_batch:
  assumes "sys_auth org s" "table_auth org t" "pend_ok (sy_restricts s) t"
  shows "sys_auth org ((with_table s t es)\<lparr>sy_batches := remove_nth i (sy_batches s)\<rparr>)"
proof -
  have "armed ((with_table s t es)\<lparr>sy_batches := b\<rparr>) = armed (s\<lparr>sy_batches := b\<rparr>)" for b by (simp add: armed_def)
  then have "set (map fst (sy_restricts s)) \<inter> set (armed ((with_table s t es)\<lparr>sy_batches := remove_nth i (sy_batches s)\<rparr>)) = {}"
    using assms(1) armed_remove_nth [of i s] by (auto simp: sys_auth_def)
  with assms show ?thesis by (simp add: sys_auth_def list_all_remove_nth with_table_def)
qed

lemma sys_auth_commit:
  assumes "sys_auth org s" "i < length (sy_batches s)" "cap_ok s"
    "commit_native_batch (map move_out (sy_batches s ! i)) (sy_table s) = (rs', t, es)"
  shows "sys_auth org ((with_table s t es')
      \<lparr>sy_batches := remove_nth i (sy_batches s), sy_pool := sy_pool s @ map rec_resource (sy_batches s ! i)\<rparr>)"
proof -
  note p = sys_auth_parts [OF assms(1)]
  from assms(2) obtain pre post where split: "sy_batches s = pre @ sy_batches s ! i # post"
    by (rule remove_nth_split)
  from commit_native_batch_ok [OF batch_in_flight(1) [OF assms(3) split]] assms(4)
  obtain c where t: "t = (sy_table s)\<lparr>rt_count := c\<rparr>" by auto
  have "list_all (rec_auth org) (sy_batches s ! i)" using p(2) assms(2) by (simp add: list_all_length)
  then have "list_all (\<lambda>r. auth org (tr_object r) (tr_meta r)) (sy_pool s @ map rec_resource (sy_batches s ! i))"
    using p(3) by (auto simp: list_all_iff rec_auth_def)
  moreover have "pend_ok (sy_restricts s) t" using pend_ok_frame [OF p(4), of "{}" t] by (simp add: t)
  then have "sys_auth org ((with_table s t es')\<lparr>sy_batches := remove_nth i (sy_batches s)\<rparr>)"
    using p(1) by (intro sys_auth_drop_batch [OF assms(1)]) (simp_all add: t)
  ultimately show ?thesis by (intro sys_auth_pool)
qed

lemma sys_auth_restore:
  assumes "sys_auth org s" "i < length (sy_batches s)" "cap_ok s"
    "restore_native_batch (sy_batches s ! i) (sy_table s) = (status, rs', t, es)"
  shows "sys_auth org ((with_table s t es')\<lparr>sy_batches := remove_nth i (sy_batches s)\<rparr>)"
proof -
  note p = sys_auth_parts [OF assms(1)]
  from assms(2) obtain pre post where split: "sy_batches s = pre @ sy_batches s ! i # post"
    by (rule remove_nth_split)
  note b = batch_in_flight [OF assms(3) split]
  have t: "t = fold reattach (sy_batches s ! i) (sy_table s)"
    by (rule restore_native_batch_ok [OF b(1-3)]) (use assms(4) in simp_all)
  have "list_all (rec_auth org) (sy_batches s ! i)" using p(2) assms(2) by (simp add: list_all_length)
  then have "table_auth org t" using p(1) unfolding t by (rule fold_reattach_auth)
  moreover have "set (moved_sources (sy_batches s ! i)) \<subseteq> set (armed s)"
    using assms(2) by (force simp: armed_def)
  then have "pend_ok (sy_restricts s) t"
    unfolding t using assms(1) by (intro fold_reattach_pend [OF b(1) p(4)]) (auto simp: sys_auth_def)
  ultimately show ?thesis by (rule sys_auth_drop_batch [OF assms(1)])
qed

lemma sys_auth_end_restrict:
  assumes "sys_auth org s" "i < length (sy_restricts s)" "table_auth org t"
    "pend_frame {fst (sy_restricts s ! i)} (sy_table s) t"
  shows "sys_auth org ((with_table s t es)\<lparr>sy_restricts := remove_nth i (sy_restricts s)\<rparr>)"
proof -
  let ?ps = "sy_restricts s"
  from assms(2) obtain pre post where split: "?ps = pre @ ?ps ! i # post" and rm: "remove_nth i ?ps = pre @ post"
    by (rule remove_nth_split)
  have dist: "distinct (map fst (pre @ ?ps ! i # post))"
    using sys_auth_parts(4) [OF assms(1)] split by (simp add: pend_ok_def)
  have "pend_ok (pre @ post) (sy_table s)"
    using sys_auth_parts(4) [OF assms(1)] dist by (subst (asm) split) (auto simp: pend_ok_def)
  then have "pend_ok (pre @ post) t"
    using assms(4) dist by (rule_tac pend_ok_frame) (auto simp: rev_image_eqI)
  moreover have "set (map fst (pre @ post)) \<subseteq> set (map fst ?ps)" by (subst split) auto
  then have "set (map fst (pre @ post)) \<inter> set (armed s) = {}" using assms(1) unfolding sys_auth_def by blast
  ultimately show ?thesis using assms(1,3) by (simp add: sys_auth_def rm with_table_def armed_def)
qed

lemma sys_auth_commit_restrict:
  assumes "sys_auth org s" "cap_ok s" "i < length (sy_restricts s)" "sy_restricts s ! i = (h, k, backup)"
    "commit_restrict h k (sy_table s) = (status, t, es)"
    "(if status = NA_STATUS_OK then (status, t) else rollback_restrict h k backup t) = (status', t')"
  shows "sys_auth org ((with_table s t' es)\<lparr>sy_restricts := remove_nth i (sy_restricts s)\<rparr>)"
proof -
  note p = sys_auth_parts [OF assms(1)]
  have "(h, k, backup) \<in> set (sy_restricts s)" using assms(3,4) by (metis nth_mem)
  then have "pend_one (sy_table s) h k" using p(4) by (force simp: pend_ok_def)
  note c = commit_restrict_auth [OF cap_ok_wf [OF assms(2)] assms(5) p(1) this]
  have "table_auth org t' \<and> pend_frame {h} (sy_table s) t'"
  proof (cases "status = NA_STATUS_OK")
    case False
    then have "t = sy_table s"
      using assms(5) by (auto simp: commit_restrict_def Let_def split: option.splits if_splits prod.splits)
    then show ?thesis using False assms(6) rollback_restrict_auth [OF _ p(1)] by auto
  qed (use assms(6) c in auto)
  then show ?thesis using assms(1,3,4) by (intro sys_auth_end_restrict) auto
qed

lemma sys_auth_restrict:
  assumes "sys_auth org s" "cap_ok s" "restrict_native h r (sy_table s) = (NA_STATUS_OK, k, backup, t, es)"
  shows "sys_auth org ((with_table s t es)\<lparr>sy_restricts := (h, k, backup) # sy_restricts s\<rparr>)"
proof -
  note p = sys_auth_parts [OF assms(1)]
  have "hm_get h (sy_table s) \<noteq> None" by (rule restrict_native_cases [OF assms(3)]) simp
  then have "h \<notin> set (armed s)" using assms(2) by (auto simp: cap_ok_def flight_ok_def)
  then show ?thesis
    using assms(1) restrict_native_auth [OF assms(3) p(1)]
      restrict_native_pend [OF cap_ok_wf [OF assms(2)] assms(3) p(4)]
    by (simp add: sys_auth_def with_table_def armed_def)
qed

lemma sys_auth_take:
  assumes "sys_auth org s" "cap_ok s"
    "take_native_batch unique mem_ok ds n target (sy_table s) = (NA_STATUS_OK, rs, t, es)"
  shows "sys_auth org ((with_table s t es)\<lparr>sy_batches := rs # sy_batches s\<rparr>)"
proof -
  note p = sys_auth_parts [OF assms(1)]
  note a = take_native_batch_auth [OF assms(3) p(1), of "{}"]
  have "\<forall>r \<in> set rs. rec_moved r \<longrightarrow> (\<exists>e. hm_get (rec_source r) (sy_table s) = Some e \<and> ce_state e = st_active)"
    using take_native_batch_inv [OF cap_ok_wf [OF assms(2)] assms(3)] by blast
  then have act: "\<exists>e. hm_get h (sy_table s) = Some e \<and> ce_state e = st_active" if "h \<in> set (moved_sources rs)" for h
    using that by (auto simp: moved_sources_def)
  have "fst q \<notin> set (moved_sources rs)" if "q \<in> set (sy_restricts s)" for q
    using act p(4) that by (force simp: pend_ok_def pend_one_def)
  then have "set (map fst (sy_restricts s)) \<inter> set (armed ((with_table s t es)\<lparr>sy_batches := rs # sy_batches s\<rparr>)) = {}"
    using assms(1) by (auto simp: armed_def sys_auth_def)
  moreover have "pend_ok (sy_restricts s) t" using pend_ok_frame [OF p(4)] a by blast
  ultimately show ?thesis using assms(1) a by (simp add: sys_auth_def with_table_def)
qed

lemma sys_auth_clear:
  assumes "sys_auth org s" "sy_batches s = []" "rt_clear (sy_table s) = (t, es)"
  shows "sys_auth org ((with_table s t es)\<lparr>sy_lost := 0\<rparr>)"
proof -
  have t: "hm_get h t = None" "rt_this t = rt_this (sy_table s)" "rt_next t = rt_next (sy_table s)" for h
    using assms(3) by (auto simp: rt_clear_def clear_native_locked_def hm_get_def)
  have "pend_frame {} (sy_table s) t" using t by (simp add: pend_frame_def tbl_ext_def)
  then have "sys_auth org (with_table s t es)"
    using t by (intro sys_auth_table [OF assms(1)]) (auto simp: table_auth_def)
  then show ?thesis by (simp add: sys_auth_def)
qed

lemma sys_auth_step:
  assumes "sys_auth org s" "cap_ok s" "set (op_origins op) \<subseteq> org"
  shows "sys_auth org (cap_step unique op s)"
proof (cases op)
  case (Op_install object meta)
  have "auth org object meta" using assms(3) by (cases object) (auto simp: Op_install auth_def intro: meta_le_refl)
  with assms(1) show ?thesis
    by (auto simp: Op_install split: prod.split intro: sys_auth_table install_native_auth sys_auth_parts(1)
        install_native_frame [OF cap_ok_wf [OF assms(2)]])
next
  case (Op_reserve mem_ok n)
  have "table_auth org t" if "reserve_native mem_ok n (sy_table s) = (status, hs, t)" for status hs t
    using that reserve_loop_auth [OF sys_auth_parts(1) [OF assms(1)]] sys_auth_parts(1) [OF assms(1)]
    by (auto simp: reserve_native_def split: if_splits)
  with assms(1) show ?thesis
    by (auto simp: Op_reserve split: prod.split intro: sys_auth_table reserve_native_frame [OF cap_ok_wf [OF assms(2)]])
next
  case (Op_rollback hs)
  have "pend_frame {} (sy_table s) (rollback_native hs (sy_table s))"
    by (rule pend_frame_same [OF rollback_native_ext]) (auto dest: rollback_native_get)
  then show ?thesis
    using sys_auth_table [OF assms(1) rollback_native_auth [OF sys_auth_parts(1) [OF assms(1)]]] by (simp add: Op_rollback)
next
  case (Op_close h)
  have "table_auth org t" if "close_native h (sy_table s) = (status, t, es)" for status t es
    using that sys_auth_parts(1) [OF assms(1)]
    by (auto simp: close_native_def Let_def table_auth_remove split: option.splits if_splits)
  with assms(1) show ?thesis
    by (auto simp: Op_close split: prod.split intro: sys_auth_table close_native_frame)
next
  case (Op_duplicate h rights)
  with assms(1) show ?thesis
    by (auto split: prod.split intro: sys_auth_table duplicate_native_auth sys_auth_parts(1)
        duplicate_native_frame [OF cap_ok_wf [OF assms(2)]])
next
  case (Op_restrict h r)
  have "t = sy_table s" if "restrict_native h r (sy_table s) = (status, k, b, t, es)" "status \<noteq> NA_STATUS_OK"
    for status k b t es
    using that by (auto simp: restrict_native_def Let_def split: option.splits if_splits prod.splits)
  with assms(1,2) show ?thesis
    by (auto simp: Op_restrict split: prod.split intro: sys_auth_restrict sys_auth_same)
next
  case (Op_fork sm ss mem_ok source)
  have "sys_auth org (with_table s t es)"
    if "clone_fork_bindings sm ss mem_ok source (sy_table s) = (status, t, es)" "map_ok source" "sy_restricts s = []"
    for status t es
    using that assms clone_fork_bindings_auth [OF cap_ok_wf [OF assms(2)] that(2,1) sys_auth_parts(1) [OF assms(1)]]
    by (simp add: Op_fork sys_auth_def with_table_def pend_ok_def)
  with assms(1) show ?thesis by (auto simp: Op_fork split: prod.split)
next
  case (Op_take mem_ok ds n target)
  have "t = sy_table s" if "take_native_batch unique mem_ok ds n target (sy_table s) = (status, rs, t, es)"
    "status \<noteq> NA_STATUS_OK" for status rs t es
    using take_native_batch_error [OF that] by simp
  with assms(1,2) show ?thesis
    by (auto simp: Op_take split: prod.split intro: sys_auth_take sys_auth_same)
next
  case (Op_abandon i)
  have "sys_auth org ((with_table s (sy_table s) es)\<lparr>sy_batches := remove_nth i (sy_batches s)\<rparr>)" for es
    using sys_auth_parts [OF assms(1)] by (intro sys_auth_drop_batch [OF assms(1)])
  then show ?thesis using assms(1) by (simp add: Op_abandon sys_auth_def armed_def)
next
  case (Op_rollback_restrict i)
  with assms(1) rollback_restrict_auth [OF _ sys_auth_parts(1) [OF assms(1)]] show ?thesis
    by (auto split: prod.splits intro!: sys_auth_end_restrict)
next
  case (Op_drop i)
  have "sys_auth org ((with_table s (sy_table s) es)\<lparr>sy_pool := remove_nth i (sy_pool s)\<rparr>)" for es
    using sys_auth_parts [OF assms(1)] sys_auth_table [OF assms(1)]
    by (intro sys_auth_pool list_all_remove_nth) auto
  with assms(1) show ?thesis by (simp add: Op_drop)
qed (use assms sys_auth_activate sys_auth_commit_restrict sys_auth_commit sys_auth_restore sys_auth_clear in
    \<open>auto simp: Let_def split: prod.split\<close>)

lemma sys_auth_run:
  assumes "sys_auth org s" "cap_ok s" "set (concat (map op_origins ops)) \<subseteq> org"
  shows "sys_auth org (cap_run unique ops s)"
  using assms
proof (induction ops arbitrary: s)
  case (Cons op ops)
  then show ?case
    using sys_auth_step [of org s op unique] cap_step_ok [of s unique op] by (simp add: cap_run_def)
qed (simp add: cap_run_def)

lemma sys_auth_init: "sys_auth org (cap_init this)"
  by (simp add: sys_auth_def cap_init_def table_auth_def hm_get_def rt_new_def pend_ok_def)

end
