(* ===== verification/Capability_Props.thy ===== *)
theory Capability_Props
  imports Capability_Authority
begin

text \<open>
  The properties of the capability table. Those on \<open>cap_run\<close> hold after any sequence of
  operations, with batches and restrictions of several threads in progress at once; the
  others describe one operation on a well-formed table.
\<close>

section \<open>Unique objects\<close>

text \<open>How much the operation may add to the number of capabilities for an object that is unique.\<close>

definition op_owners :: "oid \<Rightarrow> cap_op \<Rightarrow> int" where
  "op_owners ob op = int (length (filter (\<lambda>om. fst om = ob) (op_origins op)))"

lemma op_owners_nonneg [simp]: "0 \<le> op_owners ob op"
  by (simp add: op_owners_def)

definition own :: "oid \<Rightarrow> cap_sys \<Rightarrow> int" where
  "own ob s = roots ob (sy_table s) + in_flight ob s"

lemma own_hooks: "cap_ok s \<Longrightarrow> own ob s = net table_root ob (sy_hooks s) + net in_transit ob (sy_hooks s)"
  by (simp add: own_def cap_ok_def hooks_ok_def)

lemma own_table:
  "cap_ok s \<Longrightarrow> cap_ok (with_table s t es) \<Longrightarrow>
   own ob (with_table s t es) = own ob s + net table_root ob es + net in_transit ob es"
  by (simp add: own_hooks)

lemma install_owners:
  "install_native object meta t = (h, t', es) \<Longrightarrow>
   net table_root ob es + net in_transit ob es \<le> op_owners ob (Op_install object meta)"
  by (auto simp: install_native_def op_owners_def Let_def split: option.splits if_splits prod.splits)

lemma duplicate_owners:
  "duplicate_native unique h rights t = (status, k, t', es) \<Longrightarrow> unique ob \<Longrightarrow>
   net table_root ob es + net in_transit ob es = 0"
  by (auto simp: duplicate_native_def Let_def split: option.splits if_splits prod.splits)

lemma map_filter_count:
  "length (filter (\<lambda>om. fst om = ob) (List.map_filter (\<lambda>(k, e). map_option (\<lambda>p. (p, ce_meta e)) (ce_object e)) al)) =
   length (filter (\<lambda>(k, e). ce_object e = Some ob) al)"
  by (induction al) (auto simp: List.map_filter_simps split: option.split)

lemma fork_owners:
  assumes "clone_fork_bindings sm ss mem_ok source t = (status, t', es)"
  shows "net table_root ob es + net in_transit ob es \<le> op_owners ob (Op_fork sm ss mem_ok source)"
proof -
  have loop: "count_list acq' ob \<le> count_list acq ob + length (filter (\<lambda>(k, e). ce_object e = Some ob) al)"
    if "clone_loop sm ss al t acq = (t', acq')" for al t acq t' acq'
    using that by (induction sm ss al t acq rule: clone_loop.induct) (fastforce simp: Let_def split: if_splits)+
  show ?thesis
    using assms loop [of "rt_map source" _ "[]"]
    by (auto simp: clone_fork_bindings_def Let_def op_owners_def map_filter_count net_acquire_list
        split: if_splits prod.splits)
qed

lemma take_owners:
  assumes "take_native_batch unique mem_ok ds n target t = (NA_STATUS_OK, rs, t', es)" "unique ob"
  shows "net table_root ob es + net in_transit ob es = 0"
proof (rule take_native_batch_cases [OF assms(1)])
  fix dl snaps
  assume ok: "list_all2 (disposition_ok unique target t) dl snaps"
    and rs: "rs = map (taken_record (rt_this t) t) (zip dl snaps)"
    and net: "\<And>ob. net in_transit ob es = batch_transit ob rs" "\<And>ob. net table_root ob es = - batch_moved ob rs"
  have "batch_transit ob (map (taken_record this t) zs) = batch_moved ob (map (taken_record this t) zs)"
    if "\<forall>(d, so) \<in> set zs. disposition_ok unique target t d so" for this zs
    using that assms(2)
    by (induction zs) (auto simp: disposition_ok_def taken_record_def tr_transit_def snapshot_of_def)
  then have "batch_transit ob rs = batch_moved ob rs" using ok unfolding rs by (auto simp: list_all2_iff)
  with net show ?thesis by simp
qed

lemma activate_owners:
  "activate_native h r t = (status, r', t', es) \<Longrightarrow> net table_root ob es + net in_transit ob es \<le> 0"
  by (auto simp: activate_native_def tr_take_object_without_callback_def h_assign_move_def h_drop_def Let_def
      split: option.splits if_splits prod.splits)

lemma commit_restrict_owners:
  "commit_restrict h k t = (status, t', es) \<Longrightarrow> net table_root ob es + net in_transit ob es = 0"
  by (auto simp: commit_restrict_def h_assign_move_def h_drop_def Let_def
      split: option.splits if_splits prod.splits)

lemma batch_moved_le: "list_all (rec_ok this nxt) rs \<Longrightarrow> batch_moved ob rs \<le> batch_transit ob rs \<and> 0 \<le> batch_transit ob rs"
  by (induction rs) (auto simp: rec_ok_def tr_transit_def)

lemma tr_transit_nonneg [simp]: "0 \<le> tr_transit ob r"
  by (simp add: tr_transit_def holds_def)

lemma batch_owners:
  assumes "cap_ok s" "i < length (sy_batches s)"
  shows "commit_native_batch (map move_out (sy_batches s ! i)) (sy_table s) = (rs', t, es) \<Longrightarrow>
      net table_root ob (es @ concat (map rec_destroy rs')) + net in_transit ob (es @ concat (map rec_destroy rs')) \<le> 0"
    "restore_native_batch (sy_batches s ! i) (sy_table s) = (status, rs', t, es) \<Longrightarrow>
      net table_root ob (es @ concat (map rec_destroy rs')) + net in_transit ob (es @ concat (map rec_destroy rs')) \<le> 0"
    "net table_root ob (concat (map rec_destroy (sy_batches s ! i))) +
      net in_transit ob (concat (map rec_destroy (sy_batches s ! i))) \<le> 0"
proof -
  from assms(2) obtain pre post where split: "sy_batches s = pre @ sy_batches s ! i # post"
    by (rule remove_nth_split)
  note b = batch_in_flight [OF assms(1) split]
  note le = batch_moved_le [OF b(1), of ob]
  show "net table_root ob (concat (map rec_destroy (sy_batches s ! i))) +
      net in_transit ob (concat (map rec_destroy (sy_batches s ! i))) \<le> 0"
    using rec_destroy_net [OF b(1), of ob] le by simp
  show "net table_root ob (es @ concat (map rec_destroy rs')) + net in_transit ob (es @ concat (map rec_destroy rs')) \<le> 0"
    if "commit_native_batch (map move_out (sy_batches s ! i)) (sy_table s) = (rs', t, es)"
    using commit_native_batch_ok [OF b(1)] that by auto
  show "net table_root ob (es @ concat (map rec_destroy rs')) + net in_transit ob (es @ concat (map rec_destroy rs')) \<le> 0"
    if r: "restore_native_batch (sy_batches s ! i) (sy_table s) = (status, rs', t, es)"
    by (rule restore_native_batch_ok [OF b(1-3)])
      (use r le restored_callbacks_net_all [OF b(1), of ob] in simp_all)
qed

lemma own_le:
  assumes "cap_ok s" "cap_ok s'" "sy_hooks s' = sy_hooks s @ es"
    "net table_root ob es + net in_transit ob es \<le> k"
  shows "own ob s' \<le> own ob s + k"
  using assms by (simp add: own_hooks)

lemma rt_clear_owners:
  "rt_clear t = (t', es) \<Longrightarrow> net table_root ob es + net in_transit ob es \<le> 0"
  by (auto simp: rt_clear_def clear_native_locked_def net_release_list)

lemma table_owners:
  "close_native h t = (status, t', es) \<Longrightarrow> net table_root ob es + net in_transit ob es \<le> 0"
  "restrict_native h r t = (status, k, b, t', es) \<Longrightarrow> net table_root ob es + net in_transit ob es = 0"
  by (auto simp: close_native_def restrict_native_def Let_def split: option.splits if_splits prod.splits)

lemma step_owners:
  assumes "cap_ok s" "unique ob"
  shows "\<exists>es. sy_hooks (cap_step unique op s) = sy_hooks s @ es \<and>
      net table_root ob es + net in_transit ob es \<le> op_owners ob op"
proof (cases op)
  case (Op_take mem_ok ds n target)
  obtain status rs t es where r: "take_native_batch unique mem_ok ds n target (sy_table s) = (status, rs, t, es)"
    by (cases "take_native_batch unique mem_ok ds n target (sy_table s)")
  show ?thesis
  proof (cases "status = NA_STATUS_OK")
    case True
    with r take_owners [where unique = unique and ob = ob, OF r [unfolded True] assms(2)] show ?thesis
      by (simp add: Op_take)
  next
    case False
    with r take_native_batch_error [OF r] show ?thesis by (simp add: Op_take)
  qed
next
  case (Op_install object meta)
  with install_owners show ?thesis by (auto split: prod.split)
next
  case (Op_fork sm ss mem_ok source)
  with fork_owners [of sm ss mem_ok source "sy_table s"] show ?thesis by (auto split: prod.split)
next
  case (Op_duplicate h rights)
  obtain status k t es where r: "duplicate_native unique h rights (sy_table s) = (status, k, t, es)"
    by (cases "duplicate_native unique h rights (sy_table s)")
  with duplicate_owners [where unique = unique, OF r assms(2)] show ?thesis by (simp add: Op_duplicate)
next
  case (Op_restore i)
  then show ?thesis using batch_owners(2) [OF assms(1), of i] order_trans [OF _ op_owners_nonneg]
    by (auto split: prod.split)
next
  case (Op_commit i)
  then show ?thesis using batch_owners(1) [OF assms(1), of i] order_trans [OF _ op_owners_nonneg]
    by (auto simp: Let_def split: prod.split)
next
  case (Op_abandon i)
  then show ?thesis using batch_owners(3) [OF assms(1), of i] order_trans [OF _ op_owners_nonneg] by auto
next
  case (Op_restrict h r)
  then show ?thesis using table_owners(2) by (auto split: prod.split)
next
  case (Op_drop i)
  then show ?thesis by (auto intro: order_trans [of _ 0])
next
  case (Op_commit_restrict i)
  then show ?thesis using commit_restrict_owners by (auto simp: Let_def split: prod.split)
qed (use order_trans [OF activate_owners op_owners_nonneg] order_trans [OF table_owners(1) op_owners_nonneg]
    order_trans [OF rt_clear_owners op_owners_nonneg] in \<open>auto split: prod.split\<close>)

lemma own_run:
  assumes "unique ob"
  shows "cap_ok s \<Longrightarrow> own ob (cap_run unique ops s) \<le> own ob s + (\<Sum>op\<leftarrow>ops. op_owners ob op)"
proof (induction ops arbitrary: s)
  case (Cons op ops)
  note ok = cap_step_ok [OF Cons.prems, of unique op]
  obtain es where "sy_hooks (cap_step unique op s) = sy_hooks s @ es"
    "net table_root ob es + net in_transit ob es \<le> op_owners ob op"
    using step_owners [where unique = unique, OF Cons.prems assms, of op] by blast
  from own_le [OF Cons.prems ok this] Cons.IH [OF ok] show ?case by (simp add: cap_run_def)
qed (simp add: cap_run_def)

section \<open>Handles that were closed\<close>

definition dead :: "na_handle \<Rightarrow> cap_sys \<Rightarrow> bool" where
  "dead h s \<longleftrightarrow> (\<exists>x. entry_ok (rt_next (sy_table s)) (h, x)) \<and> hm_get h (sy_table s) = None \<and> h \<notin> set (armed s)"

definition is_fork :: "cap_op \<Rightarrow> bool" where
  "is_fork op \<longleftrightarrow> (case op of Op_fork _ _ _ _ \<Rightarrow> True | _ \<Rightarrow> False)"

lemma dead_table: "dead h s \<Longrightarrow> tbl_ext (sy_table s) t \<Longrightarrow> dead h (with_table s t es)"
  unfolding dead_def tbl_ext_def by auto

lemma dead_fields [simp]:
  "dead h (s\<lparr>sy_pool := p\<rparr>) = dead h s" "dead h (s\<lparr>sy_lost := l\<rparr>) = dead h s" "dead h (s\<lparr>sy_restricts := rs\<rparr>) = dead h s"
  by (simp_all add: dead_def)

lemma dead_drop_batch:
  assumes "dead h s" "rt_next t = rt_next (sy_table s)" "hm_get h t = None"
  shows "dead h ((with_table s t es)\<lparr>sy_batches := remove_nth i (sy_batches s)\<rparr>)"
proof -
  have "armed ((with_table s t es)\<lparr>sy_batches := b\<rparr>) = armed (s\<lparr>sy_batches := b\<rparr>)" for b by (simp add: armed_def)
  with assms armed_remove_nth [of i s] show ?thesis by (auto simp: dead_def)
qed

lemma dead_batch:
  assumes "dead h s" "cap_ok s" "i < length (sy_batches s)"
  shows "commit_native_batch (map move_out (sy_batches s ! i)) (sy_table s) = (rs', t, es) \<Longrightarrow>
      rt_next t = rt_next (sy_table s) \<and> hm_get h t = None"
    "restore_native_batch (sy_batches s ! i) (sy_table s) = (status, rs', t, es) \<Longrightarrow>
      rt_next t = rt_next (sy_table s) \<and> hm_get h t = None"
proof -
  from assms(3) obtain pre post where split: "sy_batches s = pre @ sy_batches s ! i # post"
    by (rule remove_nth_split)
  note b = batch_in_flight [OF assms(2) split]
  show "rt_next t = rt_next (sy_table s) \<and> hm_get h t = None"
    if "commit_native_batch (map move_out (sy_batches s ! i)) (sy_table s) = (rs', t, es)"
    using commit_native_batch_ok [OF b(1)] that assms(1) by (auto simp: dead_def)
  have "set (moved_sources (sy_batches s ! i)) \<subseteq> set (armed s)" using assms(3) by (force simp: armed_def)
  then have h: "h \<notin> set (moved_sources (sy_batches s ! i))" using assms(1) by (auto simp: dead_def)
  show "rt_next t = rt_next (sy_table s) \<and> hm_get h t = None"
    if r: "restore_native_batch (sy_batches s ! i) (sy_table s) = (status, rs', t, es)"
    by (rule restore_native_batch_ok [OF b(1-3)])
      (use r assms(1) fold_reattach_get [OF b(1) h] in \<open>simp_all add: dead_def\<close>)
qed

lemma dead_take:
  assumes "dead h s" "cap_ok s" "take_native_batch unique mem_ok ds n target (sy_table s) = (NA_STATUS_OK, rs, t, es)"
  shows "dead h ((with_table s t es)\<lparr>sy_batches := rs # sy_batches s\<rparr>)"
proof -
  have t: "t = fold hm_remove (moved_sources rs) (sy_table s)"
    and "\<forall>r \<in> set rs. rec_moved r \<longrightarrow> hm_get (rec_source r) (sy_table s) \<noteq> None"
    using take_native_batch_inv [OF cap_ok_wf [OF assms(2)] assms(3)] by blast+
  then have "h \<notin> set (moved_sources rs)" using assms(1) by (auto simp: dead_def moved_sources_def)
  then show ?thesis using assms(1) by (simp add: dead_def armed_def t hm_remove_fold)
qed

lemma rt_clear_ext: "rt_clear t = (t', es) \<Longrightarrow> tbl_ext t t'"
  by (auto simp: rt_clear_def clear_native_locked_def tbl_ext_def hm_get_def)

lemma dead_step:
  assumes "dead h s" "cap_ok s" "\<not> is_fork op"
  shows "dead h (cap_step unique op s)"
proof (cases op)
  case (Op_take mem_ok ds n target)
  have "t = sy_table s" if "take_native_batch unique mem_ok ds n target (sy_table s) = (status, rs, t, es)"
    "status \<noteq> NA_STATUS_OK" for status rs t es
    using take_native_batch_error [OF that] by simp
  with assms show ?thesis by (auto simp: Op_take split: prod.split intro: dead_take dead_table)
next
  case (Op_commit i)
  with assms dead_batch(1) [OF assms(1,2)] show ?thesis
    by (auto simp: Let_def split: prod.split intro: dead_drop_batch)
next
  case (Op_restore i)
  with assms dead_batch(2) [OF assms(1,2)] show ?thesis by (auto split: prod.split intro: dead_drop_batch)
next
  case (Op_abandon i)
  have "hm_get h (sy_table s) = None" using assms(1) by (simp add: dead_def)
  with assms(1) dead_drop_batch [OF assms(1) refl] show ?thesis by (simp add: Op_abandon)
next
  case (Op_commit_restrict i)
  have "tbl_ext (sy_table s) t'" if "commit_restrict x k (sy_table s) = (status, t, es)"
    "(if status = NA_STATUS_OK then (status, t) else rollback_restrict x k backup t) = (status', t')"
    for x k backup status t es status' t'
    using that by (auto split: if_splits dest: commit_restrict_ext rollback_restrict_ext intro: tbl_ext_trans)
  with assms show ?thesis by (auto simp: Op_commit_restrict Let_def split: prod.split intro!: dead_table)
qed (use assms in \<open>auto simp: is_fork_def split: prod.split intro: dead_table table_op_ext activate_native_ext rt_clear_ext\<close>)

lemma dead_run:
  assumes "dead h s" "cap_ok s" "\<not> list_ex is_fork ops"
  shows "dead h (cap_run unique ops s)"
  using assms
proof (induction ops arbitrary: s)
  case (Cons op ops)
  then show ?case using dead_step [of h s op unique] cap_step_ok [of s unique op] by (simp add: cap_run_def)
qed (simp add: cap_run_def)

section \<open>What a restored batch contains\<close>

lemma find_moved_None: "h \<notin> set (moved_sources rs) \<Longrightarrow> find (\<lambda>r. rec_moved r \<and> rec_source r = h) rs = None"
  by (auto simp: find_None_iff moved_sources_def)

lemma fold_reattach_find:
  assumes "list_all (rec_ok this nxt) rs" "distinct (moved_sources rs)"
  shows "hm_get h (fold reattach rs t) = (case find (\<lambda>r. rec_moved r \<and> rec_source r = h) rs of
       Some r \<Rightarrow> map_option snd (tk_slot (rec_token r)) | None \<Rightarrow> hm_get h t)"
  using assms
proof (induction rs arbitrary: t)
  case (Cons r rs)
  have ok: "rec_ok this nxt r" "list_all (rec_ok this nxt) rs" using Cons.prems(1) by simp_all
  show ?case
  proof (cases "rec_moved r \<and> rec_source r = h")
    case True
    then have "h \<notin> set (moved_sources rs)" using Cons.prems(2) by auto
    with fold_reattach_get [OF ok(2)] True show ?thesis by (simp add: reattach_get [OF ok(1)])
  next
    case False
    then have "hm_get h (reattach r t) = hm_get h t" by (auto simp: reattach_get [OF ok(1)])
    moreover have "distinct (moved_sources rs)" using Cons.prems(2) by (auto split: if_splits)
    moreover have "find (\<lambda>r. rec_moved r \<and> rec_source r = h) (r # rs) = find (\<lambda>r. rec_moved r \<and> rec_source r = h) rs"
      using False by auto
    ultimately show ?thesis using Cons.IH [OF ok(2)] by (simp cong: option.case_cong)
  qed
qed simp

lemma fold_reattach_moved:
  assumes "list_all (rec_ok this nxt) rs" "distinct (moved_sources rs)" "r \<in> set rs" "rec_moved r"
  shows "hm_get (rec_source r) (fold reattach rs t) = map_option snd (tk_slot (rec_token r))"
proof -
  have "find (\<lambda>q. rec_moved q \<and> rec_source q = rec_source r) rs = Some r"
    using assms(2-4)
  proof (induction rs)
    case (Cons q rs)
    then show ?case by (auto simp: moved_sources_def split: if_splits)
  qed simp
  then show ?thesis using fold_reattach_find [OF assms(1,2)] by simp
qed

section \<open>Properties of every run\<close>

text \<open>
  C1. The books of the capability table balance after any sequence of operations: the keys
  are distinct and valid, the entry count is the number of entries plus the nodes in flight
  plus the nodes lost to abandoned batches and never exceeds the limit, and for every object
  the hooks run so far add up to the number of table entries that name it (table roots) and
  of the resources in transit.
\<close>

theorem capability_accounting:
  "let s = cap_run unique ops (cap_init this); t = sy_table s
   in distinct (map fst (rt_map t)) \<and> NA_HANDLE_INVALID \<notin> set (map fst (rt_map t)) \<and>
      unat (rt_count t) = length (rt_map t) + length (armed s) + sy_lost s \<and>
      unat (rt_count t) \<le> 4096 \<and>
      (\<forall>ob. net table_root ob (sy_hooks s) = int (length (filter (\<lambda>(h, e). ce_object e = Some ob) (rt_map t))) \<and>
            net in_transit ob (sy_hooks s) = in_flight ob s)"
proof -
  define s where "s = cap_run unique ops (cap_init this)"
  have ok: "cap_ok s" unfolding s_def by (rule cap_run_ok [OF cap_init_ok])
  have "tbl_refs ob al = int (length (filter (\<lambda>(h, e). ce_object e = Some ob) al))" for ob al
    by (induction al) (auto simp: holds_def)
  with ok show ?thesis
    unfolding s_def [symmetric] Let_def
    by (auto simp: roots_def cap_ok_def hooks_ok_def rt_wf_def list_all_iff entry_ok_def NA_CAPABILITY_MAX_PER_PROCESS_def)
qed

text \<open>
  C2. No operation amplifies authority: a capability in the table, or a resource in a message,
  refers to an object that was installed (or inherited by a fork) with at least its meta and
  protocol rights, features and revision and with the same scope, binding and protocol. This
  holds for duplication, restriction, transfer, restoring and receiving in any order.
\<close>

theorem capability_no_amplification:
  assumes "s = cap_run unique ops (cap_init this)"
    "(\<exists>h e. hm_get h (sy_table s) = Some e \<and> ce_object e = Some ob \<and> ce_meta e = m) \<or>
     (\<exists>r \<in> set (sy_pool s). tr_object r = Some ob \<and> tr_meta r = m)"
  shows "\<exists>m0. (ob, m0) \<in> set (concat (map op_origins ops)) \<and> meta_le m m0"
proof -
  have "sys_auth (set (concat (map op_origins ops))) s"
    unfolding assms(1) by (rule sys_auth_run [OF sys_auth_init cap_init_ok order_refl])
  with assms(2) show ?thesis
    by (auto simp: sys_auth_def table_auth_def auth_def list_all_iff) force+
qed

definition example_meta :: metadata where
  "example_meta = metadata_default\<lparr>md_meta_rights := NA_RIGHT_TRANSFER OR NA_RIGHT_DUPLICATE OR NA_RIGHT_WAIT\<rparr>"

definition example_move :: "na_handle \<Rightarrow> na_resource_disposition" where
  "example_move h = \<lparr>ds_handle = h, ds_operation = NA_RESOURCE_MOVE, ds_flags = 0, ds_rights = NA_RIGHT_TRANSFER, ds_scope = 0\<rparr>"

definition example_ops :: "cap_op list" where
  "example_ops =
     [Op_install (Some 7) example_meta, Op_duplicate 1 NA_RIGHT_WAIT, Op_take True (Some [example_move 1]) 1 0]"

theorem capability_no_amplification_witness:
  "\<exists>m0. (7, m0) \<in> set (concat (map op_origins example_ops)) \<and>
     meta_le (example_meta\<lparr>md_meta_rights := NA_RIGHT_WAIT\<rparr>) m0"
proof (rule capability_no_amplification [where unique = "\<lambda>_. False" and this = 1, OF refl])
  have "hm_get 2 (sy_table (cap_run (\<lambda>_. False) example_ops (cap_init 1))) =
      Some \<lparr>ce_object = Some 7, ce_generation = 2, ce_state = st_active, ce_meta = example_meta\<lparr>md_meta_rights := NA_RIGHT_WAIT\<rparr>\<rparr>"
    by code_simp
  then show "(\<exists>h e. hm_get h (sy_table (cap_run (\<lambda>_. False) example_ops (cap_init 1))) = Some e \<and> ce_object e = Some 7 \<and>
        ce_meta e = example_meta\<lparr>md_meta_rights := NA_RIGHT_WAIT\<rparr>) \<or>
      (\<exists>r \<in> set (sy_pool (cap_run (\<lambda>_. False) example_ops (cap_init 1))). tr_object r = Some 7 \<and>
        tr_meta r = example_meta\<lparr>md_meta_rights := NA_RIGHT_WAIT\<rparr>)"
    by fastforce
qed

text \<open>
  C3. Restoring a batch never fails: whatever other threads did to the table since the batch
  was taken, every moved handle comes back with the entry it had, no other handle changes,
  and the entry count is the same.
\<close>

theorem restore_native_batch_total:
  assumes "s = cap_run unique ops (cap_init this)" "i < length (sy_batches s)"
  shows "\<exists>rs t es. restore_native_batch (sy_batches s ! i) (sy_table s) = (NA_STATUS_OK, rs, t, es) \<and>
    rt_count t = rt_count (sy_table s) \<and>
    (\<forall>h. hm_get h t = (case find (\<lambda>r. rec_moved r \<and> rec_source r = h) (sy_batches s ! i) of
       Some r \<Rightarrow> map_option snd (tk_slot (rec_token r)) | None \<Rightarrow> hm_get h (sy_table s))) \<and>
    (\<forall>r \<in> set (sy_batches s ! i). rec_moved r \<longrightarrow>
       (\<exists>e. hm_get (rec_source r) t = Some e \<and> ce_state e = st_active \<and> ce_object e = tr_object (rec_resource r)))"
proof -
  let ?b = "sy_batches s ! i"
  have ok: "cap_ok s" unfolding assms(1) by (rule cap_run_ok [OF cap_init_ok])
  from assms(2) obtain pre post where split: "sy_batches s = pre @ ?b # post" by (rule remove_nth_split)
  note b = batch_in_flight [OF ok split]
  have get: "hm_get h (fold reattach rs t) = (case find (\<lambda>r. rec_moved r \<and> rec_source r = h) rs of
       Some r \<Rightarrow> map_option snd (tk_slot (rec_token r)) | None \<Rightarrow> hm_get h t)"
    if "list_all (rec_ok this nxt) rs" "distinct (moved_sources rs)" for rs t h this nxt
    using that by (rule fold_reattach_find)
  have "\<exists>e. hm_get (rec_source r) (fold reattach ?b (sy_table s)) = Some e \<and> ce_state e = st_active \<and>
      ce_object e = tr_object (rec_resource r)" if "r \<in> set ?b" "rec_moved r" for r
  proof -
    have "rec_ok (rt_this (sy_table s)) (rt_next (sy_table s)) r" using b(1) that(1) by (simp add: list_all_iff)
    then show ?thesis using that(2) fold_reattach_moved [OF b(1,2) that] by (auto simp: rec_ok_def tk_make_def)
  qed
  then show ?thesis
    by (rule_tac restore_native_batch_ok [OF b(1-3)]) (use get [OF b(1,2)] in auto)
qed

theorem restore_native_batch_total_witness:
  "\<exists>rs t es. restore_native_batch (sy_batches (cap_run (\<lambda>_. False) example_ops (cap_init 1)) ! 0)
     (sy_table (cap_run (\<lambda>_. False) example_ops (cap_init 1))) = (NA_STATUS_OK, rs, t, es)"
proof -
  have "0 < length (sy_batches (cap_run (\<lambda>_. False) example_ops (cap_init 1)))" by code_simp
  from restore_native_batch_total [OF refl this] show ?thesis by blast
qed

text \<open>
  C4. Capabilities for unique objects, such as channel ends, are linear: the number of table
  entries and resources in transit for such an object is at most the number of times it was
  installed or inherited.
\<close>

theorem capability_unique_linear:
  assumes "unique ob" "s = cap_run unique ops (cap_init this)"
  shows "int (length (filter (\<lambda>(h, e). ce_object e = Some ob) (rt_map (sy_table s)))) + in_flight ob s
    \<le> int (length (filter (\<lambda>om. fst om = ob) (concat (map op_origins ops))))"
proof -
  have refs: "tbl_refs ob al = int (length (filter (\<lambda>(h, e). ce_object e = Some ob) al))" for al
    by (induction al) (auto simp: holds_def)
  have "own ob (cap_init this) = 0"
    by (simp add: own_def cap_init_def roots_def rt_new_def in_flight_def pool_transit_def)
  then have "own ob s \<le> (\<Sum>op\<leftarrow>ops. op_owners ob op)"
    using own_run [where unique = unique, OF assms(1) cap_init_ok, of ops this] assms(2) by simp
  also have "(\<Sum>op\<leftarrow>ops. op_owners ob op) = int (length (filter (\<lambda>om. fst om = ob) (concat (map op_origins ops))))"
    by (induction ops) (auto simp: op_owners_def)
  finally show ?thesis by (simp add: own_def roots_def refs)
qed

theorem capability_unique_linear_witness:
  "in_flight 7 (cap_run (\<lambda>ob. ob = 7) example_ops (cap_init 1)) \<le> 1"
  using capability_unique_linear [of "\<lambda>ob. ob = 7" 7, OF refl refl, of example_ops 1]
  by (simp add: example_ops_def)



section \<open>Properties of single operations\<close>

definition taken_ok ::
  "(oid \<Rightarrow> bool) \<Rightarrow> na_handle \<Rightarrow> resource_table \<Rightarrow> resource_table \<Rightarrow> na_resource_disposition \<Rightarrow> transfer_record \<Rightarrow> bool" where
  "taken_ok unique target t t' d r \<longleftrightarrow>
     (case hm_get (ds_handle d) t of
        None \<Rightarrow> False
      | Some e \<Rightarrow>
          ds_handle d \<noteq> target \<and> ce_state e = st_active \<and> ce_object e \<noteq> None \<and>
          md_meta_rights (ce_meta e) AND NA_RIGHT_TRANSFER \<noteq> 0 \<and>
          tr_object (rec_resource r) = ce_object e \<and> meta_le (tr_meta (rec_resource r)) (ce_meta e) \<and>
          (if ds_operation d = NA_RESOURCE_MOVE then hm_get (ds_handle d) t' = None
           else hm_get (ds_handle d) t' = Some e \<and> md_meta_rights (ce_meta e) AND NA_RIGHT_DUPLICATE \<noteq> 0 \<and>
                \<not> unique (the (ce_object e))))"

lemma moved_handles_ok:
  "list_all2 (disposition_ok unique target t) ds snaps \<Longrightarrow>
   set (moved_handles (zip ds snaps)) = ds_handle ` set (filter (\<lambda>d. ds_operation d = NA_RESOURCE_MOVE) ds)"
  by (induction rule: list_all2_induct) (auto simp: disposition_ok_def)

lemma taken_record_ok:
  assumes "disposition_ok unique target t d so"
    "hm_get (ds_handle d) t' = (if ds_operation d = NA_RESOURCE_MOVE then None else hm_get (ds_handle d) t)"
  shows "taken_ok unique target t t' d (taken_record (rt_this t) t (d, so))"
  using assms by (auto simp: taken_ok_def disposition_ok_def taken_record_def snapshot_of_def meta_le_def rights_sub_def)

text \<open>
  C5. Taking a batch is atomic: if any disposition is refused the table is unchanged and no
  hook has run; if the batch is taken, every resource has the object of its source and at
  most its authority, moved handles are gone, duplicated ones are still there (and had the
  right to duplicate, for an object that is not unique), and all other handles are unchanged.
\<close>

theorem take_native_batch_atomic:
  assumes "length ds = unat count"
    "take_native_batch unique mem_ok (Some ds) count target t = (status, rs, t', es)"
  shows "if status = NA_STATUS_OK
    then list_all2 (taken_ok unique target t t') ds rs \<and>
         (\<forall>h. hm_get h t' = (if h \<in> ds_handle ` set (filter (\<lambda>d. ds_operation d = NA_RESOURCE_MOVE) ds) then None else hm_get h t))
    else t' = t \<and> rs = [] \<and> es = []"
proof (cases "status = NA_STATUS_OK")
  case False
  then show ?thesis using take_native_batch_error [OF assms(2)] by simp
next
  case True
  show ?thesis
  proof (rule take_native_batch_cases [OF assms(2) [unfolded True]])
    fix dl snaps
    assume dl: "dl = (case Some ds of None \<Rightarrow> [] | Some l \<Rightarrow> take (unat count) l)"
      and ok: "list_all2 (disposition_ok unique target t) dl snaps" and dist: "distinct (map ds_handle dl)"
      and rs: "rs = map (taken_record (rt_this t) t) (zip dl snaps)" and t': "t' = fold hm_remove (moved_sources rs) t"
    have ds: "dl = ds" using dl assms(1) by simp
    let ?M = "ds_handle ` set (filter (\<lambda>d. ds_operation d = NA_RESOURCE_MOVE) ds)"
    have get: "hm_get h t' = (if h \<in> ?M then None else hm_get h t)" for h
      unfolding t' rs moved_taken using moved_handles_ok [OF ok] by (simp add: hm_remove_fold ds)
    have "ds_handle d \<in> ?M \<longleftrightarrow> ds_operation d = NA_RESOURCE_MOVE" if "d \<in> set ds" for d
      using dist that by (auto simp: ds distinct_map dest: inj_onD)
    then have "taken_ok unique target t t' (ds ! i) (taken_record (rt_this t) t (ds ! i, snaps ! i))" if "i < length ds" for i
      using ok that nth_mem [OF that] by (intro taken_record_ok) (auto simp: ds list_all2_conv_all_nth get)
    then have "list_all2 (taken_ok unique target t t') ds rs"
      using list_all2_lengthD [OF ok] by (simp add: rs ds list_all2_conv_all_nth)
    with get True show ?thesis by simp
  qed
qed

theorem take_native_batch_atomic_witness:
  "\<exists>rs t' es. take_native_batch (\<lambda>_. False) True (Some [example_move 1]) 1 0
     (sy_table (cap_run (\<lambda>_. False) (take 2 example_ops) (cap_init 1))) = (NA_STATUS_OK, rs, t', es) \<and>
     hm_get 1 t' = None"
proof -
  let ?t = "sy_table (cap_run (\<lambda>_. False) (take 2 example_ops) (cap_init 1))"
  obtain status rs t' es where r: "take_native_batch (\<lambda>_. False) True (Some [example_move 1]) 1 0 ?t = (status, rs, t', es)"
    by (cases "take_native_batch (\<lambda>_. False) True (Some [example_move 1]) 1 0 ?t")
  have "fst (take_native_batch (\<lambda>_. False) True (Some [example_move 1]) 1 0 ?t) = NA_STATUS_OK" by code_simp
  with r have "status = NA_STATUS_OK" by simp
  with r take_native_batch_atomic [OF _ r] show ?thesis by (simp add: example_move_def)
qed

text \<open>
  C6. Restricting a handle: once \<^verbatim>\<open>restrict_native\<close> has succeeded, committing it makes the new
  handle the active capability for the object, with the restricted metadata (at most the old
  authority), and removes the old handle; rolling it back gives the old table. Neither changes
  another handle, and neither can fail.
\<close>

theorem restrict_commit_or_rollback:
  assumes "rt_wf n t" "restrict_native h r t = (NA_STATUS_OK, k, backup, t1, es)"
  shows "\<exists>e. lookup_native h t = Some e \<and> backup = e \<and> hm_get k t = None \<and>
    meta_le (restrict_meta r (ce_meta e)) (ce_meta e) \<and>
    (\<exists>t2 es2. commit_restrict h k t1 = (NA_STATUS_OK, t2, es2) \<and> rt_count t2 = rt_count t \<and>
       (\<forall>x. hm_get x t2 = (if x = k then Some (e\<lparr>ce_generation := k, ce_meta := restrict_meta r (ce_meta e)\<rparr>)
                           else if x = h then None else hm_get x t))) \<and>
    (\<exists>t3. rollback_restrict h k backup t1 = (NA_STATUS_OK, t3) \<and> rt_count t3 = rt_count t \<and>
       (\<forall>x. hm_get x t3 = hm_get x t))"
proof (rule restrict_native_cases [OF assms(2)])
  fix e ta
  assume e: "hm_get h t = Some e" "ce_state e = st_active" "\<not> restrict_denied r (ce_meta e)"
    and al: "allocate_native_handle_locked t = (k, ta)" and k: "k \<noteq> NA_HANDLE_INVALID" and b: "backup = e"
    and t1: "t1 = (hm_insert k \<lparr>ce_object = None, ce_generation = k, ce_state = st_reserved, ce_meta = restrict_meta r (ce_meta e)\<rparr>
            (hm_insert h (e\<lparr>ce_state := st_restricting\<rparr>) ta))\<lparr>rt_count := rt_count ta + 1\<rparr>"
  note a = rt_wf_allocate [OF assms(1) al k]
  have ne: "h \<noteq> k" using e a(4) by auto
  have hv: "h \<noteq> NA_HANDLE_INVALID" using rt_wf_entry [OF assms(1) e(1)] by (simp add: entry_ok_def)
  obtain p where p: "ce_object e = Some p" using rt_wf_object [OF assms(1) e(1)] e(2) by auto
  have get: "hm_get x t1 = (if x = k then Some \<lparr>ce_object = None, ce_generation = k, ce_state = st_reserved,
      ce_meta = restrict_meta r (ce_meta e)\<rparr> else if x = h then Some (e\<lparr>ce_state := st_restricting\<rparr>) else hm_get x t)" for x
    unfolding t1 using a(2) by simp
  have cnt: "rt_count t1 - 1 = rt_count t" unfolding t1 using a(2) by simp
  have same: "e\<lparr>ce_state := st_active\<rparr> = e" using e(2) by simp
  have "\<exists>t2 es2. commit_restrict h k t1 = (NA_STATUS_OK, t2, es2) \<and> rt_count t2 = rt_count t \<and>
      (\<forall>x. hm_get x t2 = (if x = k then Some (e\<lparr>ce_generation := k, ce_meta := restrict_meta r (ce_meta e)\<rparr>)
                          else if x = h then None else hm_get x t))"
    using ne hv k p cnt e(2) by (auto simp: commit_restrict_def get h_assign_move_def h_drop_def Let_def)
  moreover have "\<exists>t3. rollback_restrict h k backup t1 = (NA_STATUS_OK, t3) \<and> rt_count t3 = rt_count t \<and>
      (\<forall>x. hm_get x t3 = hm_get x t)"
    using ne hv k p cnt e same a(4) by (auto simp: rollback_restrict_def get b Let_def)
  ultimately show ?thesis
    using e b a(4) restrict_meta_le [OF e(3)] by (auto simp: lookup_native_def)
qed

definition example_restriction :: na_handle_restriction where
  "example_restriction = \<lparr>rs_struct_size = 48, rs_flags = NA_RESTRICTION_META_RIGHTS, rs_scope = 0, rs_revision = 0,
     rs_features = 0, rs_meta_rights = NA_RIGHT_WAIT, rs_protocol_rights = 0\<rparr>"

theorem restrict_commit_or_rollback_witness:
  "\<exists>k t1 es t2 es2 b. restrict_native 1 example_restriction (sy_table (cap_run (\<lambda>_. False) (take 2 example_ops) (cap_init 1))) =
     (NA_STATUS_OK, k, b, t1, es) \<and> commit_restrict 1 k t1 = (NA_STATUS_OK, t2, es2)"
proof -
  let ?t = "sy_table (cap_run (\<lambda>_. False) (take 2 example_ops) (cap_init 1))"
  have wf: "rt_wf 0 ?t" by code_simp
  have "fst (restrict_native 1 example_restriction ?t) = NA_STATUS_OK" by code_simp
  then obtain k b t1 es where r: "restrict_native 1 example_restriction ?t = (NA_STATUS_OK, k, b, t1, es)"
    by (metis prod.collapse)
  from restrict_commit_or_rollback [OF wf r] r show ?thesis by blast
qed



end
