(* ===== verification/Usercopy.thy ===== *)
theory Usercopy
  imports Naos_Prelude
begin

text \<open>
  \<^verbatim>\<open>kernel/usercopy.hpp\<close>, \<^verbatim>\<open>kernel/usercopy.cc\<close> and the range checks of
  \<^verbatim>\<open>kernel/arch/klib.hpp\<close>: copying between the kernel and user memory.

  User memory is a partial function from addresses to bytes: an unmapped address faults, and
  a mapped one may be read-only. \<^verbatim>\<open>rep movsb\<close> copies upwards byte by byte, so a copy to user
  memory that faults has written the bytes before the fault. \<open>um_thread\<close> says whether there is
  a current thread. A source or destination pointer of the kernel is null when it is \<open>None\<close>
  (or when the flag \<open>dest\<close> is false). Frames are little-endian byte sequences.
\<close>

section \<open>Ranges\<close>

definition maximum_user_addr :: u64 where
  "maximum_user_addr = 0x00007FFFFFFFFFFF"

definition minimum_user_addr :: u64 where
  "minimum_user_addr = 0"

definition is_user_space_pointer :: "u64 \<Rightarrow> bool" where
  "is_user_space_pointer address \<longleftrightarrow>
     address \<noteq> 0 \<and> address \<ge> minimum_user_addr \<and> address \<le> maximum_user_addr"

definition is_user_space_pointer_or_null :: "u64 \<Rightarrow> bool" where
  "is_user_space_pointer_or_null address \<longleftrightarrow>
     address = 0 \<or> (address \<ge> minimum_user_addr \<and> address \<le> maximum_user_addr)"

definition is_user_space_range :: "u64 \<Rightarrow> u64 \<Rightarrow> bool" where
  "is_user_space_range address sz \<longleftrightarrow>
     (if sz = 0 then address = 0 \<or> is_user_space_pointer address
      else is_user_space_pointer address \<and> sz - 1 \<le> maximum_user_addr - address)"

definition valid_range :: "u64 \<Rightarrow> u64 \<Rightarrow> bool" where
  "valid_range address sz \<longleftrightarrow> (if sz = 0 then address = 0 else is_user_space_range address sz)"

definition valid_output_range :: "u64 \<Rightarrow> u64 \<Rightarrow> bool" where
  "valid_output_range address capacity \<longleftrightarrow>
     (if capacity = 0 then address = 0 else is_user_space_range address capacity)"

definition valid_struct_size :: "u32 \<Rightarrow> u64 \<Rightarrow> bool" where
  "valid_struct_size actual expected \<longleftrightarrow> ucast actual \<ge> expected"

definition ranges_overlap :: "u64 \<Rightarrow> u64 \<Rightarrow> u64 \<Rightarrow> u64 \<Rightarrow> bool" where
  "ranges_overlap first first_size second second_size =
     (if first_size = 0 \<or> second_size = 0 then False
      else if \<not> valid_range first first_size \<or> \<not> valid_range second second_size then True
      else if first < second then second - first < first_size else first - second < second_size)"

section \<open>Copies\<close>

record umem =
  um_thread :: bool
  um_bytes :: "u64 \<Rightarrow> byte option"
  um_writable :: "u64 \<Rightarrow> bool"

fun read_bytes :: "umem \<Rightarrow> u64 \<Rightarrow> nat \<Rightarrow> byte list option" where
  "read_bytes m a 0 = Some []"
| "read_bytes m a (Suc n) =
     (case um_bytes m a of None \<Rightarrow> None | Some b \<Rightarrow> map_option ((#) b) (read_bytes m (a + 1) n))"

fun write_bytes :: "u64 \<Rightarrow> byte list \<Rightarrow> umem \<Rightarrow> bool \<times> umem" where
  "write_bytes a [] m = (True, m)"
| "write_bytes a (b # bs) m =
     (if um_bytes m a = None \<or> \<not> um_writable m a then (False, m)
      else write_bytes (a + 1) bs (m\<lparr>um_bytes := (um_bytes m)(a := Some b)\<rparr>))"

definition copy_from :: "umem \<Rightarrow> bool \<Rightarrow> u64 \<Rightarrow> u64 \<Rightarrow> na_status + byte list" where
  "copy_from m dest source sz =
     (if sz = 0 then Inr []
      else if \<not> dest \<or> \<not> is_user_space_range source sz then Inl NA_STATUS_FAULT
      else if \<not> um_thread m then Inl NA_STATUS_FAULT
      else case read_bytes m source (unat sz) of
        None \<Rightarrow> Inl NA_STATUS_FAULT
      | Some bs \<Rightarrow> Inr bs)"

definition copy_to :: "umem \<Rightarrow> u64 \<Rightarrow> byte list option \<Rightarrow> u64 \<Rightarrow> na_status \<times> umem" where
  "copy_to m destination source sz =
     (if sz = 0 then (NA_STATUS_OK, m)
      else case source of
        None \<Rightarrow> (NA_STATUS_FAULT, m)
      | Some bs \<Rightarrow>
          if \<not> is_user_space_range destination sz then (NA_STATUS_FAULT, m)
          else if \<not> um_thread m then (NA_STATUS_FAULT, m)
          else let (ok, m') = write_bytes destination (take (unat sz) bs) m
               in (if ok then NA_STATUS_OK else NA_STATUS_FAULT, m'))"

text \<open>Little-endian integers in a frame.\<close>

fun le_nat :: "byte list \<Rightarrow> nat" where
  "le_nat [] = 0"
| "le_nat (b # bs) = unat b + 256 * le_nat bs"

fun le_bytes :: "nat \<Rightarrow> nat \<Rightarrow> byte list" where
  "le_bytes 0 n = []"
| "le_bytes (Suc k) n = of_nat n # le_bytes k (n div 256)"

definition get_u32 :: "byte list \<Rightarrow> nat \<Rightarrow> u32" where
  "get_u32 bs offset = of_nat (le_nat (take 4 (drop offset bs)))"

definition get_u64 :: "byte list \<Rightarrow> nat \<Rightarrow> u64" where
  "get_u64 bs offset = of_nat (le_nat (take 8 (drop offset bs)))"

definition put_u32 :: "u32 \<Rightarrow> byte list" where
  "put_u32 w = le_bytes 4 (unat w)"

definition put_u64 :: "u64 \<Rightarrow> byte list" where
  "put_u64 w = le_bytes 8 (unat w)"

text \<open>The frame of \<open>sz\<close> bytes at \<open>source\<close>, after a look at the size it declares.\<close>

definition copy_versioned :: "umem \<Rightarrow> u64 \<Rightarrow> u64 \<Rightarrow> na_status + byte list" where
  "copy_versioned m sz source =
     (if source = 0 \<or> \<not> is_user_space_range source 4 then Inl NA_STATUS_FAULT
      else case copy_from m True source 4 of
        Inl status \<Rightarrow> Inl status
      | Inr bs \<Rightarrow>
          if \<not> valid_struct_size (get_u32 bs 0) sz then Inl NA_STATUS_INVALID_ARGUMENT
          else copy_from m True source sz)"

text \<open>The recovery from a page fault inside a copy: the thread's continuation and the faulting registers.\<close>

record usercopy_thread =
  ut_active :: bool
  ut_resume :: u64

record fault_regs =
  fr_cs :: u64
  fr_rip :: u64

definition recover_page_fault :: "usercopy_thread option \<Rightarrow> fault_regs option \<Rightarrow> bool \<times> fault_regs option" where
  "recover_page_fault thread regs =
     (case (thread, regs) of
        (Some t, Some r) \<Rightarrow>
          if \<not> ut_active t \<or> ut_resume t = 0 then (False, regs)
          else if fr_cs r AND 3 \<noteq> 0 then (False, regs)
          else (True, Some (r\<lparr>fr_rip := ut_resume t\<rparr>))
      | _ \<Rightarrow> (False, regs))"

section \<open>Facts\<close>

lemma user_range_bounds:
  assumes "valid_range a n" "n \<noteq> 0"
  shows "a \<noteq> 0" "unat a + unat n \<le> 2 ^ 47"
proof -
  have a: "a \<noteq> 0" "a \<le> maximum_user_addr" "n - 1 \<le> maximum_user_addr - a"
    using assms by (auto simp: valid_range_def is_user_space_range_def is_user_space_pointer_def)
  show "a \<noteq> 0" by (rule a)
  have m: "unat maximum_user_addr = 2 ^ 47 - 1" by (simp add: maximum_user_addr_def)
  have "unat (n - 1) \<le> unat (maximum_user_addr - a)" using a(3) by (simp add: word_le_nat_alt)
  moreover have "unat (maximum_user_addr - a) = 2 ^ 47 - 1 - unat a" using a(2) m by (simp add: unat_sub)
  moreover have "unat (n - 1) = unat n - 1" using assms(2) by (simp add: unat_minus_one)
  moreover have "unat n > 0" using assms(2) by (simp add: unat_gt_0)
  moreover have "unat a \<le> 2 ^ 47 - 1" using a(2) m by (simp add: word_le_nat_alt)
  ultimately show "unat a + unat n \<le> 2 ^ 47" by simp
qed

lemma le_nat_bytes: "le_nat (le_bytes k n) = n mod 256 ^ k"
proof (induction k arbitrary: n)
  case (Suc k)
  have "unat (of_nat n :: byte) = n mod 256" by (simp add: unat_of_nat)
  then show ?case using Suc mod_mult2_eq [of n 256 "256 ^ k"] by simp
qed simp

lemma length_le_bytes [simp]: "length (le_bytes k n) = k"
  by (induction k arbitrary: n) auto

lemma length_put [simp]: "length (put_u32 w) = 4" "length (put_u64 v) = 8"
  by (simp_all add: put_u32_def put_u64_def)

lemma get_put_u32: "length pre = n \<Longrightarrow> get_u32 (pre @ put_u32 w @ post) n = w"
  using unsigned_less [of w, where ?'a = nat]
  by (simp add: get_u32_def put_u32_def le_nat_bytes)

lemma get_put_u64: "length pre = n \<Longrightarrow> get_u64 (pre @ put_u64 w @ post) n = w"
  using unsigned_less [of w, where ?'a = nat]
  by (simp add: get_u64_def put_u64_def le_nat_bytes)

lemma write_bytes_frame:
  "write_bytes a bs m = (ok, m') \<Longrightarrow> um_thread m' = um_thread m \<and> um_writable m' = um_writable m \<and>
   (\<forall>x. (\<forall>i < length bs. x \<noteq> a + of_nat i) \<longrightarrow> um_bytes m' x = um_bytes m x)"
proof (induction a bs m rule: write_bytes.induct)
  case (2 a b bs m)
  show ?case
  proof (cases "um_bytes m a = None \<or> \<not> um_writable m a")
    case False
    with 2 have IH: "um_thread m' = um_thread m \<and> um_writable m' = um_writable m \<and>
        (\<forall>x. (\<forall>i < length bs. x \<noteq> a + 1 + of_nat i) \<longrightarrow> um_bytes m' x = ((um_bytes m)(a := Some b)) x)"
      by auto
    moreover have "um_bytes m' x = um_bytes m x" if "\<forall>i < length (b # bs). x \<noteq> a + of_nat i" for x
    proof -
      have "x \<noteq> a" using that by (force dest: spec [of _ 0])
      moreover have "\<forall>i < length bs. x \<noteq> a + 1 + of_nat i"
        using that by (auto dest: spec [of _ "Suc _"] simp: add_ac)
      ultimately show ?thesis using IH by simp
    qed
    ultimately show ?thesis by blast
  qed (use 2 in auto)
qed simp

lemma write_read_bytes:
  assumes "write_bytes a bs m = (True, m')" "unat a + length bs \<le> 2 ^ 63"
  shows "read_bytes m' a (length bs) = Some bs"
  using assms
proof (induction a bs m rule: write_bytes.induct)
  case (2 a b bs m)
  let ?m = "m\<lparr>um_bytes := (um_bytes m)(a := Some b)\<rparr>"
  have w: "write_bytes (a + 1) bs ?m = (True, m')" and c: "\<not> (um_bytes m a = None \<or> \<not> um_writable m a)"
    using "2.prems"(1) by (auto split: if_splits)
  have a1: "unat (a + 1) = unat a + 1" using "2.prems"(2) by (subst unat_add_no_wrap) auto
  have "a \<noteq> a + 1 + of_nat i" if "i < length bs" for i
  proof
    assume "a = a + 1 + of_nat i"
    then have "unat a = unat (a + 1 + of_nat i)" by (rule arg_cong)
    moreover have "unat (of_nat i :: u64) = i" using that "2.prems"(2) by (simp add: unat_of_nat)
    moreover have "unat (a + 1 + of_nat i) = unat a + 1 + i"
      using that "2.prems"(2) calculation(2) a1 by (subst unat_add_no_wrap) auto
    ultimately show False by simp
  qed
  then have "um_bytes m' a = Some b" using write_bytes_frame [OF w] by simp
  moreover have "read_bytes m' (a + 1) (length bs) = Some bs"
    using "2.IH" [OF c w] "2.prems"(2) a1 by simp
  ultimately show ?case by simp
qed simp

lemma interval_meet:
  assumes "0 < n" "0 < k" "a \<le> (b :: nat)"
  shows "b - a < n \<longleftrightarrow> {a ..< a + n} \<inter> {b ..< b + k} \<noteq> {}"
proof -
  have "b \<in> {a ..< a + n} \<inter> {b ..< b + k} \<longleftrightarrow> b - a < n" using assms by auto
  moreover have "b \<in> {a ..< a + n}" if "x \<in> {a ..< a + n} \<inter> {b ..< b + k}" for x using that assms(3) by auto
  ultimately show ?thesis using assms(2) by auto
qed

section \<open>Properties\<close>



text \<open>
  C37. What a copy to user memory wrote, a copy from there reads: after \<^verbatim>\<open>copy_to\<close> succeeds,
  \<^verbatim>\<open>copy_from\<close> of the same range returns the bytes, and no byte outside the range has changed.
\<close>

theorem usercopy_roundtrip:
  assumes "copy_to m a (Some bs) n = (NA_STATUS_OK, m')" "length bs = unat n" "n \<noteq> 0"
  shows "copy_from m' True a n = Inr bs \<and>
    (\<forall>x. x < a \<or> unat x \<ge> unat a + unat n \<longrightarrow> um_bytes m' x = um_bytes m x)"
proof -
  have w: "write_bytes a bs m = (True, m')" and r: "is_user_space_range a n" and t: "um_thread m"
    using assms by (auto simp: copy_to_def Let_def split: if_splits prod.splits)
  have v: "valid_range a n" using r assms(3) by (simp add: valid_range_def)
  have bnd: "unat a + length bs \<le> 2 ^ 47" using user_range_bounds(2) [OF v assms(3)] assms(2) by simp
  have "x \<noteq> a + of_nat i" if "x < a \<or> unat x \<ge> unat a + unat n" "i < length bs" for x i
  proof -
    have "unat (of_nat i :: u64) = i" using that(2) bnd by (simp add: unat_of_nat)
    then have "unat (a + of_nat i) = unat a + i" using that(2) bnd by (subst unat_add_no_wrap) auto
    then show ?thesis using that assms(2) by (auto simp: word_less_nat_alt)
  qed
  then show ?thesis
    using write_read_bytes [OF w] write_bytes_frame [OF w] bnd assms r t by (auto simp: copy_from_def)
qed

theorem usercopy_roundtrip_witness:
  "\<exists>m'. copy_to \<lparr>um_thread = True, um_bytes = \<lambda>_. Some 0, um_writable = \<lambda>_. True\<rparr> 0x2000 (Some [1, 2]) 2 = (NA_STATUS_OK, m') \<and>
     copy_from m' True 0x2000 2 = Inr [1, 2]"
proof -
  let ?m = "\<lparr>um_thread = True, um_bytes = \<lambda>_. Some 0, um_writable = \<lambda>_. True\<rparr>"
  have "fst (copy_to ?m 0x2000 (Some [1, 2]) 2) = NA_STATUS_OK" by code_simp
  then obtain m' where m: "copy_to ?m 0x2000 (Some [1, 2]) 2 = (NA_STATUS_OK, m')" by (metis prod.collapse)
  from usercopy_roundtrip [OF m] m show ?thesis by simp
qed

end
