(* ===== verification/Channel.thy ===== *)
theory Channel
  imports Bounded_Queue Resource_Table Usercopy "HOL-Library.Monad_Syntax"
begin

text \<open>
  \<^verbatim>\<open>ipc/channel.hpp\<close> and the channel states of \<^verbatim>\<open>ipc/channel.cc\<close>: messages, the two bounded
  queues of a channel with their quotas, the global quotas, and the endpoint objects with
  their capability hooks.

  The kernel heap is a record of association lists: the channel states, the messages and the
  kernel objects by their address. Address 0 is the null pointer. Every dereference looks the
  address up, and the operation is \<open>None\<close> when the memory has been freed, so that an operation
  that returns \<open>Some\<close> has used no freed memory. The spin lock of a state makes each operation
  on it atomic. The parameter \<open>mem\<close> says which allocations succeed.
\<close>

datatype alloc_site =
    A_state | A_queue nat | A_storage nat | A_registry | A_endpoint nat
  | A_message | A_message_bytes | A_message_resources | A_dispositions | A_batch | A_reserved
  | A_marked | A_discarded | A_snapshot | A_waiters

type_synonym sptr = nat
type_synonym mptr = nat

section \<open>Quota counters\<close>

record globals =
  g_messages :: u64
  g_bytes :: u64
  g_resources :: u64

definition reserve_counter :: "u64 \<Rightarrow> u64 \<Rightarrow> u64 \<Rightarrow> bool \<times> u64" where
  "reserve_counter counter amount limit =
     (if amount > limit then (False, counter)
      else if counter > limit - amount then (False, counter)
      else (True, counter + amount))"

definition release_counter :: "u64 \<Rightarrow> u64 \<Rightarrow> u64" where
  "release_counter counter amount = counter - amount"

definition reserve_global :: "u64 \<Rightarrow> u64 \<Rightarrow> globals \<Rightarrow> bool \<times> globals" where
  "reserve_global bytes resources g =
     (let (ok, n) = reserve_counter (g_messages g) 1 NA_CHANNEL_GLOBAL_MAX_MESSAGES
      in if \<not> ok then (False, g)
         else let g1 = g\<lparr>g_messages := n\<rparr>;
                  (ok, b) = reserve_counter (g_bytes g1) bytes NA_CHANNEL_GLOBAL_MAX_BYTES
              in if \<not> ok then (False, g1\<lparr>g_messages := release_counter (g_messages g1) 1\<rparr>)
                 else let g2 = g1\<lparr>g_bytes := b\<rparr>;
                          (ok, r) = reserve_counter (g_resources g2) resources NA_CHANNEL_GLOBAL_MAX_RESOURCES
                      in if \<not> ok
                         then (False, g2\<lparr>g_bytes := release_counter (g_bytes g2) bytes,
                                         g_messages := release_counter (g_messages g2) 1\<rparr>)
                         else (True, g2\<lparr>g_resources := r\<rparr>))"

definition release_global :: "u64 \<Rightarrow> u64 \<Rightarrow> globals \<Rightarrow> globals" where
  "release_global bytes resources g =
     g\<lparr>g_messages := release_counter (g_messages g) 1,
       g_bytes := release_counter (g_bytes g) bytes,
       g_resources := release_counter (g_resources g) resources\<rparr>"

section \<open>Messages\<close>

text \<open>\<open>cm_storage\<close> says whether the resource vector has storage (\<^verbatim>\<open>resources_.data() != nullptr\<close>).\<close>

record channel_message =
  cm_bytes :: "byte list option"
  cm_byte_count :: u64
  cm_resource_capacity :: u64
  cm_storage :: bool
  cm_resources :: "transferred_resource list"

definition message_new :: "bool \<Rightarrow> bool \<Rightarrow> u64 \<Rightarrow> u64 \<Rightarrow> channel_message" where
  "message_new bytes_ok storage_ok byte_count resource_count =
     \<lparr>cm_bytes = (if byte_count \<noteq> 0 \<and> bytes_ok then Some (replicate (unat byte_count) 0) else None),
      cm_byte_count = byte_count, cm_resource_capacity = resource_count,
      cm_storage = storage_ok, cm_resources = []\<rparr>"

definition message_valid :: "channel_message \<Rightarrow> bool" where
  "message_valid m \<longleftrightarrow>
     (cm_byte_count m = 0 \<or> cm_bytes m \<noteq> None) \<and> (cm_resource_capacity m = 0 \<or> cm_storage m)"

definition resource_count :: "channel_message \<Rightarrow> u64" where
  "resource_count m = of_nat (length (cm_resources m))"

text \<open>Appending moves the resource into the message; the result has what is left of the source.\<close>

definition message_append ::
  "transferred_resource \<Rightarrow> channel_message \<Rightarrow> bool \<times> transferred_resource \<times> channel_message" where
  "message_append resource m =
     (if resource_count m \<ge> cm_resource_capacity m then (False, resource, m)
      else let (moved, rest) = tr_move resource
           in (True, rest, m\<lparr>cm_resources := cm_resources m @ [moved]\<rparr>))"

section \<open>Channel states\<close>

record channel_queue =
  cq_fifo :: "mptr bounded_queue"
  cq_bytes :: u64
  cq_resources :: u64

record channel_state =
  cs_queues :: "nat \<Rightarrow> channel_queue"
  cs_max_messages :: u64
  cs_max_bytes :: u64
  cs_max_resources :: u64
  cs_owners :: "nat \<Rightarrow> u64"
  cs_roots :: "nat \<Rightarrow> u64"
  cs_operations :: u64
  cs_claims :: u64
  cs_objects :: u64
  cs_valid :: bool

text \<open>
  A queue that could not be allocated is one without storage. The state is valid when both
  queues have storage and the state could be put into the registry.
\<close>

definition allocate_queue_storage :: "bool \<Rightarrow> u64 \<Rightarrow> mptr list option" where
  "allocate_queue_storage ok capacity = (if ok then Some (replicate (unat capacity) 0) else None)"

definition queue_new :: "mptr list option \<Rightarrow> u64 \<Rightarrow> channel_queue" where
  "queue_new storage capacity = \<lparr>cq_fifo = bq_new storage (unat capacity), cq_bytes = 0, cq_resources = 0\<rparr>"

definition channel_state_new :: "(alloc_site \<Rightarrow> bool) \<Rightarrow> u64 \<Rightarrow> u64 \<Rightarrow> u64 \<Rightarrow> channel_state" where
  "channel_state_new mem max_messages max_bytes max_resources =
     (let storage = (\<lambda>side. allocate_queue_storage (mem (A_storage side) \<and> mem (A_queue side)) max_messages)
      in \<lparr>cs_queues = (\<lambda>side. queue_new (storage side) max_messages),
          cs_max_messages = max_messages, cs_max_bytes = max_bytes, cs_max_resources = max_resources,
          cs_owners = (\<lambda>_. 0), cs_roots = (\<lambda>_. 0), cs_operations = 0, cs_claims = 0, cs_objects = 0,
          cs_valid = storage 0 \<noteq> None \<and> storage 1 \<noteq> None \<and> mem A_registry\<rparr>)"

definition state_signals :: "channel_state \<Rightarrow> nat \<Rightarrow> na_signal" where
  "state_signals st side =
     (if \<not> cs_valid st \<or> side > 1 then 0
      else let queue = cs_queues st side; send_queue = cs_queues st (1 - side); peer = 1 - side
           in (if \<not> bq_empty (cq_fifo queue) then NA_SIGNAL_READABLE else 0) OR
              (if cs_owners st peer \<noteq> 0 \<and> \<not> bq_full (cq_fifo send_queue) \<and>
                  cq_bytes send_queue < cs_max_bytes st \<and> cq_resources send_queue < cs_max_resources st
               then NA_SIGNAL_WRITABLE else 0) OR
              (if cs_owners st peer = 0 then NA_SIGNAL_PEER_CLOSED else 0))"

definition queued_messages :: "channel_state \<Rightarrow> nat \<Rightarrow> u64" where
  "queued_messages st side =
     (if \<not> cs_valid st \<or> side > 1 then 0 else of_nat (bq_count (cq_fifo (cs_queues st side))))"

definition capability_acquired :: "nat \<Rightarrow> location \<Rightarrow> channel_state \<Rightarrow> channel_state" where
  "capability_acquired side wh st =
     (if side > 1 then st
      else let st1 = st\<lparr>cs_owners := (cs_owners st)(side := cs_owners st side + 1)\<rparr>
           in if wh = table_root then st1\<lparr>cs_roots := (cs_roots st1)(side := cs_roots st1 side + 1)\<rparr> else st1)"

definition capability_released :: "nat \<Rightarrow> location \<Rightarrow> channel_state \<Rightarrow> channel_state" where
  "capability_released side wh st =
     (if side > 1 then st
      else let st1 = st\<lparr>cs_owners := (cs_owners st)(side := cs_owners st side - 1)\<rparr>
           in if wh = table_root then st1\<lparr>cs_roots := (cs_roots st1)(side := cs_roots st1 side - 1)\<rparr> else st1)"

definition kernel_owner_acquired :: "nat \<Rightarrow> channel_state \<Rightarrow> channel_state" where
  "kernel_owner_acquired side st =
     (if side \<le> 1 then st\<lparr>cs_owners := (cs_owners st)(side := cs_owners st side + 1)\<rparr> else st)"

definition kernel_owner_released :: "nat \<Rightarrow> channel_state \<Rightarrow> channel_state" where
  "kernel_owner_released side st =
     (if side \<le> 1 then st\<lparr>cs_owners := (cs_owners st)(side := cs_owners st side - 1)\<rparr> else st)"

definition endpoint_object_created :: "channel_state \<Rightarrow> channel_state" where
  "endpoint_object_created st = st\<lparr>cs_objects := cs_objects st + 1\<rparr>"

definition endpoint_object_destroyed :: "channel_state \<Rightarrow> channel_state" where
  "endpoint_object_destroyed st = st\<lparr>cs_objects := cs_objects st - 1\<rparr>"

definition begin_operation :: "channel_state \<Rightarrow> channel_state" where
  "begin_operation st = st\<lparr>cs_operations := cs_operations st + 1\<rparr>"

definition end_operation :: "channel_state \<Rightarrow> channel_state" where
  "end_operation st = st\<lparr>cs_operations := cs_operations st - 1\<rparr>"

definition has_root :: "channel_state \<Rightarrow> bool" where
  "has_root st \<longleftrightarrow> cs_roots st 0 \<noteq> 0 \<or> cs_roots st 1 \<noteq> 0"

definition can_reap :: "channel_state \<Rightarrow> bool" where
  "can_reap st \<longleftrightarrow> \<not> has_root st \<and> cs_operations st = 0 \<and> cs_claims st = 0"

section \<open>The kernel heap\<close>

text \<open>
  A kernel object is a channel endpoint or an object of another class, of which the channels
  only see whether it is unique and which signals it has. \<open>ko_refs\<close> is the reference count of
  its control block; \<open>kw_next\<close> gives out fresh addresses.
\<close>

datatype object_kind = ko_endpoint sptr nat | ko_other ktype bool na_signal

record kernel_object =
  ko_refs :: nat
  ko_kind :: object_kind

record kworld =
  kw_states :: "(sptr \<times> channel_state) list"
  kw_messages :: "(mptr \<times> channel_message) list"
  kw_objects :: "(oid \<times> kernel_object) list"
  kw_registry :: "sptr list"
  kw_globals :: globals
  kw_generation :: u64
  kw_next :: nat

definition get_state :: "kworld \<Rightarrow> sptr \<Rightarrow> channel_state option" where
  "get_state w s = map_of (kw_states w) s"

definition put_state :: "sptr \<Rightarrow> channel_state \<Rightarrow> kworld \<Rightarrow> kworld" where
  "put_state s st w = w\<lparr>kw_states := AList.update s st (kw_states w)\<rparr>"

definition get_message :: "kworld \<Rightarrow> mptr \<Rightarrow> channel_message option" where
  "get_message w m = map_of (kw_messages w) m"

definition put_message :: "mptr \<Rightarrow> channel_message \<Rightarrow> kworld \<Rightarrow> kworld" where
  "put_message m msg w = w\<lparr>kw_messages := AList.update m msg (kw_messages w)\<rparr>"

definition get_object :: "kworld \<Rightarrow> oid \<Rightarrow> kernel_object option" where
  "get_object w ob = map_of (kw_objects w) ob"

definition put_object :: "oid \<Rightarrow> kernel_object \<Rightarrow> kworld \<Rightarrow> kworld" where
  "put_object ob obj w = w\<lparr>kw_objects := AList.update ob obj (kw_objects w)\<rparr>"

definition on_state :: "sptr \<Rightarrow> (channel_state \<Rightarrow> channel_state) \<Rightarrow> kworld \<Rightarrow> kworld option" where
  "on_state s f w = do { st \<leftarrow> get_state w s; Some (put_state s (f st) w) }"

definition notify_channel_waiters :: "kworld \<Rightarrow> kworld" where
  "notify_channel_waiters w = w\<lparr>kw_generation := kw_generation w + 1\<rparr>"

definition register_state :: "sptr \<Rightarrow> kworld \<Rightarrow> kworld" where
  "register_state s w = w\<lparr>kw_registry := kw_registry w @ [s]\<rparr>"

definition unregister_state :: "sptr \<Rightarrow> kworld \<Rightarrow> kworld" where
  "unregister_state s w = w\<lparr>kw_registry := remove1 s (kw_registry w)\<rparr>"

section \<open>Endpoints: capability hooks and destruction\<close>

definition endpoint_hook :: "(nat \<Rightarrow> channel_state \<Rightarrow> channel_state) \<Rightarrow> oid \<Rightarrow> kworld \<Rightarrow> kworld option" where
  "endpoint_hook f ob w =
     do { obj \<leftarrow> get_object w ob;
          (case ko_kind obj of
             ko_endpoint s side \<Rightarrow> if s = 0 then Some w else on_state s (f side) w
           | ko_other _ _ _ \<Rightarrow> Some w) }"

definition on_capability_acquire :: "location \<Rightarrow> oid \<Rightarrow> kworld \<Rightarrow> kworld option" where
  "on_capability_acquire wh = endpoint_hook (\<lambda>side. capability_acquired side wh)"

definition on_capability_release :: "location \<Rightarrow> oid \<Rightarrow> kworld \<Rightarrow> kworld option" where
  "on_capability_release wh = endpoint_hook (\<lambda>side. capability_released side wh)"

definition on_capability_handoff :: "location \<Rightarrow> location \<Rightarrow> oid \<Rightarrow> kworld \<Rightarrow> kworld option" where
  "on_capability_handoff from_where to_where = endpoint_hook (\<lambda>side. capability_released side from_where)"

text \<open>The last reference destroys the object; an endpoint then leaves its channel state.\<close>

definition destroy_object :: "oid \<Rightarrow> kworld \<Rightarrow> kworld option" where
  "destroy_object ob w =
     do { w1 \<leftarrow> endpoint_hook (\<lambda>side. endpoint_object_destroyed) ob w;
          Some (w1\<lparr>kw_objects := AList.delete ob (kw_objects w1)\<rparr>) }"

definition object_ref :: "oid \<Rightarrow> kworld \<Rightarrow> kworld option" where
  "object_ref ob w = do { obj \<leftarrow> get_object w ob; Some (put_object ob (obj\<lparr>ko_refs := ko_refs obj + 1\<rparr>) w) }"

definition object_unref :: "oid \<Rightarrow> kworld \<Rightarrow> kworld option" where
  "object_unref ob w =
     do { obj \<leftarrow> get_object w ob;
          (if ko_refs obj \<le> 1 then destroy_object ob w
           else Some (put_object ob (obj\<lparr>ko_refs := ko_refs obj - 1\<rparr>) w)) }"

fun apply_event :: "cap_event \<Rightarrow> kworld \<Rightarrow> kworld option" where
  "apply_event (Ev_acquire ob wh) w = on_capability_acquire wh ob w"
| "apply_event (Ev_release ob wh) w = on_capability_release wh ob w"
| "apply_event (Ev_handoff ob wh wh') w = on_capability_handoff wh wh' ob w"
| "apply_event (Ev_ref ob) w = object_ref ob w"
| "apply_event (Ev_unref ob) w = object_unref ob w"

fun apply_events :: "cap_event list \<Rightarrow> kworld \<Rightarrow> kworld option" where
  "apply_events [] w = Some w"
| "apply_events (e # es) w = do { w1 \<leftarrow> apply_event e w; apply_events es w1 }"

definition endpoint_of :: "kworld \<Rightarrow> oid \<Rightarrow> (sptr \<times> nat) option" where
  "endpoint_of w ob =
     (case get_object w ob of
        Some obj \<Rightarrow> (case ko_kind obj of ko_endpoint s side \<Rightarrow> Some (s, side) | _ \<Rightarrow> None)
      | None \<Rightarrow> None)"

definition object_unique :: "kworld \<Rightarrow> oid \<Rightarrow> bool" where
  "object_unique w ob =
     (case get_object w ob of
        Some obj \<Rightarrow> (case ko_kind obj of ko_endpoint _ _ \<Rightarrow> True | ko_other _ unique _ \<Rightarrow> unique)
      | None \<Rightarrow> False)"

definition object_signals :: "kworld \<Rightarrow> oid \<Rightarrow> na_signal" where
  "object_signals w ob =
     (case get_object w ob of
        Some obj \<Rightarrow>
          (case ko_kind obj of
             ko_endpoint s side \<Rightarrow>
               if s = 0 then 0 else (case get_state w s of Some st \<Rightarrow> state_signals st side | None \<Rightarrow> 0)
           | ko_other _ _ signals \<Rightarrow> signals)
      | None \<Rightarrow> 0)"

text \<open>Deleting a message destroys its resources.\<close>

definition delete_message :: "mptr \<Rightarrow> kworld \<Rightarrow> kworld option" where
  "delete_message m w =
     do { msg \<leftarrow> get_message w m;
          apply_events (concat (map tr_destroy (cm_resources msg)))
            (w\<lparr>kw_messages := AList.delete m (kw_messages w)\<rparr>) }"

section \<open>Enqueue\<close>

text \<open>
  The loop that moves the resources of the records into the message: it stops at the first
  resource the message does not take. The result has the records and how many were moved.
\<close>

fun append_all ::
  "transfer_record list \<Rightarrow> channel_message \<Rightarrow> bool \<times> nat \<times> transfer_record list \<times> channel_message" where
  "append_all [] m = (True, 0, [], m)"
| "append_all (r # rs) m =
     (case message_append (rec_resource r) m of
        (False, _, _) \<Rightarrow> (False, 0, r # rs, m)
      | (True, rest, m1) \<Rightarrow>
          (let (ok, n, rs', m2) = append_all rs m1 in (ok, n + 1, r\<lparr>rec_resource := rest\<rparr> # rs', m2)))"

text \<open>
  Moving resource \<open>i\<close> of the message back into record \<open>i\<close>, and the loops that do it on failure.
  The record's own resource is empty then, so that the move assignment runs no hook.
\<close>

definition move_back_one ::
  "nat \<Rightarrow> transfer_record list \<times> channel_message \<Rightarrow> transfer_record list \<times> channel_message" where
  "move_back_one i rm =
     (let (rs, m) = rm;
          (new, rest, es) = tr_assign_move (rec_resource (rs ! i)) (cm_resources m ! i)
      in (rs[i := (rs ! i)\<lparr>rec_resource := new\<rparr>], m\<lparr>cm_resources := (cm_resources m)[i := rest]\<rparr>))"

definition move_back ::
  "nat \<Rightarrow> transfer_record list \<Rightarrow> channel_message \<Rightarrow> transfer_record list \<times> channel_message" where
  "move_back n rs m = fold move_back_one [0..<n] (rs, m)"

definition move_back_invalid ::
  "transfer_record list \<Rightarrow> channel_message \<Rightarrow> transfer_record list \<times> channel_message" where
  "move_back_invalid rs m =
     fold (\<lambda>i rm. if i < length (fst rm) \<and> \<not> tr_valid (rec_resource (fst rm ! i)) then move_back_one i rm else rm)
       [0..<length (cm_resources m)] (rs, m)"

definition record_count :: "transfer_record list \<Rightarrow> u64" where
  "record_count rs = of_nat (length rs)"

definition enqueue_refused :: "nat \<Rightarrow> channel_message \<Rightarrow> transfer_record list \<Rightarrow> channel_state \<Rightarrow> na_status option" where
  "enqueue_refused sender msg records st =
     (if \<not> cs_valid st \<or> sender > 1 \<or> \<not> message_valid msg \<or> record_count records > cs_max_resources st \<or>
         resource_count msg \<noteq> 0 \<or> cm_resource_capacity msg < record_count records
      then Some NA_STATUS_INVALID_ARGUMENT
      else if cm_byte_count msg > cs_max_bytes st \<or>
              resource_count msg + record_count records > cs_max_resources st
      then Some NA_STATUS_INVALID_MESSAGE
      else None)"

definition queue_push ::
  "nat \<Rightarrow> bool \<times> mptr bounded_queue \<Rightarrow> channel_message \<Rightarrow> channel_state \<Rightarrow> channel_state" where
  "queue_push receiver pushed msg st =
     (let queue = cs_queues st receiver
      in st\<lparr>cs_queues := (cs_queues st)(receiver := queue\<lparr>cq_fifo := snd pushed,
             cq_bytes := cq_bytes queue + cm_byte_count msg,
             cq_resources := cq_resources queue + resource_count msg\<rparr>)\<rparr>)"

text \<open>The part of \<^verbatim>\<open>enqueue\<close> under the lock: the result is the status, the records, the message and the state.\<close>

definition enqueue_locked ::
  "nat \<Rightarrow> mptr \<Rightarrow> transfer_record list \<Rightarrow> channel_message \<Rightarrow> channel_state \<Rightarrow> globals \<Rightarrow>
     na_status \<times> transfer_record list \<times> channel_message \<times> channel_state \<times> globals" where
  "enqueue_locked receiver m records msg st g =
     (let queue = cs_queues st receiver
      in if cs_owners st receiver = 0 then (NA_STATUS_PEER_CLOSED, records, msg, st, g)
         else if bq_full (cq_fifo queue) \<or> cq_bytes queue > cs_max_bytes st - cm_byte_count msg \<or>
                 cq_resources queue > cs_max_resources st - record_count records
         then (NA_STATUS_WOULD_BLOCK, records, msg, st, g)
         else case reserve_global (cm_byte_count msg) (record_count records) g of
           (False, g1) \<Rightarrow> (NA_STATUS_RESOURCE_EXHAUSTED, records, msg, st, g1)
         | (True, g1) \<Rightarrow>
             (case append_all records msg of
                (False, _, records1, msg1) \<Rightarrow>
                  (let (records2, msg2) = move_back_invalid records1 msg1
                   in (NA_STATUS_RESOURCE_EXHAUSTED, records2, msg2, st,
                       release_global (cm_byte_count msg) (record_count records) g1))
              | (True, _, records1, msg1) \<Rightarrow>
                  (let pushed = bq_try_push m (cq_fifo queue)
                   in if \<not> fst pushed
                      then let (records2, msg2) = move_back (length records1) records1 msg1
                           in (NA_STATUS_WOULD_BLOCK, records2, msg2, st,
                               release_global (cm_byte_count msg) (record_count records) g1)
                      else (NA_STATUS_OK, records1, msg1, queue_push receiver pushed msg1 st, g1))))"

definition enqueue ::
  "sptr \<Rightarrow> nat \<Rightarrow> mptr \<Rightarrow> transfer_record list \<Rightarrow> resource_table \<Rightarrow> kworld \<Rightarrow>
     (na_status \<times> transfer_record list \<times> resource_table \<times> kworld) option" where
  "enqueue s sender m records t w =
     do { st \<leftarrow> get_state w s;
          (if \<not> cs_valid st \<or> sender > 1 \<or> m = 0 then Some (NA_STATUS_INVALID_ARGUMENT, records, t, w)
           else do { msg \<leftarrow> get_message w m;
             (case enqueue_refused sender msg records st of
                Some status \<Rightarrow> Some (status, records, t, w)
              | None \<Rightarrow>
                  (let (result, records1, msg1, st1, g1) = enqueue_locked (1 - sender) m records msg st (kw_globals w);
                       w1 = put_state s st1 (put_message m msg1 (w\<lparr>kw_globals := g1\<rparr>))
                   in if result \<noteq> NA_STATUS_OK
                      then let (status, records2, t2, es) = restore_native_batch records1 t
                           in do { w2 \<leftarrow> apply_events es w1;
                                   Some (if status \<noteq> NA_STATUS_OK then status else result, records2, t2, w2) }
                      else let (records2, t2, es) = commit_native_batch records1 t
                           in do { w2 \<leftarrow> apply_events es w1;
                                   Some (NA_STATUS_OK, records2, t2, notify_channel_waiters w2) })) }) }"

text \<open>The variant for kernel senders has an extra bound on the queue and no table to restore into.\<close>

definition enqueue_kernel_locked ::
  "nat \<Rightarrow> mptr \<Rightarrow> u64 \<Rightarrow> transfer_record list \<Rightarrow> channel_message \<Rightarrow> channel_state \<Rightarrow> globals \<Rightarrow>
     na_status \<times> transfer_record list \<times> channel_message \<times> channel_state \<times> globals" where
  "enqueue_kernel_locked receiver m max_queue_messages records msg st g =
     (let queue = cs_queues st receiver
      in if cs_owners st receiver = 0 then (NA_STATUS_PEER_CLOSED, records, msg, st, g)
         else if (max_queue_messages \<noteq> 0 \<and> of_nat (bq_count (cq_fifo queue)) \<ge> max_queue_messages) \<or>
                 bq_full (cq_fifo queue) \<or> cq_bytes queue > cs_max_bytes st - cm_byte_count msg \<or>
                 cq_resources queue > cs_max_resources st - record_count records
         then (NA_STATUS_WOULD_BLOCK, records, msg, st, g)
         else case reserve_global (cm_byte_count msg) (record_count records) g of
           (False, g1) \<Rightarrow> (NA_STATUS_RESOURCE_EXHAUSTED, records, msg, st, g1)
         | (True, g1) \<Rightarrow>
             (let (ok, moved, records1, msg1) = append_all records msg;
                  pushed = (if ok then bq_try_push m (cq_fifo queue) else (False, cq_fifo queue))
              in if \<not> ok \<or> \<not> fst pushed
                 then let (records2, msg2) = move_back moved records1 msg1
                      in (if ok then NA_STATUS_WOULD_BLOCK else NA_STATUS_RESOURCE_EXHAUSTED, records2, msg2, st,
                          release_global (cm_byte_count msg) (record_count records) g1)
                 else (NA_STATUS_OK, records1, msg1, queue_push receiver pushed msg1 st, g1)))"

definition enqueue_kernel ::
  "sptr \<Rightarrow> nat \<Rightarrow> mptr \<Rightarrow> transfer_record list \<Rightarrow> u64 \<Rightarrow> kworld \<Rightarrow> (na_status \<times> transfer_record list \<times> kworld) option" where
  "enqueue_kernel s sender m records max_queue_messages w =
     do { st \<leftarrow> get_state w s;
          (if \<not> cs_valid st \<or> sender > 1 \<or> m = 0 then Some (NA_STATUS_INVALID_ARGUMENT, records, w)
           else do { msg \<leftarrow> get_message w m;
             (case enqueue_refused sender msg records st of
                Some status \<Rightarrow> Some (status, records, w)
              | None \<Rightarrow>
                  (let (result, records1, msg1, st1, g1) =
                         enqueue_kernel_locked (1 - sender) m max_queue_messages records msg st (kw_globals w);
                       w1 = put_state s st1 (put_message m msg1 (w\<lparr>kw_globals := g1\<rparr>))
                   in Some (result, records1, if result = NA_STATUS_OK then notify_channel_waiters w1 else w1))) }) }"

section \<open>Receiving\<close>

definition on_queue :: "nat \<Rightarrow> (channel_queue \<Rightarrow> channel_queue) \<Rightarrow> channel_state \<Rightarrow> channel_state" where
  "on_queue side f st = st\<lparr>cs_queues := (cs_queues st)(side := f (cs_queues st side))\<rparr>"

definition claim_receive :: "sptr \<Rightarrow> nat \<Rightarrow> kworld \<Rightarrow> (na_status \<times> mptr \<times> kworld) option" where
  "claim_receive s side w =
     do { st \<leftarrow> get_state w s;
          (if \<not> cs_valid st \<or> side > 1 then Some (NA_STATUS_INVALID_ARGUMENT, 0, w)
           else let queue = cs_queues st side
                in if bq_empty (cq_fifo queue)
                   then Some (if cs_owners st (1 - side) = 0 then NA_STATUS_PEER_CLOSED else NA_STATUS_WOULD_BLOCK, 0, w)
                   else case bq_claim_front (cq_fifo queue) of
                     (False, _) \<Rightarrow> Some (NA_STATUS_WOULD_BLOCK, 0, w)
                   | (True, fifo) \<Rightarrow>
                       Some (NA_STATUS_OK, bq_front fifo,
                             put_state s ((on_queue side (\<lambda>q. q\<lparr>cq_fifo := fifo\<rparr>) st)\<lparr>cs_claims := cs_claims st + 1\<rparr>) w)) }"

definition cancel_receive :: "sptr \<Rightarrow> nat \<Rightarrow> mptr \<Rightarrow> kworld \<Rightarrow> (bool \<times> kworld) option" where
  "cancel_receive s side m w =
     do { st \<leftarrow> get_state w s;
          (if \<not> cs_valid st \<or> side > 1 \<or> m = 0 then Some (False, w)
           else let queue = cs_queues st side
                in if \<not> bq_claimed (cq_fifo queue) \<or> bq_front (cq_fifo queue) \<noteq> m then Some (False, w)
                   else Some (True, notify_channel_waiters (put_state s
                     ((on_queue side (\<lambda>q. q\<lparr>cq_fifo := bq_cancel_claim (cq_fifo q)\<rparr>) st)\<lparr>cs_claims := cs_claims st - 1\<rparr>) w))) }"

definition queue_pop :: "channel_message \<Rightarrow> channel_queue \<Rightarrow> channel_queue" where
  "queue_pop msg q =
     q\<lparr>cq_fifo := bq_commit_claim (cq_fifo q), cq_bytes := cq_bytes q - cm_byte_count msg,
       cq_resources := cq_resources q - resource_count msg\<rparr>"

definition release_message :: "channel_message \<Rightarrow> kworld \<Rightarrow> kworld" where
  "release_message msg w = w\<lparr>kw_globals := release_global (cm_byte_count msg) (resource_count msg) (kw_globals w)\<rparr>"

definition commit_receive :: "sptr \<Rightarrow> nat \<Rightarrow> mptr \<Rightarrow> kworld \<Rightarrow> (bool \<times> kworld) option" where
  "commit_receive s side m w =
     do { st \<leftarrow> get_state w s;
          (if \<not> cs_valid st \<or> side > 1 \<or> m = 0 then Some (False, w)
           else let queue = cs_queues st side
                in if \<not> bq_claimed (cq_fifo queue) \<or> bq_front (cq_fifo queue) \<noteq> m then Some (False, w)
                   else do { msg \<leftarrow> get_message w m;
                     Some (True, notify_channel_waiters (release_message msg (put_state s
                       ((on_queue side (queue_pop msg) st)\<lparr>cs_claims := cs_claims st - 1\<rparr>) w))) }) }"

definition state_discard :: "sptr \<Rightarrow> nat \<Rightarrow> kworld \<Rightarrow> (bool \<times> mptr \<times> kworld) option" where
  "state_discard s side w =
     do { st \<leftarrow> get_state w s;
          (if \<not> cs_valid st \<or> side > 1 then Some (False, 0, w)
           else let queue = cs_queues st side
                in if bq_empty (cq_fifo queue) then Some (False, 0, w)
                   else case bq_claim_front (cq_fifo queue) of
                     (False, _) \<Rightarrow> Some (False, 0, w)
                   | (True, fifo) \<Rightarrow>
                       do { msg \<leftarrow> get_message w (bq_front fifo);
                            Some (True, bq_front fifo, notify_channel_waiters (release_message msg (put_state s
                              (on_queue side (\<lambda>q. queue_pop msg (q\<lparr>cq_fifo := fifo\<rparr>)) st) w))) }) }"

section \<open>Destroying and creating channels\<close>

text \<open>
  The destructor of a state empties both queues; it returns the quota of every message and
  deletes it, whether or not the message was claimed.
\<close>

function destroy_queue :: "mptr bounded_queue \<Rightarrow> kworld \<Rightarrow> kworld option" where
  "destroy_queue q w =
     (if bq_empty q then Some w
      else let q1 = snd (bq_claim_front q); m = bq_front q1; q2 = bq_commit_claim q1
           in if m = 0 then destroy_queue q2 w
              else do { msg \<leftarrow> get_message w m;
                        w1 \<leftarrow> delete_message m (release_message msg w);
                        destroy_queue q2 w1 })"
  by pat_completeness auto
termination
  by (relation "measure (\<lambda>(q, w). bq_count q)")
    (auto simp: bq_empty_def bq_claim_front_def bq_commit_claim_def)

declare destroy_queue.simps [simp del]

definition delete_state :: "sptr \<Rightarrow> kworld \<Rightarrow> kworld option" where
  "delete_state s w =
     do { st \<leftarrow> get_state w s;
          w1 \<leftarrow> destroy_queue (cq_fifo (cs_queues st 0)) w;
          w2 \<leftarrow> destroy_queue (cq_fifo (cs_queues st 1)) w1;
          Some (w2\<lparr>kw_states := AList.delete s (kw_states w2)\<rparr>) }"

record na_channel_options =
  op_struct_size :: u32
  op_flags :: u32
  op_max_messages :: u64
  op_max_bytes :: u64
  op_max_resources :: u64
  op_reserved0 :: u64

definition make_endpoint :: "sptr \<Rightarrow> nat \<Rightarrow> kworld \<Rightarrow> (oid \<times> kworld) option" where
  "make_endpoint s side w =
     do { w1 \<leftarrow> on_state s endpoint_object_created w;
          Some (kw_next w1, (put_object (kw_next w1) \<lparr>ko_refs = 1, ko_kind = ko_endpoint s side\<rparr> w1)
                  \<lparr>kw_next := kw_next w1 + 1\<rparr>) }"

definition create_raw_channel_with_options ::
  "(alloc_site \<Rightarrow> bool) \<Rightarrow> na_channel_options \<Rightarrow> kworld \<Rightarrow> (na_status \<times> khandle \<times> khandle \<times> kworld) option" where
  "create_raw_channel_with_options mem opts w =
     (if op_max_messages opts > NA_CHANNEL_MAX_MESSAGES \<or>
         op_max_bytes opts > NA_CHANNEL_MAX_MESSAGE_BYTES * 16 \<or>
         op_max_resources opts > NA_CHANNEL_DEFAULT_MAX_RESOURCES
      then Some (NA_STATUS_INVALID_ARGUMENT, None, None, w)
      else if \<not> mem A_state then Some (NA_STATUS_RESOURCE_EXHAUSTED, None, None, w)
      else let st = channel_state_new mem (op_max_messages opts) (op_max_bytes opts) (op_max_resources opts);
               s = kw_next w;
               w1 = (put_state s st w)\<lparr>kw_next := kw_next w + 1\<rparr>;
               w2 = (if cs_valid st then register_state s w1 else w1)
           in if \<not> cs_valid st
              then do { w3 \<leftarrow> delete_state s w2; Some (NA_STATUS_RESOURCE_EXHAUSTED, None, None, w3) }
              else do {
                (l, w3) \<leftarrow> (if mem (A_endpoint 0) then do { (e, w) \<leftarrow> make_endpoint s 0 w2; Some (Some e, w) }
                            else Some (None, w2));
                (r, w4) \<leftarrow> (if mem (A_endpoint 1) then do { (e, w) \<leftarrow> make_endpoint s 1 w3; Some (Some e, w) }
                            else Some (None, w3));
                (if l = None \<or> r = None
                 then do { w5 \<leftarrow> (case l of None \<Rightarrow> Some w4 | Some ob \<Rightarrow> object_unref ob w4);
                           w6 \<leftarrow> (case r of None \<Rightarrow> Some w5 | Some ob \<Rightarrow> object_unref ob w5);
                           w7 \<leftarrow> delete_state s (unregister_state s w6);
                           Some (NA_STATUS_RESOURCE_EXHAUSTED, None, None, w7) }
                 else Some (NA_STATUS_OK, l, r, w4)) })"

definition default_options :: na_channel_options where
  "default_options = \<lparr>op_struct_size = 40, op_flags = 0, op_max_messages = NA_CHANNEL_DEFAULT_MAX_MESSAGES,
     op_max_bytes = NA_CHANNEL_DEFAULT_MAX_BYTES, op_max_resources = NA_CHANNEL_DEFAULT_MAX_RESOURCES, op_reserved0 = 0\<rparr>"

definition fill_options :: "na_channel_options \<Rightarrow> na_channel_options" where
  "fill_options opts =
     opts\<lparr>op_max_messages := if op_max_messages opts = 0 then NA_CHANNEL_DEFAULT_MAX_MESSAGES else op_max_messages opts,
          op_max_bytes := if op_max_bytes opts = 0 then NA_CHANNEL_DEFAULT_MAX_BYTES else op_max_bytes opts,
          op_max_resources := if op_max_resources opts = 0 then NA_CHANNEL_DEFAULT_MAX_RESOURCES else op_max_resources opts\<rparr>"

definition options_ok :: "na_channel_options \<Rightarrow> bool" where
  "options_ok opts \<longleftrightarrow>
     valid_struct_size (op_struct_size opts) 40 \<and> op_flags opts = 0 \<and> op_reserved0 opts = 0"

definition decode_options :: "byte list \<Rightarrow> na_channel_options" where
  "decode_options bs =
     \<lparr>op_struct_size = get_u32 bs 0, op_flags = get_u32 bs 4, op_max_messages = get_u64 bs 8,
      op_max_bytes = get_u64 bs 16, op_max_resources = get_u64 bs 24, op_reserved0 = get_u64 bs 32\<rparr>"

text \<open>The address 0 of the options means that the caller passes none.\<close>

definition create_raw_channel ::
  "(alloc_site \<Rightarrow> bool) \<Rightarrow> umem \<Rightarrow> u64 \<Rightarrow> kworld \<Rightarrow> (na_status \<times> khandle \<times> khandle \<times> kworld) option" where
  "create_raw_channel mem um options w =
     (if options = 0 then create_raw_channel_with_options mem (fill_options default_options) w
      else case copy_versioned um 40 options of
        Inl status \<Rightarrow> Some (status, None, None, w)
      | Inr bs \<Rightarrow>
          if \<not> options_ok (decode_options bs) then Some (NA_STATUS_INVALID_ARGUMENT, None, None, w)
          else create_raw_channel_with_options mem (fill_options (decode_options bs)) w)"

definition create_raw_channel_kernel ::
  "(alloc_site \<Rightarrow> bool) \<Rightarrow> na_channel_options option \<Rightarrow> kworld \<Rightarrow> (na_status \<times> khandle \<times> khandle \<times> kworld) option" where
  "create_raw_channel_kernel mem options w =
     (case options of
        None \<Rightarrow> create_raw_channel_with_options mem (fill_options default_options) w
      | Some opts \<Rightarrow>
          if \<not> options_ok opts then Some (NA_STATUS_INVALID_ARGUMENT, None, None, w)
          else create_raw_channel_with_options mem (fill_options opts) w)"

end
