(* ===== verification/Channel_Gc.thy ===== *)
theory Channel_Gc
  imports Channel
begin

text \<open>
  The collector of orphaned channels of \<^verbatim>\<open>ipc/channel.cc\<close>. A channel is kept when a capability
  table has one of its ends, when an operation or a claim is in progress on it, or when one of
  its ends is in a message queued on a channel that is kept. The others lose their messages,
  and are deleted once no endpoint object refers to them.
\<close>

section \<open>The states that a state reaches\<close>

definition queue_messages :: "mptr bounded_queue \<Rightarrow> mptr list" where
  "queue_messages q = map (bq_at q) [0..<bq_count q]"

definition resource_target :: "kworld \<Rightarrow> transferred_resource \<Rightarrow> sptr list option" where
  "resource_target w r =
     (case tr_object r of
        None \<Rightarrow> Some []
      | Some ob \<Rightarrow>
          do { obj \<leftarrow> get_object w ob;
               Some (case ko_kind obj of ko_endpoint s _ \<Rightarrow> [s] | ko_other _ _ _ \<Rightarrow> []) })"

fun resource_targets :: "kworld \<Rightarrow> transferred_resource list \<Rightarrow> sptr list option" where
  "resource_targets w [] = Some []"
| "resource_targets w (r # rs) =
     do { a \<leftarrow> resource_target w r; b \<leftarrow> resource_targets w rs; Some (a @ b) }"

fun message_targets :: "kworld \<Rightarrow> mptr list \<Rightarrow> sptr list option" where
  "message_targets w [] = Some []"
| "message_targets w (m # ms) =
     (if m = 0 then message_targets w ms
      else do { msg \<leftarrow> get_message w m;
                a \<leftarrow> resource_targets w (cm_resources msg);
                b \<leftarrow> message_targets w ms;
                Some (a @ b) })"

definition collect_reachable_states :: "kworld \<Rightarrow> sptr \<Rightarrow> sptr list option" where
  "collect_reachable_states w s =
     do { st \<leftarrow> get_state w s;
          a \<leftarrow> message_targets w (queue_messages (cq_fifo (cs_queues st 0)));
          b \<leftarrow> message_targets w (queue_messages (cq_fifo (cs_queues st 1)));
          Some (a @ b) }"

section \<open>Dropping the messages of an orphan\<close>

text \<open>The loop over one queue: it stops at a claimed head. The messages are deleted later.\<close>

function drain_queue :: "channel_queue \<Rightarrow> kworld \<Rightarrow> (channel_queue \<times> mptr list \<times> kworld) option" where
  "drain_queue q w =
     (if bq_empty (cq_fifo q) then Some (q, [], w)
      else case bq_claim_front (cq_fifo q) of
        (False, _) \<Rightarrow> Some (q, [], w)
      | (True, fifo) \<Rightarrow>
          do { msg \<leftarrow> get_message w (bq_front fifo);
               (q', ms, w') \<leftarrow> drain_queue (queue_pop msg (q\<lparr>cq_fifo := fifo\<rparr>)) (release_message msg w);
               Some (q', bq_front fifo # ms, w') })"
  by pat_completeness auto
termination
  by (relation "measure (\<lambda>(q, w). bq_count (cq_fifo q))")
    (auto simp: bq_empty_def bq_claim_front_def bq_commit_claim_def queue_pop_def split: if_splits)

declare drain_queue.simps [simp del]

fun delete_messages :: "mptr list \<Rightarrow> kworld \<Rightarrow> kworld option" where
  "delete_messages [] w = Some w"
| "delete_messages (m # ms) w = do { w1 \<leftarrow> delete_message m w; delete_messages ms w1 }"

definition discard_orphan_messages :: "(alloc_site \<Rightarrow> bool) \<Rightarrow> sptr \<Rightarrow> kworld \<Rightarrow> kworld option" where
  "discard_orphan_messages mem s w =
     do { st \<leftarrow> get_state w s;
          (if cs_max_messages st \<noteq> 0 \<and> \<not> mem A_discarded then Some w
           else do { (q0, ms0, w1) \<leftarrow> drain_queue (cs_queues st 0) w;
                     (q1, ms1, w2) \<leftarrow> drain_queue (cs_queues st 1) w1;
                     delete_messages (ms0 @ ms1) (notify_channel_waiters
                       (put_state s (st\<lparr>cs_queues := (cs_queues st)(0 := q0, 1 := q1)\<rparr>) w2)) }) }"

section \<open>Marking\<close>

text \<open>
  \<open>marked\<close> has one flag for each state of the registry snapshot; the first occurrence of a
  state is the one that \<^verbatim>\<open>contains_state\<close> finds.
\<close>

fun contains_state :: "sptr list \<Rightarrow> sptr \<Rightarrow> nat option" where
  "contains_state [] needle = None"
| "contains_state (s # ss) needle = (if s = needle then Some 0 else map_option Suc (contains_state ss needle))"

fun mark_targets :: "sptr list \<Rightarrow> sptr list \<Rightarrow> bool list \<Rightarrow> sptr list \<Rightarrow> bool list \<times> sptr list" where
  "mark_targets states [] marked work = (marked, work)"
| "mark_targets states (target # targets) marked work =
     (case contains_state states target of
        None \<Rightarrow> mark_targets states targets marked work
      | Some i \<Rightarrow>
          if i < length marked \<and> \<not> marked ! i
          then mark_targets states targets (marked[i := True]) (work @ [target])
          else mark_targets states targets marked work)"

definition unmarked :: "bool list \<Rightarrow> nat" where
  "unmarked marked = length (filter Not marked)"

lemma unmarked_update:
  "i < length marked \<Longrightarrow> \<not> marked ! i \<Longrightarrow> Suc (unmarked (marked[i := True])) = unmarked marked"
  by (induction marked arbitrary: i) (auto simp: unmarked_def split: nat.split)

lemma mark_targets_measure:
  "mark_targets states targets marked work = (marked', work') \<Longrightarrow>
   length work' + unmarked marked' = length work + unmarked marked"
proof (induction states targets marked work rule: mark_targets.induct)
  case (2 states target targets marked work)
  show ?case
  proof (cases "contains_state states target")
    case None
    with 2 show ?thesis by simp
  next
    case (Some i)
    with 2 unmarked_update [of i marked] show ?thesis by (auto split: if_splits)
  qed
qed simp

text \<open>The work list: every iteration takes one state off it, and every state gets onto it at most once.\<close>

function mark_loop :: "kworld \<Rightarrow> sptr list \<Rightarrow> bool list \<Rightarrow> sptr list \<Rightarrow> bool list option" where
  "mark_loop w states marked [] = Some marked"
| "mark_loop w states marked (s # work) =
     (case collect_reachable_states w s of
        None \<Rightarrow> None
      | Some targets \<Rightarrow>
          (case mark_targets states targets marked work of
             (marked', work') \<Rightarrow> mark_loop w states marked' work'))"
  by pat_completeness auto
termination
  by (relation "measure (\<lambda>(w, states, marked, work). length work + unmarked marked)")
    (auto simp: case_prod_unfold mark_targets_measure [OF prod.collapse [symmetric]])

fun gc_roots :: "kworld \<Rightarrow> sptr list \<Rightarrow> (bool list \<times> sptr list) option" where
  "gc_roots w [] = Some ([], [])"
| "gc_roots w (s # ss) =
     do { st \<leftarrow> get_state w s;
          (marked, work) \<leftarrow> gc_roots w ss;
          (let root = has_root st \<or> \<not> can_reap st
           in Some (root # marked, if root then s # work else work)) }"

section \<open>The collector\<close>

fun discard_orphans :: "(alloc_site \<Rightarrow> bool) \<Rightarrow> (sptr \<times> bool) list \<Rightarrow> kworld \<Rightarrow> kworld option" where
  "discard_orphans mem [] w = Some w"
| "discard_orphans mem ((s, mk) # sms) w =
     (if mk then discard_orphans mem sms w
      else do { st \<leftarrow> get_state w s;
                w1 \<leftarrow> (if can_reap st then discard_orphan_messages mem s w else Some w);
                discard_orphans mem sms w1 })"

fun delete_orphans :: "(sptr \<times> bool) list \<Rightarrow> kworld \<Rightarrow> kworld option" where
  "delete_orphans [] w = Some w"
| "delete_orphans ((s, mk) # sms) w =
     (if mk then delete_orphans sms w
      else do { st \<leftarrow> get_state w s;
                (if \<not> can_reap st \<or> cs_objects st \<noteq> 0 then delete_orphans sms w
                 else do { w1 \<leftarrow> delete_state s (unregister_state s w); delete_orphans sms w1 }) })"

definition collect_orphaned_channels :: "(alloc_site \<Rightarrow> bool) \<Rightarrow> kworld \<Rightarrow> kworld option" where
  "collect_orphaned_channels mem w =
     (let states = kw_registry w
      in if states = [] then Some w
         else if \<not> mem A_marked then Some w
         else do { (marked0, work) \<leftarrow> gc_roots w states;
                   marked \<leftarrow> mark_loop w states marked0 work;
                   w1 \<leftarrow> discard_orphans mem (zip states marked) w;
                   delete_orphans (zip states marked) w1 })"

end
