(* ===== verification/Channel_Syscall.thy ===== *)
theory Channel_Syscall
  imports Channel_Gc
begin

text \<open>
  The channel system calls of \<^verbatim>\<open>ipc/channel.cc\<close>: sending, receiving and discarding messages
  through a capability table, user memory and the kernel heap. Each call is the whole handler
  with its guards in the order of the code; it is \<open>None\<close> if it would touch freed memory. The
  handle copy that a call holds on its endpoint while it runs is left out of the reference
  counts: it is taken and dropped within the call.
\<close>

record ksys =
  ks_table :: resource_table
  ks_mem :: umem
  ks_world :: kworld

definition run_events :: "cap_event list \<Rightarrow> ksys \<Rightarrow> ksys option" where
  "run_events es k = do { w \<leftarrow> apply_events es (ks_world k); Some (k\<lparr>ks_world := w\<rparr>) }"

text \<open>The endpoint behind a handle: its state and side.\<close>

definition lookup_endpoint :: "na_handle \<Rightarrow> ksys \<Rightarrow> na_status + (sptr \<times> nat)" where
  "lookup_endpoint handle k =
     (case lookup_native handle (ks_table k) of
        None \<Rightarrow> Inl NA_STATUS_INVALID_HANDLE
      | Some e \<Rightarrow>
          (case ce_object e of
             None \<Rightarrow> Inl NA_STATUS_INVALID_HANDLE
           | Some ob \<Rightarrow>
               if md_binding (ce_meta e) \<noteq> NA_BINDING_RAW_CHANNEL_END then Inl NA_STATUS_WRONG_BINDING
               else case endpoint_of (ks_world k) ob of
                 None \<Rightarrow> Inl NA_STATUS_WRONG_BINDING
               | Some ep \<Rightarrow> Inr ep))"

text \<open>
  The operation counter of the endpoint's state is raised while the body runs; \<^verbatim>\<open>finish\<close>
  lowers it. Records of a batch are destroyed when the call returns.
\<close>

definition in_operation ::
  "sptr \<Rightarrow> (ksys \<Rightarrow> (na_status \<times> transfer_record list \<times> ksys) option) \<Rightarrow> ksys \<Rightarrow> (na_status \<times> ksys) option" where
  "in_operation s body k =
     do { w1 \<leftarrow> (if s = 0 then Some (ks_world k) else on_state s begin_operation (ks_world k));
          (status, records, k1) \<leftarrow> body (k\<lparr>ks_world := w1\<rparr>);
          w2 \<leftarrow> (if s = 0 then Some (ks_world k1) else on_state s end_operation (ks_world k1));
          k2 \<leftarrow> run_events (concat (map rec_destroy records)) (k1\<lparr>ks_world := w2\<rparr>);
          Some (status, k2) }"

definition collect :: "(alloc_site \<Rightarrow> bool) \<Rightarrow> ksys \<Rightarrow> ksys option" where
  "collect mem k = do { w \<leftarrow> collect_orphaned_channels mem (ks_world k); Some (k\<lparr>ks_world := w\<rparr>) }"

definition drop_message :: "mptr \<Rightarrow> ksys \<Rightarrow> ksys option" where
  "drop_message m k = do { w \<leftarrow> delete_message m (ks_world k); Some (k\<lparr>ks_world := w\<rparr>) }"

text \<open>Allocating a message: a message whose storage is missing is deleted again.\<close>

definition new_message ::
  "(alloc_site \<Rightarrow> bool) \<Rightarrow> u64 \<Rightarrow> u64 \<Rightarrow> ksys \<Rightarrow> (mptr \<times> ksys) option" where
  "new_message mem byte_count resources k =
     (if \<not> mem A_message then Some (0, k)
      else let msg = message_new (mem A_message_bytes) (mem A_message_resources) byte_count resources;
               w = ks_world k; m = kw_next w;
               k1 = k\<lparr>ks_world := (put_message m msg w)\<lparr>kw_next := kw_next w + 1\<rparr>\<rparr>
           in if message_valid msg then Some (m, k1)
              else do { k2 \<leftarrow> drop_message m k1; Some (0, k2) })"

definition set_message_bytes :: "mptr \<Rightarrow> byte list \<Rightarrow> ksys \<Rightarrow> ksys option" where
  "set_message_bytes m bs k =
     do { msg \<leftarrow> get_message (ks_world k) m;
          Some (if bs = [] then k
                else k\<lparr>ks_world := put_message m (msg\<lparr>cm_bytes := Some bs\<rparr>) (ks_world k)\<rparr>) }"

section \<open>Sending\<close>

record na_channel_send_frame =
  sf_struct_size :: u32
  sf_flags :: u32
  sf_bytes :: u64
  sf_byte_count :: u64
  sf_resources :: u64
  sf_resource_count :: u64
  sf_reserved0 :: u64
  sf_reserved1 :: u64

definition decode_send_frame :: "byte list \<Rightarrow> na_channel_send_frame" where
  "decode_send_frame bs =
     \<lparr>sf_struct_size = get_u32 bs 0, sf_flags = get_u32 bs 4, sf_bytes = get_u64 bs 8,
      sf_byte_count = get_u64 bs 16, sf_resources = get_u64 bs 24, sf_resource_count = get_u64 bs 32,
      sf_reserved0 = get_u64 bs 40, sf_reserved1 = get_u64 bs 48\<rparr>"

definition sizeof_send_frame :: u64 where "sizeof_send_frame = 56"

definition sizeof_disposition :: u64 where "sizeof_disposition = 32"

definition decode_disposition :: "byte list \<Rightarrow> na_resource_disposition" where
  "decode_disposition bs =
     \<lparr>ds_handle = get_u64 bs 0, ds_operation = get_u32 bs 8, ds_flags = get_u32 bs 12,
      ds_rights = get_u64 bs 16, ds_scope = get_u64 bs 24\<rparr>"

text \<open>The checks of a send frame, in the order of the code.\<close>

definition send_frame_error :: "u64 \<Rightarrow> na_channel_send_frame \<Rightarrow> na_status option" where
  "send_frame_error frame v =
     (if \<not> valid_struct_size (sf_struct_size v) sizeof_send_frame \<or> sf_flags v \<noteq> 0 \<or> sf_reserved0 v \<noteq> 0 \<or>
         sf_reserved1 v \<noteq> 0
      then Some NA_STATUS_INVALID_ARGUMENT
      else if sf_byte_count v > NA_CHANNEL_MAX_MESSAGE_BYTES \<or> sf_resource_count v > NA_CHANNEL_MAX_RESOURCES
      then Some NA_STATUS_INVALID_MESSAGE
      else if sf_byte_count v \<noteq> 0 \<and> sf_bytes v = 0 then Some NA_STATUS_FAULT
      else if sf_resource_count v \<noteq> 0 \<and> sf_resources v = 0 then Some NA_STATUS_FAULT
      else if \<not> valid_range (sf_bytes v) (sf_byte_count v) \<or>
              \<not> valid_range (sf_resources v) (sf_resource_count v * sizeof_disposition)
      then Some NA_STATUS_FAULT
      else if ranges_overlap frame sizeof_send_frame (sf_bytes v) (sf_byte_count v) \<or>
              ranges_overlap frame sizeof_send_frame (sf_resources v) (sf_resource_count v * sizeof_disposition) \<or>
              ranges_overlap (sf_bytes v) (sf_byte_count v) (sf_resources v) (sf_resource_count v * sizeof_disposition)
      then Some NA_STATUS_INVALID_ARGUMENT
      else None)"

fun read_dispositions :: "umem \<Rightarrow> u64 \<Rightarrow> nat \<Rightarrow> na_status + na_resource_disposition list" where
  "read_dispositions um address 0 = Inr []"
| "read_dispositions um address (Suc n) =
     (case copy_from um True address sizeof_disposition of
        Inl status \<Rightarrow> Inl status
      | Inr bs \<Rightarrow>
          (case read_dispositions um (address + sizeof_disposition) n of
             Inl status \<Rightarrow> Inl status
           | Inr ds \<Rightarrow> Inr (decode_disposition bs # ds)))"

text \<open>The part of the send after the frame is accepted.\<close>

definition send_message ::
  "(alloc_site \<Rightarrow> bool) \<Rightarrow> na_handle \<Rightarrow> sptr \<Rightarrow> nat \<Rightarrow> na_channel_send_frame \<Rightarrow> ksys \<Rightarrow>
     (na_status \<times> transfer_record list \<times> ksys) option" where
  "send_message mem endpoint s side v k =
     do { (m, k1) \<leftarrow> new_message mem (sf_byte_count v) (sf_resource_count v) k;
          (if m = 0 then Some (NA_STATUS_RESOURCE_EXHAUSTED, [], k1)
           else case copy_from (ks_mem k1) True (sf_bytes v) (sf_byte_count v) of
             Inl status \<Rightarrow> do { k2 \<leftarrow> drop_message m k1; Some (status, [], k2) }
           | Inr bs \<Rightarrow>
               do { k2 \<leftarrow> set_message_bytes m bs k1;
                    (if sf_resource_count v \<noteq> 0 \<and> \<not> mem A_dispositions
                     then do { k3 \<leftarrow> drop_message m k2; Some (NA_STATUS_RESOURCE_EXHAUSTED, [], k3) }
                     else case read_dispositions (ks_mem k2) (sf_resources v) (unat (sf_resource_count v)) of
                       Inl status \<Rightarrow> do { k3 \<leftarrow> drop_message m k2; Some (status, [], k3) }
                     | Inr ds \<Rightarrow>
                         (let (status, records, t, es) = take_native_batch (object_unique (ks_world k2)) (mem A_batch)
                                (Some ds) (of_nat (length ds)) endpoint (ks_table k2)
                          in do { k3 \<leftarrow> run_events es (k2\<lparr>ks_table := t\<rparr>);
                                  (if status \<noteq> NA_STATUS_OK
                                   then do { k4 \<leftarrow> drop_message m k3; Some (status, records, k4) }
                                   else do { (status, records, t, w) \<leftarrow> enqueue s side m records (ks_table k3) (ks_world k3);
                                             k4 \<leftarrow> Some (k3\<lparr>ks_table := t, ks_world := w\<rparr>);
                                             k5 \<leftarrow> (if status \<noteq> NA_STATUS_OK then drop_message m k4 else Some k4);
                                             k6 \<leftarrow> collect mem k5;
                                             Some (status, records, k6) }) })) }) }"

definition send_raw_channel ::
  "(alloc_site \<Rightarrow> bool) \<Rightarrow> na_handle \<Rightarrow> u64 \<Rightarrow> ksys \<Rightarrow> (na_status \<times> ksys) option" where
  "send_raw_channel mem endpoint frame k =
     (case lookup_endpoint endpoint k of
        Inl status \<Rightarrow> Some (status, k)
      | Inr (s, side) \<Rightarrow>
          in_operation s (\<lambda>k.
            (case copy_versioned (ks_mem k) sizeof_send_frame frame of
               Inl status \<Rightarrow> Some (status, [], k)
             | Inr bs \<Rightarrow>
                 (let v = decode_send_frame bs
                  in case send_frame_error frame v of
                       Some status \<Rightarrow> Some (status, [], k)
                     | None \<Rightarrow> send_message mem endpoint s side v k))) k)"

text \<open>Kernel senders pass bytes in kernel memory (\<open>None\<close> is the null pointer) and no capabilities.\<close>

definition send_kernel_message ::
  "(alloc_site \<Rightarrow> bool) \<Rightarrow> byte list option \<Rightarrow> u64 \<Rightarrow>
     (mptr \<Rightarrow> ksys \<Rightarrow> (na_status \<times> transfer_record list \<times> ksys) option) \<Rightarrow> ksys \<Rightarrow>
     (na_status \<times> transfer_record list \<times> ksys) option" where
  "send_kernel_message mem bytes byte_count enq k =
     (if byte_count > NA_CHANNEL_MAX_MESSAGE_BYTES \<or> (byte_count \<noteq> 0 \<and> bytes = None)
      then Some (NA_STATUS_INVALID_MESSAGE, [], k)
      else do { (m, k1) \<leftarrow> new_message mem byte_count 0 k;
                (if m = 0 then Some (NA_STATUS_RESOURCE_EXHAUSTED, [], k1)
                 else do { k2 \<leftarrow> (if byte_count \<noteq> 0
                                   then set_message_bytes m (take (unat byte_count) (the bytes)) k1 else Some k1);
                           (status, records, k3) \<leftarrow> enq m k2;
                           k4 \<leftarrow> (if status \<noteq> NA_STATUS_OK then drop_message m k3 else Some k3);
                           k5 \<leftarrow> collect mem k4;
                           Some (status, records, k5) }) })"

definition send_raw_channel_kernel_table ::
  "(alloc_site \<Rightarrow> bool) \<Rightarrow> na_handle \<Rightarrow> byte list option \<Rightarrow> u64 \<Rightarrow> ksys \<Rightarrow> (na_status \<times> ksys) option" where
  "send_raw_channel_kernel_table mem endpoint bytes byte_count k =
     (case lookup_endpoint endpoint k of
        Inl status \<Rightarrow> Some (status, k)
      | Inr (s, side) \<Rightarrow>
          in_operation s (send_kernel_message mem bytes byte_count
            (\<lambda>m k. do { (status, records, t, w) \<leftarrow> enqueue s side m [] (ks_table k) (ks_world k);
                        Some (status, records, k\<lparr>ks_table := t, ks_world := w\<rparr>) })) k)"

definition send_raw_channel_kernel_handle ::
  "(alloc_site \<Rightarrow> bool) \<Rightarrow> khandle \<Rightarrow> byte list option \<Rightarrow> u64 \<Rightarrow> ksys \<Rightarrow> (na_status \<times> ksys) option" where
  "send_raw_channel_kernel_handle mem endpoint bytes byte_count k =
     (case endpoint of
        None \<Rightarrow> Some (NA_STATUS_INVALID_HANDLE, k)
      | Some ob \<Rightarrow>
          (case endpoint_of (ks_world k) ob of
             None \<Rightarrow> Some (NA_STATUS_WRONG_BINDING, k)
           | Some (s, side) \<Rightarrow>
               in_operation s (send_kernel_message mem bytes byte_count
                 (\<lambda>m k. do { (status, records, w) \<leftarrow> enqueue_kernel s side m [] 0 (ks_world k);
                             Some (status, records, k\<lparr>ks_world := w\<rparr>) })) k))"

section \<open>Receiving\<close>

record na_channel_receive_frame =
  rf_struct_size :: u32
  rf_flags :: u32
  rf_method_id :: u64
  rf_bytes :: u64
  rf_byte_capacity :: u64
  rf_resources :: u64
  rf_resource_capacity :: u64
  rf_responder :: na_handle
  rf_actual_bytes :: u64
  rf_actual_resources :: u64
  rf_required_bytes :: u64
  rf_required_resources :: u64
  rf_caller_pid :: u64

definition decode_receive_frame :: "byte list \<Rightarrow> na_channel_receive_frame" where
  "decode_receive_frame bs =
     \<lparr>rf_struct_size = get_u32 bs 0, rf_flags = get_u32 bs 4, rf_method_id = get_u64 bs 8,
      rf_bytes = get_u64 bs 16, rf_byte_capacity = get_u64 bs 24, rf_resources = get_u64 bs 32,
      rf_resource_capacity = get_u64 bs 40, rf_responder = get_u64 bs 48, rf_actual_bytes = get_u64 bs 56,
      rf_actual_resources = get_u64 bs 64, rf_required_bytes = get_u64 bs 72,
      rf_required_resources = get_u64 bs 80, rf_caller_pid = get_u64 bs 88\<rparr>"

definition encode_receive_frame :: "na_channel_receive_frame \<Rightarrow> byte list" where
  "encode_receive_frame v =
     put_u32 (rf_struct_size v) @ put_u32 (rf_flags v) @ put_u64 (rf_method_id v) @ put_u64 (rf_bytes v) @
     put_u64 (rf_byte_capacity v) @ put_u64 (rf_resources v) @ put_u64 (rf_resource_capacity v) @
     put_u64 (rf_responder v) @ put_u64 (rf_actual_bytes v) @ put_u64 (rf_actual_resources v) @
     put_u64 (rf_required_bytes v) @ put_u64 (rf_required_resources v) @ put_u64 (rf_caller_pid v)"

definition sizeof_receive_frame :: u64 where "sizeof_receive_frame = 96"

definition sizeof_handle :: u64 where "sizeof_handle = 8"

definition receive_frame_error :: "na_channel_receive_frame \<Rightarrow> na_status option" where
  "receive_frame_error v =
     (if \<not> valid_struct_size (rf_struct_size v) sizeof_receive_frame \<or> rf_flags v \<noteq> 0 \<or> rf_method_id v \<noteq> 0 \<or>
         rf_responder v \<noteq> NA_HANDLE_INVALID \<or> rf_caller_pid v \<noteq> 0
      then Some NA_STATUS_INVALID_ARGUMENT
      else if rf_byte_capacity v > NA_CHANNEL_MAX_MESSAGE_BYTES \<or> rf_resource_capacity v > NA_CHANNEL_MAX_RESOURCES
      then Some NA_STATUS_INVALID_ARGUMENT
      else None)"

definition cancel_with :: "sptr \<Rightarrow> nat \<Rightarrow> mptr \<Rightarrow> na_status \<Rightarrow> ksys \<Rightarrow> (na_status \<times> transfer_record list \<times> ksys) option" where
  "cancel_with s side m status k =
     do { (_, w) \<leftarrow> cancel_receive s side m (ks_world k); Some (status, [], k\<lparr>ks_world := w\<rparr>) }"

definition receive_ranges_error :: "u64 \<Rightarrow> na_channel_receive_frame \<Rightarrow> channel_message \<Rightarrow> na_status option" where
  "receive_ranges_error frame v msg =
     (if \<not> valid_output_range (rf_bytes v) (rf_byte_capacity v) then Some NA_STATUS_FAULT
      else if \<not> valid_output_range (rf_resources v) (rf_resource_capacity v * sizeof_handle) then Some NA_STATUS_FAULT
      else if ranges_overlap frame sizeof_receive_frame (rf_bytes v) (cm_byte_count msg) \<or>
              ranges_overlap frame sizeof_receive_frame (rf_resources v) (resource_count msg * sizeof_handle) \<or>
              ranges_overlap (rf_bytes v) (cm_byte_count msg) (rf_resources v) (resource_count msg * sizeof_handle)
      then Some NA_STATUS_INVALID_ARGUMENT
      else None)"

text \<open>
  Activating the reserved handles with the resources of the message, one after the other. On
  the first failure the result has the index that failed.
\<close>

fun activate_all :: "na_handle list \<Rightarrow> mptr \<Rightarrow> nat \<Rightarrow> nat \<Rightarrow> ksys \<Rightarrow> (na_status \<times> nat \<times> ksys) option" where
  "activate_all reserved m i 0 k = Some (NA_STATUS_OK, i, k)"
| "activate_all reserved m i (Suc n) k =
     do { msg \<leftarrow> get_message (ks_world k) m;
          (let (status, r, t, es) = activate_native (reserved ! i) (cm_resources msg ! i) (ks_table k)
           in do { k1 \<leftarrow> run_events es (k\<lparr>ks_table := t,
                     ks_world := put_message m (msg\<lparr>cm_resources := (cm_resources msg)[i := r]\<rparr>) (ks_world k)\<rparr>);
                   (if status \<noteq> NA_STATUS_OK then Some (status, i, k1)
                    else activate_all reserved m (Suc i) n k1) }) }"

fun close_all :: "na_handle list \<Rightarrow> ksys \<Rightarrow> ksys option" where
  "close_all [] k = Some k"
| "close_all (h # hs) k =
     (let (status, t, es) = close_native h (ks_table k)
      in do { k1 \<leftarrow> run_events es (k\<lparr>ks_table := t\<rparr>); close_all hs k1 })"

text \<open>The end of a receive: activation, commit of the claim, deletion of the message, collection.\<close>

definition finish_receive ::
  "(alloc_site \<Rightarrow> bool) \<Rightarrow> bool \<Rightarrow> sptr \<Rightarrow> nat \<Rightarrow> mptr \<Rightarrow> na_handle list \<Rightarrow> nat \<Rightarrow> ksys \<Rightarrow>
     (na_status \<times> transfer_record list \<times> ksys) option" where
  "finish_receive mem rollback_last s side m reserved n k =
     do { (status, i, k1) \<leftarrow> activate_all reserved m 0 n k;
          (if status \<noteq> NA_STATUS_OK
           then do { k2 \<leftarrow> close_all (take i reserved) k1;
                     cancel_with s side m status (k2\<lparr>ks_table := rollback_native reserved (ks_table k2)\<rparr>) }
           else do { (committed, w) \<leftarrow> commit_receive s side m (ks_world k1);
                     k2 \<leftarrow> Some (k1\<lparr>ks_world := w\<rparr>);
                     (if \<not> committed
                      then do { k3 \<leftarrow> close_all reserved k2;
                                cancel_with s side m NA_STATUS_RESOURCE_EXHAUSTED
                                  (if rollback_last then k3\<lparr>ks_table := rollback_native reserved (ks_table k3)\<rparr> else k3) }
                      else do { k3 \<leftarrow> drop_message m k2;
                                k4 \<leftarrow> collect mem k3;
                                Some (NA_STATUS_OK, [], k4) }) }) }"

text \<open>The claimed message is copied out; every failure before the activation cancels the claim.\<close>

definition receive_message ::
  "(alloc_site \<Rightarrow> bool) \<Rightarrow> u64 \<Rightarrow> sptr \<Rightarrow> nat \<Rightarrow> mptr \<Rightarrow> na_channel_receive_frame \<Rightarrow> ksys \<Rightarrow>
     (na_status \<times> transfer_record list \<times> ksys) option" where
  "receive_message mem frame s side m v0 k =
     do { msg \<leftarrow> get_message (ks_world k) m;
          (let v = v0\<lparr>rf_method_id := 0, rf_responder := NA_HANDLE_INVALID, rf_actual_bytes := 0,
                      rf_actual_resources := 0, rf_required_bytes := cm_byte_count msg,
                      rf_required_resources := resource_count msg\<rparr>
           in if rf_byte_capacity v < cm_byte_count msg \<or> rf_resource_capacity v < resource_count msg
              then let (status, um) = copy_to (ks_mem k) frame (Some (encode_receive_frame v)) sizeof_receive_frame
                   in cancel_with s side m (if status = NA_STATUS_OK then NA_STATUS_BUFFER_TOO_SMALL else status)
                        (k\<lparr>ks_mem := um\<rparr>)
              else case receive_ranges_error frame v msg of
                Some status \<Rightarrow> cancel_with s side m status k
              | None \<Rightarrow>
                  (let (status, reserved, t) = reserve_native (mem A_reserved) (resource_count msg) (ks_table k);
                       k1 = k\<lparr>ks_table := t\<rparr>
                   in if status \<noteq> NA_STATUS_OK then cancel_with s side m status k1
                      else let (status1, um1) = copy_to (ks_mem k1) (rf_bytes v) (cm_bytes msg) (cm_byte_count msg);
                               (status2, um2) = (if status1 = NA_STATUS_OK \<and> resource_count msg \<noteq> 0
                                 then copy_to um1 (rf_resources v) (Some (concat (map put_u64 reserved)))
                                        (resource_count msg * sizeof_handle)
                                 else (status1, um1));
                               k2 = k1\<lparr>ks_mem := um2\<rparr>
                           in if status2 \<noteq> NA_STATUS_OK
                              then cancel_with s side m status2 (k2\<lparr>ks_table := rollback_native reserved (ks_table k2)\<rparr>)
                              else let v2 = v\<lparr>rf_actual_bytes := cm_byte_count msg, rf_actual_resources := resource_count msg,
                                          rf_required_bytes := 0, rf_required_resources := 0\<rparr>;
                                       (status3, um3) = copy_to um2 frame (Some (encode_receive_frame v2)) sizeof_receive_frame;
                                       k3 = k2\<lparr>ks_mem := um3\<rparr>
                                   in if status3 \<noteq> NA_STATUS_OK
                                      then cancel_with s side m status3
                                             (k3\<lparr>ks_table := rollback_native reserved (ks_table k3)\<rparr>)
                                      else finish_receive mem False s side m reserved (length (cm_resources msg)) k3)) }"

definition receive_raw_channel ::
  "(alloc_site \<Rightarrow> bool) \<Rightarrow> na_handle \<Rightarrow> u64 \<Rightarrow> ksys \<Rightarrow> (na_status \<times> ksys) option" where
  "receive_raw_channel mem endpoint frame k =
     (case lookup_endpoint endpoint k of
        Inl status \<Rightarrow> Some (status, k)
      | Inr (s, side) \<Rightarrow>
          in_operation s (\<lambda>k.
            (case copy_versioned (ks_mem k) sizeof_receive_frame frame of
               Inl status \<Rightarrow> Some (status, [], k)
             | Inr bs \<Rightarrow>
                 (case receive_frame_error (decode_receive_frame bs) of
                    Some status \<Rightarrow> Some (status, [], k)
                  | None \<Rightarrow>
                      do { (status, m, w) \<leftarrow> claim_receive s side (ks_world k);
                           (if status \<noteq> NA_STATUS_OK then Some (status, [], k\<lparr>ks_world := w\<rparr>)
                            else receive_message mem frame s side m (decode_receive_frame bs) (k\<lparr>ks_world := w\<rparr>)) }))) k)"

text \<open>
  The kernel receiver: \<open>buffer\<close> says whether the caller passes one. The result has the bytes
  and handles it gets.
\<close>

definition receive_kernel_body ::
  "(alloc_site \<Rightarrow> bool) \<Rightarrow> bool \<Rightarrow> u64 \<Rightarrow> sptr \<Rightarrow> nat \<Rightarrow> ksys \<Rightarrow>
     (na_status \<times> byte list \<times> na_handle list \<times> ksys) option" where
  "receive_kernel_body mem buffer byte_capacity s side k =
     do { (status, m, w) \<leftarrow> claim_receive s side (ks_world k);
          (if status \<noteq> NA_STATUS_OK then Some (status, [], [], k\<lparr>ks_world := w\<rparr>)
           else do { msg \<leftarrow> get_message w m;
             (if (cm_byte_count msg \<noteq> 0 \<and> \<not> buffer) \<or> cm_byte_count msg > byte_capacity \<or>
                 resource_count msg > NA_CAPABILITY_MAX_PER_PROCESS
              then do { (status, _, k1) \<leftarrow> cancel_with s side m NA_STATUS_BUFFER_TOO_SMALL (k\<lparr>ks_world := w\<rparr>);
                        Some (status, [], [], k1) }
              else let (status, handles, t) = reserve_native (mem A_reserved) (resource_count msg) (ks_table k);
                       k1 = k\<lparr>ks_world := w, ks_table := t\<rparr>
                   in if status \<noteq> NA_STATUS_OK
                      then do { (status, _, k2) \<leftarrow> cancel_with s side m status k1; Some (status, [], handles, k2) }
                      else do { (status, _, k2) \<leftarrow> finish_receive mem True s side m handles (length (cm_resources msg)) k1;
                                Some (status, if status = NA_STATUS_OK \<and> cm_byte_count msg \<noteq> 0 then the (cm_bytes msg) else [],
                                      handles, k2) }) }) }"

definition receive_raw_channel_kernel ::
  "(alloc_site \<Rightarrow> bool) \<Rightarrow> na_handle \<Rightarrow> bool \<Rightarrow> u64 \<Rightarrow> ksys \<Rightarrow>
     (na_status \<times> byte list \<times> na_handle list \<times> ksys) option" where
  "receive_raw_channel_kernel mem endpoint buffer byte_capacity k =
     (case lookup_endpoint endpoint k of
        Inl status \<Rightarrow> Some (status, [], [], k)
      | Inr (s, side) \<Rightarrow>
          do { w1 \<leftarrow> (if s = 0 then Some (ks_world k) else on_state s begin_operation (ks_world k));
               (status, bytes, handles, k1) \<leftarrow> receive_kernel_body mem buffer byte_capacity s side (k\<lparr>ks_world := w1\<rparr>);
               w2 \<leftarrow> (if s = 0 then Some (ks_world k1) else on_state s end_operation (ks_world k1));
               Some (status, bytes, handles, k1\<lparr>ks_world := w2\<rparr>) })"

section \<open>Discarding\<close>

definition discard_raw_channel :: "(alloc_site \<Rightarrow> bool) \<Rightarrow> na_handle \<Rightarrow> ksys \<Rightarrow> (na_status \<times> ksys) option" where
  "discard_raw_channel mem endpoint k =
     (case lookup_endpoint endpoint k of
        Inl status \<Rightarrow> Some (status, k)
      | Inr (s, side) \<Rightarrow>
          do { w1 \<leftarrow> (if s = 0 then Some (ks_world k) else on_state s begin_operation (ks_world k));
               (discarded, m, w2) \<leftarrow> state_discard s side w1;
               w3 \<leftarrow> (if s = 0 then Some w2 else on_state s end_operation w2);
               (if \<not> discarded
                then do { k1 \<leftarrow> collect mem (k\<lparr>ks_world := w3\<rparr>); Some (NA_STATUS_WOULD_BLOCK, k1) }
                else do { k1 \<leftarrow> drop_message m (k\<lparr>ks_world := w3\<rparr>);
                          k2 \<leftarrow> collect mem k1;
                          Some (NA_STATUS_OK, k2) }) })"

end
