(* ===== verification/Channel_Heap.thy ===== *)
theory Channel_Heap
  imports Channel_Gc
begin

text \<open>
  Invariants of the kernel heap of channels. \<open>heap_ok\<close> says that every live endpoint belongs
  to a live state and that a state counts its endpoint objects; \<open>refs_ok ext\<close> says that the
  reference count of an object is the number of queued or undelivered resources that hold it
  plus \<open>ext\<close>, the references held outside messages (tables, batches, kernel handles). Under
  these invariants hooks and reference events touch no freed memory (\<open>apply_events_ok\<close>).
  Addresses fit a pointer: \<open>kw_next\<close> is at most \<open>2 ^ 64\<close>.
\<close>

section \<open>Association lists as multisets\<close>

lemma map_of_in_mset: "map_of al k = Some v \<Longrightarrow> (k, v) \<in># mset al"
  by (simp add: map_of_SomeD)

lemma mset_alist_update:
  assumes "distinct (map fst al)" "map_of al k = Some v"
  shows "mset (AList.update k v' al) = add_mset (k, v') (mset al - {#(k, v)#})"
  using assms
proof (induction al)
  case (Cons kv al)
  obtain k0 v0 where kv: "kv = (k0, v0)" by fastforce
  show ?case
  proof (cases "k0 = k")
    case True
    with Cons.prems kv show ?thesis by simp
  next
    case False
    with Cons kv have "mset (AList.update k v' al) = add_mset (k, v') (mset al - {#(k, v)#})" by simp
    moreover from False have "(k, v) \<noteq> (k0, v0)" by simp
    ultimately show ?thesis
      using False kv diff_union_swap [of "(k, v)" "(k0, v0)" "mset al"]
      by (simp add: add_mset_commute [of "(k0, v0)" "(k, v')"])
  qed
qed simp

lemma mset_alist_new: "map_of al k = None \<Longrightarrow> mset (AList.update k v al) = add_mset (k, v) (mset al)"
  by (induction al) (auto simp: add_mset_commute)

lemma delete_notin: "k \<notin> fst ` set al \<Longrightarrow> AList.delete k al = al"
  by (induction al) auto

lemma mset_alist_delete:
  assumes "distinct (map fst al)" "map_of al k = Some v"
  shows "mset (AList.delete k al) = mset al - {#(k, v)#}"
  using assms
proof (induction al)
  case (Cons kv al)
  obtain k0 v0 where kv: "kv = (k0, v0)" by fastforce
  show ?case
  proof (cases "k0 = k")
    case True
    with Cons.prems kv have "k \<notin> fst ` set al" by simp
    then have "AList.delete k al = al" by (rule delete_notin)
    with True Cons.prems kv show ?thesis by simp
  next
    case False
    with Cons kv have "mset (AList.delete k al) = mset al - {#(k, v)#}" by simp
    moreover from False have "(k, v) \<noteq> (k0, v0)" by simp
    ultimately show ?thesis
      using False kv diff_union_swap [of "(k, v)" "(k0, v0)" "mset al"] by simp
  qed
qed simp

lemma keys_alist_update:
  "map_of al k = Some v \<Longrightarrow> map fst (AList.update k v' al) = map fst al"
  by (induction al) auto

lemma distinct_keys_update: "distinct (map fst al) \<Longrightarrow> distinct (map fst (AList.update k v al))"
  by (rule distinct_update)

lemma distinct_keys_delete: "distinct (map fst al) \<Longrightarrow> distinct (map fst (AList.delete k al))"
  by (rule distinct_delete)

text \<open>An update that keeps an image of the values keeps the image of the whole list.\<close>

lemma map_alist_update_same:
  "map_of al k = Some v \<Longrightarrow> f v' = f v \<Longrightarrow>
   map (\<lambda>(k, v). (k, f v)) (AList.update k v' al) = map (\<lambda>(k, v). (k, f v)) al"
  by (induction al) auto

section \<open>The invariant\<close>

definition is_endpoint_of :: "sptr \<Rightarrow> oid \<times> kernel_object \<Rightarrow> bool" where
  "is_endpoint_of s p \<longleftrightarrow> (case ko_kind (snd p) of ko_endpoint s' _ \<Rightarrow> s' = s | ko_other _ _ _ \<Rightarrow> False)"

definition endpoint_count :: "kworld \<Rightarrow> sptr \<Rightarrow> nat" where
  "endpoint_count w s = size (filter_mset (is_endpoint_of s) (mset (kw_objects w)))"

definition keys_ok :: "kworld \<Rightarrow> bool" where
  "keys_ok w \<longleftrightarrow>
     distinct (map fst (kw_states w)) \<and> distinct (map fst (kw_messages w)) \<and> distinct (map fst (kw_objects w)) \<and>
     0 < kw_next w \<and> kw_next w \<le> 2 ^ 64 \<and>
     (\<forall>x \<in> fst ` set (kw_states w) \<union> fst ` set (kw_messages w) \<union> fst ` set (kw_objects w). 0 < x \<and> x < kw_next w)"

definition heap_ok :: "kworld \<Rightarrow> bool" where
  "heap_ok w \<longleftrightarrow>
     keys_ok w \<and>
     (\<forall>ob obj s side. get_object w ob = Some obj \<longrightarrow> ko_kind obj = ko_endpoint s side \<longrightarrow>
        side \<le> 1 \<and> get_state w s \<noteq> None) \<and>
     (\<forall>s st. get_state w s = Some st \<longrightarrow> cs_objects st = of_nat (endpoint_count w s))"

definition obj_refs :: "kworld \<Rightarrow> oid \<Rightarrow> nat" where
  "obj_refs w ob = (case get_object w ob of None \<Rightarrow> 0 | Some obj \<Rightarrow> ko_refs obj)"

definition res_count :: "oid \<Rightarrow> transferred_resource list \<Rightarrow> nat" where
  "res_count ob rs = length (filter (\<lambda>r. tr_object r = Some ob) rs)"

definition msg_refs :: "kworld \<Rightarrow> oid \<Rightarrow> nat" where
  "msg_refs w ob = (\<Sum>p \<in># mset (kw_messages w). res_count ob (cm_resources (snd p)))"

definition refs_ok :: "(oid \<Rightarrow> nat) \<Rightarrow> kworld \<Rightarrow> bool" where
  "refs_ok ext w \<longleftrightarrow>
     (\<forall>ob. obj_refs w ob = msg_refs w ob + ext ob \<and> (get_object w ob \<noteq> None \<longrightarrow> 0 < obj_refs w ob))"

text \<open>What hooks and reference events leave alone: everything but the counters of capabilities and objects.\<close>

definition cs_core :: "channel_state \<Rightarrow> channel_state" where
  "cs_core st = st\<lparr>cs_owners := \<lambda>_. 0, cs_roots := \<lambda>_. 0, cs_objects := 0\<rparr>"

definition same_core :: "kworld \<Rightarrow> kworld \<Rightarrow> bool" where
  "same_core w w' \<longleftrightarrow>
     kw_messages w' = kw_messages w \<and> kw_globals w' = kw_globals w \<and> kw_registry w' = kw_registry w \<and>
     kw_next w' = kw_next w \<and> kw_generation w' = kw_generation w \<and>
     map (\<lambda>(s, st). (s, cs_core st)) (kw_states w') = map (\<lambda>(s, st). (s, cs_core st)) (kw_states w)"

lemma same_core_refl [simp]: "same_core w w"
  by (simp add: same_core_def)

lemma same_core_trans: "same_core w w' \<Longrightarrow> same_core w' w'' \<Longrightarrow> same_core w w''"
  by (simp add: same_core_def)

lemma map_of_map_core: "map_of (map (\<lambda>(s, st). (s, f st)) al) s = map_option f (map_of al s)"
  by (induction al) auto

lemma same_core_get:
  assumes "same_core w w'"
  shows "map_option cs_core (get_state w' s) = map_option cs_core (get_state w s)"
proof -
  have "map_of (map (\<lambda>(s, st). (s, cs_core st)) (kw_states w')) s =
      map_of (map (\<lambda>(s, st). (s, cs_core st)) (kw_states w)) s"
    using assms by (simp add: same_core_def)
  then show ?thesis by (simp only: map_of_map_core get_state_def)
qed

lemma keys_map_core: "map fst (map (\<lambda>(s, st). (s, f st)) al) = map fst al"
  by (induction al) auto

lemma same_core_keys:
  assumes "same_core w w'"
  shows "map fst (kw_states w') = map fst (kw_states w)"
proof -
  have "map fst (map (\<lambda>(s, st). (s, cs_core st)) (kw_states w')) =
      map fst (map (\<lambda>(s, st). (s, cs_core st)) (kw_states w))"
    using assms by (simp add: same_core_def)
  then show ?thesis unfolding keys_map_core .
qed

section \<open>Lookup after update\<close>

lemma heap_get_put [simp]:
  "get_state (put_state s st w) t = (if t = s then Some st else get_state w t)"
  "get_message (put_state s st w) m = get_message w m"
  "get_object (put_state s st w) ob = get_object w ob"
  "get_message (put_message n msg w) m = (if m = n then Some msg else get_message w m)"
  "get_state (put_message n msg w) t = get_state w t"
  "get_object (put_message n msg w) ob = get_object w ob"
  "get_object (put_object p obj w) ob = (if ob = p then Some obj else get_object w ob)"
  "get_state (put_object p obj w) t = get_state w t"
  "get_message (put_object p obj w) m = get_message w m"
  by (auto simp: get_state_def put_state_def get_message_def put_message_def get_object_def put_object_def
      update_conv')

lemma put_fields [simp]:
  "kw_messages (put_state s st w) = kw_messages w" "kw_objects (put_state s st w) = kw_objects w"
  "kw_registry (put_state s st w) = kw_registry w" "kw_globals (put_state s st w) = kw_globals w"
  "kw_next (put_state s st w) = kw_next w" "kw_generation (put_state s st w) = kw_generation w"
  "kw_states (put_object ob obj w) = kw_states w" "kw_messages (put_object ob obj w) = kw_messages w"
  "kw_registry (put_object ob obj w) = kw_registry w" "kw_globals (put_object ob obj w) = kw_globals w"
  "kw_next (put_object ob obj w) = kw_next w" "kw_generation (put_object ob obj w) = kw_generation w"
  "kw_states (put_message m msg w) = kw_states w" "kw_objects (put_message m msg w) = kw_objects w"
  "kw_registry (put_message m msg w) = kw_registry w" "kw_globals (put_message m msg w) = kw_globals w"
  "kw_next (put_message m msg w) = kw_next w" "kw_generation (put_message m msg w) = kw_generation w"
  by (simp_all add: put_state_def put_object_def put_message_def)

lemma get_upd [simp]:
  "get_state (w\<lparr>kw_globals := g\<rparr>) s = get_state w s" "get_message (w\<lparr>kw_globals := g\<rparr>) m = get_message w m"
  "get_object (w\<lparr>kw_globals := g\<rparr>) ob = get_object w ob"
  "get_state (w\<lparr>kw_generation := n\<rparr>) s = get_state w s" "get_message (w\<lparr>kw_generation := n\<rparr>) m = get_message w m"
  "get_object (w\<lparr>kw_generation := n\<rparr>) ob = get_object w ob"
  "get_state (w\<lparr>kw_registry := r\<rparr>) s = get_state w s" "get_message (w\<lparr>kw_registry := r\<rparr>) m = get_message w m"
  "get_object (w\<lparr>kw_registry := r\<rparr>) ob = get_object w ob"
  "get_state (w\<lparr>kw_next := i\<rparr>) s = get_state w s" "get_message (w\<lparr>kw_next := i\<rparr>) m = get_message w m"
  "get_object (w\<lparr>kw_next := i\<rparr>) ob = get_object w ob"
  "get_state (w\<lparr>kw_messages := ms\<rparr>) s = get_state w s" "get_object (w\<lparr>kw_messages := ms\<rparr>) ob = get_object w ob"
  "get_state (w\<lparr>kw_objects := os\<rparr>) s = get_state w s" "get_message (w\<lparr>kw_objects := os\<rparr>) m = get_message w m"
  "get_message (w\<lparr>kw_states := ss\<rparr>) m = get_message w m" "get_object (w\<lparr>kw_states := ss\<rparr>) ob = get_object w ob"
  by (simp_all add: get_state_def get_message_def get_object_def)

lemma in_keys_get:
  "s \<in> fst ` set (kw_states w) \<longleftrightarrow> get_state w s \<noteq> None"
  "m \<in> fst ` set (kw_messages w) \<longleftrightarrow> get_message w m \<noteq> None"
  "ob \<in> fst ` set (kw_objects w) \<longleftrightarrow> get_object w ob \<noteq> None"
  by (auto simp: get_state_def get_message_def get_object_def map_of_eq_None_iff)

lemma keys_ok_get:
  "keys_ok w \<longleftrightarrow>
     distinct (map fst (kw_states w)) \<and> distinct (map fst (kw_messages w)) \<and> distinct (map fst (kw_objects w)) \<and>
     0 < kw_next w \<and> kw_next w \<le> 2 ^ 64 \<and>
     (\<forall>x. get_state w x \<noteq> None \<or> get_message w x \<noteq> None \<or> get_object w x \<noteq> None \<longrightarrow> 0 < x \<and> x < kw_next w)"
  unfolding keys_ok_def Ball_def Un_iff in_keys_get by (simp only: disj_assoc)

lemma heap_ok_nonzero [simp]:
  assumes "heap_ok w"
  shows "get_state w 0 = None" "get_message w 0 = None" "get_object w 0 = None"
proof -
  have "\<forall>x. get_state w x \<noteq> None \<or> get_message w x \<noteq> None \<or> get_object w x \<noteq> None \<longrightarrow> 0 < x"
    using assms by (simp add: heap_ok_def keys_ok_get)
  from this [THEN spec, of 0]
  show "get_state w 0 = None" "get_message w 0 = None" "get_object w 0 = None" by auto
qed

section \<open>Hooks\<close>

definition keeps_core :: "(channel_state \<Rightarrow> channel_state) \<Rightarrow> bool" where
  "keeps_core f \<longleftrightarrow> (\<forall>st. cs_core (f st) = cs_core st)"

lemma keeps_core_hooks [simp]:
  "keeps_core (capability_acquired side wh)" "keeps_core (capability_released side wh)"
  "keeps_core endpoint_object_destroyed" "keeps_core endpoint_object_created"
  by (simp_all add: keeps_core_def cs_core_def capability_acquired_def capability_released_def
      endpoint_object_destroyed_def endpoint_object_created_def Let_def)

lemma hooks_keep_objects [simp]:
  "cs_objects (capability_acquired side wh st) = cs_objects st"
  "cs_objects (capability_released side wh st) = cs_objects st"
  by (simp_all add: capability_acquired_def capability_released_def Let_def)

lemma same_core_put:
  assumes "get_state w s = Some st" "cs_core st' = cs_core st"
  shows "same_core w (put_state s st' w)"
  using assms map_alist_update_same [of "kw_states w" s st cs_core st']
  by (simp add: same_core_def) (simp add: put_state_def get_state_def)

lemma keys_ok_put_state:
  assumes "keys_ok w" "get_state w s = Some st"
  shows "keys_ok (put_state s st' w)"
proof -
  have "map fst (kw_states (put_state s st' w)) = map fst (kw_states w)"
    using assms(2) by (simp add: put_state_def get_state_def keys_alist_update)
  with assms show ?thesis by (auto simp: keys_ok_get split: if_splits)
qed

lemma heap_ok_put_state:
  assumes "heap_ok w" "get_state w s = Some st" "cs_objects st' = cs_objects st"
  shows "heap_ok (put_state s st' w)"
  using assms keys_ok_put_state [of w s st st'] by (auto simp: heap_ok_def endpoint_count_def)

lemma heap_ok_endpoint:
  assumes "heap_ok w" "get_object w ob = Some obj" "ko_kind obj = ko_endpoint s side"
  shows "side \<le> 1 \<and> (\<exists>st. get_state w s = Some st)"
proof -
  have "side \<le> 1 \<and> get_state w s \<noteq> None" using assms unfolding heap_ok_def by blast
  then show ?thesis by simp
qed

lemma endpoint_hook_ok:
  assumes "heap_ok w" "get_object w ob \<noteq> None"
    and "\<And>side. keeps_core (f side)" "\<And>side st. cs_objects (f side st) = cs_objects st"
  shows "\<exists>w'. endpoint_hook f ob w = Some w' \<and> heap_ok w' \<and> same_core w w' \<and> kw_objects w' = kw_objects w"
proof -
  from assms(2) obtain obj where obj: "get_object w ob = Some obj" by blast
  show ?thesis
  proof (cases "ko_kind obj")
    case (ko_endpoint s side)
    with assms(1) obj obtain st where st: "get_state w s = Some st" using heap_ok_endpoint by blast
    from st assms(1) have "s \<noteq> 0" by (metis heap_ok_nonzero(1) option.distinct(1))
    with obj ko_endpoint st assms show ?thesis
      by (simp add: endpoint_hook_def on_state_def heap_ok_put_state same_core_put keeps_core_def)
  next
    case (ko_other t u g)
    with obj assms(1) show ?thesis by (simp add: endpoint_hook_def)
  qed
qed

lemma refs_ok_frame:
  assumes "refs_ok ext w" "kw_messages w' = kw_messages w" "kw_objects w' = kw_objects w"
  shows "refs_ok ext w'"
proof -
  have e: "\<And>ob. obj_refs w' ob = obj_refs w ob" "\<And>ob. msg_refs w' ob = msg_refs w ob"
    "\<And>ob. get_object w' ob = get_object w ob"
    using assms by (simp_all add: obj_refs_def msg_refs_def get_object_def)
  show ?thesis using assms(1) unfolding refs_ok_def e .
qed

section \<open>Reference events\<close>

text \<open>
  The references outside messages after a list of events; \<open>None\<close> if an event is about an object
  that nobody outside the messages holds.
\<close>

fun ext_event :: "cap_event \<Rightarrow> (oid \<Rightarrow> nat) \<Rightarrow> (oid \<Rightarrow> nat) option" where
  "ext_event (Ev_acquire ob wh) ext = (if ext ob = 0 then None else Some ext)"
| "ext_event (Ev_release ob wh) ext = (if ext ob = 0 then None else Some ext)"
| "ext_event (Ev_handoff ob wh wh') ext = (if ext ob = 0 then None else Some ext)"
| "ext_event (Ev_ref ob) ext = (if ext ob = 0 then None else Some (ext(ob := ext ob + 1)))"
| "ext_event (Ev_unref ob) ext = (if ext ob = 0 then None else Some (ext(ob := ext ob - 1)))"

fun ext_events :: "cap_event list \<Rightarrow> (oid \<Rightarrow> nat) \<Rightarrow> (oid \<Rightarrow> nat) option" where
  "ext_events [] ext = Some ext"
| "ext_events (e # es) ext = do { ext1 \<leftarrow> ext_event e ext; ext_events es ext1 }"

lemma ext_events_append: "ext_events (es @ es') ext = do { ext1 \<leftarrow> ext_events es ext; ext_events es' ext1 }"
  by (induction es arbitrary: ext) (auto split: bind_splits)

lemma refs_ok_live:
  assumes "refs_ok ext w" "0 < ext ob"
  shows "get_object w ob \<noteq> None"
proof
  assume "get_object w ob = None"
  then have "obj_refs w ob = 0" by (simp add: obj_refs_def)
  with assms show False by (simp add: refs_ok_def)
qed

lemma refs_ok_put_object:
  assumes "refs_ok ext w" "0 < n"
    "\<And>p. ext' p = (if p = ob then n - msg_refs w ob else ext p)" "msg_refs w ob \<le> n"
  shows "refs_ok ext' (put_object ob (obj\<lparr>ko_refs := n\<rparr>) w)"
  using assms by (auto simp: refs_ok_def obj_refs_def msg_refs_def)

lemma filter_mset_update_same:
  assumes "distinct (map fst al)" "map_of al k = Some v" "P (k, v') = P (k, v)"
  shows "size (filter_mset P (mset (AList.update k v' al))) = size (filter_mset P (mset al))"
proof -
  have "(k, v) \<in># mset al" using assms(2) by (rule map_of_in_mset)
  then obtain M where "mset al = add_mset (k, v) M" by (metis multi_member_split)
  with mset_alist_update [OF assms(1,2), of v'] assms(3) show ?thesis by simp
qed

lemma heap_ok_put_object:
  assumes "heap_ok w" "get_object w ob = Some obj" "ko_kind obj' = ko_kind obj"
  shows "heap_ok (put_object ob obj' w)"
proof -
  have d: "distinct (map fst (kw_objects w))" using assms(1) by (simp add: heap_ok_def keys_ok_def)
  have "map fst (kw_objects (put_object ob obj' w)) = map fst (kw_objects w)"
    using assms(2) by (simp add: put_object_def get_object_def keys_alist_update)
  with assms have k: "keys_ok (put_object ob obj' w)"
    by (auto simp: heap_ok_def keys_ok_get split: if_splits)
  have "endpoint_count (put_object ob obj' w) s = endpoint_count w s" for s
    using filter_mset_update_same [OF d, of ob obj "is_endpoint_of s" obj'] assms(2,3)
    by (simp add: endpoint_count_def put_object_def get_object_def is_endpoint_of_def)
  with k assms show ?thesis unfolding heap_ok_def by auto
qed

lemma get_object_delete [simp]:
  "get_object (w\<lparr>kw_objects := AList.delete ob (kw_objects w)\<rparr>) p = (if p = ob then None else get_object w p)"
  by (simp add: get_object_def delete_conv')

lemma object_ref_ok:
  assumes "heap_ok w" "refs_ok ext w" "0 < ext ob"
  shows "\<exists>w'. object_ref ob w = Some w' \<and> heap_ok w' \<and> refs_ok (ext(ob := ext ob + 1)) w' \<and> same_core w w'"
proof -
  from refs_ok_live [OF assms(2,3)] obtain obj where obj: "get_object w ob = Some obj" by blast
  with assms(2) have n: "ko_refs obj = msg_refs w ob + ext ob"
    by (auto simp: refs_ok_def obj_refs_def dest: spec [of _ ob])
  let ?w = "put_object ob (obj\<lparr>ko_refs := ko_refs obj + 1\<rparr>) w"
  have "refs_ok (ext(ob := ext ob + 1)) ?w"
    by (rule refs_ok_put_object [OF assms(2)]) (auto simp: n)
  moreover have "heap_ok ?w" using assms(1) obj by (rule heap_ok_put_object) simp
  ultimately show ?thesis using obj by (simp add: object_ref_def same_core_def)
qed

lemma endpoint_count_delete:
  assumes "heap_ok w" "get_object w ob = Some obj"
  shows "endpoint_count (w\<lparr>kw_objects := AList.delete ob (kw_objects w)\<rparr>) s =
    (if is_endpoint_of s (ob, obj) then endpoint_count w s - 1 else endpoint_count w s)"
proof -
  have d: "distinct (map fst (kw_objects w))" using assms(1) by (simp add: heap_ok_def keys_ok_def)
  have "(ob, obj) \<in># mset (kw_objects w)" using assms(2) unfolding get_object_def by (rule map_of_in_mset)
  then obtain M where "mset (kw_objects w) = add_mset (ob, obj) M" by (metis multi_member_split)
  with mset_alist_delete [OF d, of ob obj] assms(2) show ?thesis
    by (simp add: endpoint_count_def get_object_def)
qed

lemma endpoint_count_pos:
  assumes "get_object w ob = Some obj" "is_endpoint_of s (ob, obj)"
  shows "0 < endpoint_count w s"
proof -
  have "(ob, obj) \<in># filter_mset (is_endpoint_of s) (mset (kw_objects w))"
    using assms map_of_in_mset [of "kw_objects w" ob obj] by (simp add: get_object_def)
  then have "filter_mset (is_endpoint_of s) (mset (kw_objects w)) \<noteq> {#}" by (metis empty_not_add_mset multi_member_split)
  then show ?thesis unfolding endpoint_count_def by (simp only: nonempty_has_size)
qed

lemma keys_ok_delete_object:
  "keys_ok w \<Longrightarrow> keys_ok (w\<lparr>kw_objects := AList.delete ob (kw_objects w)\<rparr>)"
  by (auto simp: keys_ok_get distinct_keys_delete)

lemma heap_ok_delete_object:
  assumes "heap_ok w" "keys_ok w'"
    "\<And>p obj. get_object w' p = Some obj \<Longrightarrow> get_object w p = Some obj"
    "\<And>t. get_state w' t = None \<longleftrightarrow> get_state w t = None"
    "\<And>t st. get_state w' t = Some st \<Longrightarrow> cs_objects st = of_nat (endpoint_count w' t)"
  shows "heap_ok w'"
  using assms unfolding heap_ok_def by blast

lemma destroy_object_ok:
  assumes "heap_ok w" "get_object w ob = Some obj"
  shows "\<exists>w'. destroy_object ob w = Some w' \<and> heap_ok w' \<and> same_core w w' \<and>
    kw_objects w' = AList.delete ob (kw_objects w)"
proof (cases "ko_kind obj")
  case (ko_endpoint s side)
  with assms obtain st where st: "get_state w s = Some st" using heap_ok_endpoint by blast
  have s0: "s \<noteq> 0" using st assms(1) by (metis heap_ok_nonzero(1) option.distinct(1))
  have ep: "is_endpoint_of t (ob, obj) \<longleftrightarrow> t = s" for t using ko_endpoint by (auto simp: is_endpoint_of_def)
  let ?w1 = "put_state s (endpoint_object_destroyed st) w"
  let ?w2 = "?w1\<lparr>kw_objects := AList.delete ob (kw_objects w)\<rparr>"
  have cnt: "endpoint_count ?w2 t = (if t = s then endpoint_count w t - 1 else endpoint_count w t)" for t
    using endpoint_count_delete [OF assms, of t] ep by (simp add: endpoint_count_def)
  have w2: "heap_ok ?w2"
  proof (rule heap_ok_delete_object [OF assms(1)])
    have "keys_ok ?w1" using assms(1) st keys_ok_put_state by (simp add: heap_ok_def)
    from keys_ok_delete_object [OF this, of ob] show "keys_ok ?w2" by simp
    show "cs_objects st' = of_nat (endpoint_count ?w2 t)" if "get_state ?w2 t = Some st'" for t st'
    proof (cases "t = s")
      case True
      have "cs_objects st = of_nat (endpoint_count w s)" using assms(1) st unfolding heap_ok_def by blast
      with True that endpoint_count_pos [OF assms(2), of s] show ?thesis
        by (simp only: cnt) (auto simp add: endpoint_object_destroyed_def of_nat_diff ep)
    next
      case False
      with that have "get_state w t = Some st'" by simp
      then have "cs_objects st' = of_nat (endpoint_count w t)" using assms(1) unfolding heap_ok_def by blast
      with False show ?thesis by (simp only: cnt if_False)
    qed
  qed (use st in \<open>auto simp: get_object_def delete_conv' split: if_splits\<close>)
  have "same_core w ?w2"
    using same_core_put [OF st, of "endpoint_object_destroyed st"] keeps_core_hooks(3)
    by (simp add: same_core_def keeps_core_def)
  with w2 show ?thesis
    using assms(2) ko_endpoint st s0 by (simp add: destroy_object_def endpoint_hook_def on_state_def)
next
  case (ko_other t u g)
  let ?w = "w\<lparr>kw_objects := AList.delete ob (kw_objects w)\<rparr>"
  have "endpoint_count ?w s = endpoint_count w s" for s
    using endpoint_count_delete [OF assms, of s] ko_other by (simp add: is_endpoint_of_def)
  moreover have "keys_ok ?w" using assms(1) keys_ok_delete_object by (simp add: heap_ok_def)
  ultimately have "heap_ok ?w"
    using assms(1) by (intro heap_ok_delete_object [OF assms(1)]) (simp_all add: heap_ok_def split: if_splits)
  then show ?thesis using assms(2) ko_other by (simp add: destroy_object_def endpoint_hook_def same_core_def)
qed

lemma object_unref_ok:
  assumes "heap_ok w" "refs_ok ext w" "0 < ext ob"
  shows "\<exists>w'. object_unref ob w = Some w' \<and> heap_ok w' \<and> refs_ok (ext(ob := ext ob - 1)) w' \<and> same_core w w'"
proof -
  from refs_ok_live [OF assms(2,3)] obtain obj where obj: "get_object w ob = Some obj" by blast
  with assms(2) have n: "ko_refs obj = msg_refs w ob + ext ob"
    by (auto simp: refs_ok_def obj_refs_def dest: spec [of _ ob])
  show ?thesis
  proof (cases "ko_refs obj \<le> 1")
    case True
    with n assms(3) have one: "msg_refs w ob = 0" "ext ob = 1" by auto
    obtain w' where w': "destroy_object ob w = Some w'" "heap_ok w'" "same_core w w'"
        "kw_objects w' = AList.delete ob (kw_objects w)"
      using destroy_object_ok [OF assms(1) obj] by blast
    have "get_object w' p = (if p = ob then None else get_object w p)" for p
      using w'(4) by (simp add: get_object_def delete_conv')
    moreover have "msg_refs w' p = msg_refs w p" for p using w'(3) by (simp add: msg_refs_def same_core_def)
    ultimately have "refs_ok (ext(ob := ext ob - 1)) w'"
      using assms(2) one by (auto simp: refs_ok_def obj_refs_def)
    with True obj w' show ?thesis by (simp add: object_unref_def)
  next
    case False
    let ?w = "put_object ob (obj\<lparr>ko_refs := ko_refs obj - 1\<rparr>) w"
    have "refs_ok (ext(ob := ext ob - 1)) ?w"
      by (rule refs_ok_put_object [OF assms(2)]) (use n False assms(3) in auto)
    moreover have "heap_ok ?w" using assms(1) obj by (rule heap_ok_put_object) simp
    ultimately show ?thesis using False obj by (simp add: object_unref_def same_core_def)
  qed
qed

lemma hook_event_ok:
  assumes "heap_ok w" "refs_ok ext w" "0 < ext ob"
    and "\<And>side. keeps_core (f side)" "\<And>side st. cs_objects (f side st) = cs_objects st"
  shows "\<exists>w'. endpoint_hook f ob w = Some w' \<and> heap_ok w' \<and> refs_ok ext w' \<and> same_core w w'"
proof -
  obtain w' where "endpoint_hook f ob w = Some w'" "heap_ok w'" "same_core w w'" "kw_objects w' = kw_objects w"
    using endpoint_hook_ok [OF assms(1) refs_ok_live [OF assms(2,3)], of f] assms(4,5) by blast
  moreover from this have "refs_ok ext w'" by (intro refs_ok_frame [OF assms(2)]) (simp_all add: same_core_def)
  ultimately show ?thesis by blast
qed

lemma apply_event_ok:
  assumes "heap_ok w" "refs_ok ext w" "ext_event e ext = Some ext'"
  shows "\<exists>w'. apply_event e w = Some w' \<and> heap_ok w' \<and> refs_ok ext' w' \<and> same_core w w'"
proof (cases e)
  case (Ev_acquire ob wh)
  with assms hook_event_ok [OF assms(1,2), of ob "\<lambda>side. capability_acquired side wh"] show ?thesis
    by (auto simp: on_capability_acquire_def split: if_splits)
next
  case (Ev_release ob wh)
  with assms hook_event_ok [OF assms(1,2), of ob "\<lambda>side. capability_released side wh"] show ?thesis
    by (auto simp: on_capability_release_def split: if_splits)
next
  case (Ev_handoff ob wh wh')
  with assms hook_event_ok [OF assms(1,2), of ob "\<lambda>side. capability_released side wh"] show ?thesis
    by (auto simp: on_capability_handoff_def split: if_splits)
next
  case (Ev_ref ob)
  with assms object_ref_ok [OF assms(1,2), of ob] show ?thesis by (auto split: if_splits)
next
  case (Ev_unref ob)
  with assms object_unref_ok [OF assms(1,2), of ob] show ?thesis by (auto split: if_splits)
qed

lemma apply_events_ok:
  assumes "heap_ok w" "refs_ok ext w" "ext_events es ext = Some ext'"
  shows "\<exists>w'. apply_events es w = Some w' \<and> heap_ok w' \<and> refs_ok ext' w' \<and> same_core w w'"
  using assms
proof (induction es arbitrary: w ext)
  case Nil
  then show ?case by simp
next
  case (Cons e es)
  from Cons.prems(3) obtain ext1 where e1: "ext_event e ext = Some ext1" "ext_events es ext1 = Some ext'"
    by (auto split: bind_splits)
  obtain w1 where w1: "apply_event e w = Some w1" "heap_ok w1" "refs_ok ext1 w1" "same_core w w1"
    using apply_event_ok [OF Cons.prems(1,2) e1(1)] by blast
  from Cons.IH [OF w1(2,3) e1(2)] w1 show ?case by (auto intro: same_core_trans)
qed

section \<open>Destroying resources and messages\<close>

lemma ext_events_destroy:
  "ext_events (concat (map tr_destroy rs)) (\<lambda>ob. res_count ob rs + ext ob) = Some ext"
proof (induction rs)
  case (Cons r rs)
  show ?case
  proof (cases "tr_object r")
    case None
    then have "tr_destroy r = []" by (simp add: tr_destroy_def tr_release_transit_def h_drop_def)
    with Cons None show ?thesis by (simp add: res_count_def)
  next
    case (Some ob)
    let ?e = "\<lambda>p. res_count p (r # rs) + ext p"
    have pos: "0 < ?e ob" using Some by (simp add: res_count_def)
    have dec: "?e(ob := ?e ob - 1) = (\<lambda>p. res_count p rs + ext p)" using Some by (auto simp: res_count_def)
    have "ext_events (tr_destroy r) ?e = Some (?e(ob := ?e ob - 1))"
      using Some pos by (cases "tr_in_transit r") (auto simp: tr_destroy_def tr_release_transit_def h_drop_def)
    with Cons dec show ?thesis by (simp add: ext_events_append)
  qed
qed (simp add: res_count_def)

text \<open>Deleting a message gives back the references its resources hold.\<close>

lemma get_message_delete [simp]:
  "get_message (w\<lparr>kw_messages := AList.delete m (kw_messages w)\<rparr>) n = (if n = m then None else get_message w n)"
  by (simp add: get_message_def delete_conv')

lemma msg_refs_delete:
  assumes "heap_ok w" "get_message w m = Some msg"
  shows "msg_refs w ob = msg_refs (w\<lparr>kw_messages := AList.delete m (kw_messages w)\<rparr>) ob + res_count ob (cm_resources msg)"
proof -
  have d: "distinct (map fst (kw_messages w))" using assms(1) by (simp add: heap_ok_def keys_ok_def)
  have "(m, msg) \<in># mset (kw_messages w)" using assms(2) unfolding get_message_def by (rule map_of_in_mset)
  then obtain M where "mset (kw_messages w) = add_mset (m, msg) M" by (metis multi_member_split)
  with mset_alist_delete [OF d, of m msg] assms(2) show ?thesis by (simp add: msg_refs_def get_message_def)
qed

lemma heap_ok_delete_message:
  assumes "heap_ok w"
  shows "heap_ok (w\<lparr>kw_messages := AList.delete m (kw_messages w)\<rparr>)"
  using assms by (auto simp: heap_ok_def keys_ok_get distinct_keys_delete endpoint_count_def)

lemma delete_message_ok:
  assumes "heap_ok w" "refs_ok ext w" "get_message w m = Some msg"
  shows "\<exists>w'. delete_message m w = Some w' \<and> heap_ok w' \<and> refs_ok ext w' \<and>
    same_core (w\<lparr>kw_messages := AList.delete m (kw_messages w)\<rparr>) w'"
proof -
  let ?w = "w\<lparr>kw_messages := AList.delete m (kw_messages w)\<rparr>"
  have "obj_refs ?w ob = obj_refs w ob" for ob by (simp add: obj_refs_def)
  then have refs: "refs_ok (\<lambda>ob. res_count ob (cm_resources msg) + ext ob) ?w"
    using assms(2) msg_refs_delete [OF assms(1,3)] by (auto simp: refs_ok_def)
  obtain w' where "apply_events (concat (map tr_destroy (cm_resources msg))) ?w = Some w'"
      "heap_ok w'" "refs_ok ext w'" "same_core ?w w'"
    using apply_events_ok [OF heap_ok_delete_message [OF assms(1)] refs ext_events_destroy] by blast
  then show ?thesis using assms(3) by (simp add: delete_message_def)
qed

end
