(* ===== verification/Channel_Quota.thy ===== *)
theory Channel_Quota
  imports Channel_Heap Resource_Batch
begin

text \<open>
  The quotas of channels: what a queue counts is what its messages weigh and stays within the
  limits of the channel, and the global counters are the sums over all queues and stay within
  the global limits, with no counter wrapping around. The operations on a channel state are
  characterised on their abstraction: a message list for each direction.
\<close>

section \<open>Counters\<close>

lemma reserve_counter_eq:
  "reserve_counter c a l = (if unat c + unat a \<le> unat l then (True, c + a) else (False, c))"
proof (cases "a \<le> l")
  case True
  then have "l - a < c \<longleftrightarrow> \<not> unat c + unat a \<le> unat l"
    by (auto simp: word_less_nat_alt word_le_nat_alt unat_sub_le)
  with True show ?thesis by (auto simp: reserve_counter_def)
next
  case False
  then show ?thesis by (auto simp: reserve_counter_def word_le_nat_alt word_less_nat_alt)
qed

lemma unat_add_le_limit:
  fixes c a l :: u64
  assumes "unat c + unat a \<le> unat l"
  shows "unat (c + a) = unat c + unat a" "c + a \<le> l"
proof -
  have "unat l < 2 ^ LENGTH(64)" by (rule unsigned_less)
  then have "unat l < 2 ^ 64" by simp
  with assms have *: "unat (c + a) = unat c + unat a" by (intro unat_add_no_wrap) linarith
  then show "unat (c + a) = unat c + unat a" .
  from * assms show "c + a \<le> l" by (simp add: word_le_nat_alt)
qed

definition global_room :: "u64 \<Rightarrow> u64 \<Rightarrow> globals \<Rightarrow> bool" where
  "global_room bytes resources g \<longleftrightarrow>
     unat (g_messages g) + 1 \<le> unat NA_CHANNEL_GLOBAL_MAX_MESSAGES \<and>
     unat (g_bytes g) + unat bytes \<le> unat NA_CHANNEL_GLOBAL_MAX_BYTES \<and>
     unat (g_resources g) + unat resources \<le> unat NA_CHANNEL_GLOBAL_MAX_RESOURCES"

lemma reserve_global_eq:
  "reserve_global bytes resources g =
     (if global_room bytes resources g
      then (True, g\<lparr>g_messages := g_messages g + 1, g_bytes := g_bytes g + bytes,
                    g_resources := g_resources g + resources\<rparr>)
      else (False, g))"
  by (auto simp: reserve_global_def global_room_def reserve_counter_eq release_counter_def Let_def)

lemma release_reserved_global:
  "release_global bytes resources (g\<lparr>g_messages := g_messages g + 1, g_bytes := g_bytes g + bytes,
     g_resources := g_resources g + resources\<rparr>) = g"
  by (simp add: release_global_def release_counter_def)

section \<open>Weights\<close>

definition msg_bytes :: "kworld \<Rightarrow> mptr \<Rightarrow> nat" where
  "msg_bytes w m = (case get_message w m of None \<Rightarrow> 0 | Some msg \<Rightarrow> unat (cm_byte_count msg))"

definition msg_resources :: "kworld \<Rightarrow> mptr \<Rightarrow> nat" where
  "msg_resources w m = (case get_message w m of None \<Rightarrow> 0 | Some msg \<Rightarrow> length (cm_resources msg))"

definition queue_list :: "channel_state \<Rightarrow> nat \<Rightarrow> mptr list" where
  "queue_list st side = bq_contents (cq_fifo (cs_queues st side))"

definition st_messages :: "channel_state \<Rightarrow> mptr multiset" where
  "st_messages st = mset (queue_list st 0) + mset (queue_list st 1)"

definition queued :: "kworld \<Rightarrow> mptr multiset" where
  "queued w = (\<Sum>p \<in># mset (kw_states w). st_messages (snd p))"

definition messages_ok :: "kworld \<Rightarrow> bool" where
  "messages_ok w \<longleftrightarrow>
     (\<forall>m msg. get_message w m = Some msg \<longrightarrow> length (cm_resources msg) \<le> unat (cm_resource_capacity msg))"

definition queue_ok :: "kworld \<Rightarrow> channel_state \<Rightarrow> channel_queue \<Rightarrow> bool" where
  "queue_ok w st q \<longleftrightarrow>
     bq_invar (cq_fifo q) \<and> bq_storage (cq_fifo q) \<noteq> None \<and> bq_capacity (cq_fifo q) = unat (cs_max_messages st) \<and>
     unat (cq_bytes q) = (\<Sum>m \<in># mset (bq_contents (cq_fifo q)). msg_bytes w m) \<and>
     unat (cq_resources q) = (\<Sum>m \<in># mset (bq_contents (cq_fifo q)). msg_resources w m) \<and>
     cq_bytes q \<le> cs_max_bytes st \<and> cq_resources q \<le> cs_max_resources st"

definition claims_ok :: "channel_state \<Rightarrow> bool" where
  "claims_ok st \<longleftrightarrow>
     cs_claims st = of_bool (bq_claimed (cq_fifo (cs_queues st 0))) + of_bool (bq_claimed (cq_fifo (cs_queues st 1)))"

definition state_ok :: "kworld \<Rightarrow> channel_state \<Rightarrow> bool" where
  "state_ok w st \<longleftrightarrow> cs_valid st \<and> cs_max_messages st \<noteq> 0 \<and>
     queue_ok w st (cs_queues st 0) \<and> queue_ok w st (cs_queues st 1) \<and> claims_ok st"

definition globals_ok :: "kworld \<Rightarrow> bool" where
  "globals_ok w \<longleftrightarrow>
     unat (g_messages (kw_globals w)) = size (queued w) \<and>
     unat (g_bytes (kw_globals w)) = (\<Sum>m \<in># queued w. msg_bytes w m) \<and>
     unat (g_resources (kw_globals w)) = (\<Sum>m \<in># queued w. msg_resources w m) \<and>
     g_messages (kw_globals w) \<le> NA_CHANNEL_GLOBAL_MAX_MESSAGES \<and>
     g_bytes (kw_globals w) \<le> NA_CHANNEL_GLOBAL_MAX_BYTES \<and>
     g_resources (kw_globals w) \<le> NA_CHANNEL_GLOBAL_MAX_RESOURCES"

definition quota_ok :: "kworld \<Rightarrow> bool" where
  "quota_ok w \<longleftrightarrow>
     (\<forall>s st. get_state w s = Some st \<longrightarrow> state_ok w st) \<and> messages_ok w \<and> globals_ok w \<and>
     (\<forall>m. m \<in># queued w \<longrightarrow> get_message w m \<noteq> None) \<and> (\<forall>m. count (queued w) m \<le> 1)"

definition registry_ok :: "kworld \<Rightarrow> bool" where
  "registry_ok w \<longleftrightarrow> distinct (kw_registry w) \<and> (\<forall>s. s \<in> set (kw_registry w) \<longleftrightarrow> get_state w s \<noteq> None)"

definition chan_ok :: "(oid \<Rightarrow> nat) \<Rightarrow> kworld \<Rightarrow> bool" where
  "chan_ok ext w \<longleftrightarrow> heap_ok w \<and> refs_ok ext w \<and> quota_ok w \<and> registry_ok w"

section \<open>Frames\<close>

lemma core_simps [simp]:
  "cs_queues (cs_core st) = cs_queues st" "cs_max_messages (cs_core st) = cs_max_messages st"
  "cs_max_bytes (cs_core st) = cs_max_bytes st" "cs_max_resources (cs_core st) = cs_max_resources st"
  "cs_claims (cs_core st) = cs_claims st" "cs_valid (cs_core st) = cs_valid st"
  "cs_operations (cs_core st) = cs_operations st"
  "queue_list (cs_core st) side = queue_list st side" "st_messages (cs_core st) = st_messages st"
  "state_ok w (cs_core st) = state_ok w st"
  by (simp_all add: cs_core_def queue_list_def st_messages_def state_ok_def queue_ok_def claims_ok_def)

lemma queued_core:
  "queued w = (\<Sum>p \<in># mset (map (\<lambda>(s, st). (s, cs_core st)) (kw_states w)). st_messages (snd p))"
  by (simp add: queued_def case_prod_unfold image_mset.compositionality comp_def)

lemma same_core_queued:
  assumes "same_core w w'"
  shows "queued w' = queued w"
  using assms by (simp only: queued_core same_core_def)

lemma same_core_message [simp]: "same_core w w' \<Longrightarrow> get_message w' m = get_message w m"
  by (simp add: same_core_def get_message_def)

lemma same_core_state_ok:
  assumes "same_core w w'"
  shows "state_ok w' st = state_ok w st"
  using assms by (simp add: state_ok_def queue_ok_def msg_bytes_def msg_resources_def)

lemma same_core_state:
  assumes "same_core w w'" "get_state w' s = Some st'"
  obtains st where "get_state w s = Some st" "cs_core st' = cs_core st"
  using same_core_get [OF assms(1), of s] assms(2) by (cases "get_state w s") auto

lemma quota_ok_same_core:
  assumes "quota_ok w" "same_core w w'"
  shows "quota_ok w'"
proof -
  have st: "state_ok w' st'" if st': "get_state w' s = Some st'" for s st'
  proof (rule same_core_state [OF assms(2) st'])
    fix st
    assume "get_state w s = Some st" "cs_core st' = cs_core st"
    with assms(1) have "state_ok w (cs_core st')" by (simp add: quota_ok_def)
    then show ?thesis using same_core_state_ok [OF assms(2)] by simp
  qed
  note q = same_core_queued [OF assms(2)] and e = same_core_message [OF assms(2)]
  have g: "kw_globals w' = kw_globals w" using assms(2) by (simp add: same_core_def)
  have fn: "msg_bytes w' = msg_bytes w" "msg_resources w' = msg_resources w"
    using e by (simp_all add: msg_bytes_def msg_resources_def fun_eq_iff)
  have "globals_ok w'" using assms(1) unfolding quota_ok_def globals_ok_def fn q g by blast
  moreover have "messages_ok w'" using assms(1) unfolding quota_ok_def messages_ok_def e by blast
  ultimately show ?thesis using st assms(1) unfolding quota_ok_def q e by blast
qed

lemma registry_ok_same_core:
  assumes "registry_ok w" "same_core w w'"
  shows "registry_ok w'"
proof -
  have "get_state w' s = None \<longleftrightarrow> get_state w s = None" for s
    using same_core_get [OF assms(2), of s] by (metis option.map_disc_iff)
  with assms show ?thesis by (simp add: registry_ok_def same_core_def)
qed

lemma chan_ok_events:
  assumes "chan_ok ext w" "ext_events es ext = Some ext'"
  shows "\<exists>w'. apply_events es w = Some w' \<and> chan_ok ext' w' \<and> same_core w w'"
proof -
  obtain w' where "apply_events es w = Some w'" "heap_ok w'" "refs_ok ext' w'" "same_core w w'"
    using apply_events_ok [of w ext es ext'] assms by (auto simp: chan_ok_def)
  then show ?thesis
    using assms(1) by (auto simp: chan_ok_def intro: quota_ok_same_core registry_ok_same_core)
qed

section \<open>Changing one state or message\<close>

lemma queued_split:
  assumes "keys_ok w" "get_state w s = Some st"
  obtains R where "queued w = st_messages st + R" "\<And>st'. queued (put_state s st' w) = st_messages st' + R"
proof -
  have d: "distinct (map fst (kw_states w))" using assms(1) by (simp add: keys_ok_def)
  have st: "map_of (kw_states w) s = Some st" using assms(2) by (simp add: get_state_def)
  obtain M where M: "mset (kw_states w) = add_mset (s, st) M"
    using map_of_in_mset [OF st] by (metis multi_member_split)
  show ?thesis
  proof (rule that)
    show "queued w = st_messages st + (\<Sum>p \<in># M. st_messages (snd p))" by (simp add: queued_def M)
    show "queued (put_state s st' w) = st_messages st' + (\<Sum>p \<in># M. st_messages (snd p))" for st'
      using mset_alist_update [OF d st, of st'] M by (simp add: queued_def put_state_def)
  qed
qed

lemma queued_upd [simp]:
  "queued (w\<lparr>kw_globals := g\<rparr>) = queued w" "queued (w\<lparr>kw_messages := ms\<rparr>) = queued w"
  "queued (w\<lparr>kw_generation := n\<rparr>) = queued w" "queued (w\<lparr>kw_registry := r\<rparr>) = queued w"
  "queued (put_message m msg w) = queued w" "queued (w\<lparr>kw_next := i\<rparr>) = queued w"
  "queued (put_object ob obj w) = queued w" "queued (w\<lparr>kw_objects := os\<rparr>) = queued w"
  by (simp_all add: queued_def)

lemma state_ok_messages:
  assumes "\<And>m. m \<in># st_messages st \<Longrightarrow> get_message w' m = get_message w m"
  shows "state_ok w' st = state_ok w st"
proof -
  have "(\<Sum>m \<in># mset (queue_list st side). msg_bytes w' m) = (\<Sum>m \<in># mset (queue_list st side). msg_bytes w m)"
    "(\<Sum>m \<in># mset (queue_list st side). msg_resources w' m) = (\<Sum>m \<in># mset (queue_list st side). msg_resources w m)"
    if "side \<in> {0, 1}" for side
    using assms that by (auto simp: st_messages_def msg_bytes_def msg_resources_def
        intro!: arg_cong [where f = sum_mset] image_mset_cong)
  then show ?thesis by (simp add: state_ok_def queue_ok_def queue_list_def)
qed

lemma sums_messages:
  assumes "\<And>m. m \<in># M \<Longrightarrow> get_message w' m = get_message w m"
  shows "(\<Sum>m \<in># M. msg_bytes w' m) = (\<Sum>m \<in># M. msg_bytes w m)"
    "(\<Sum>m \<in># M. msg_resources w' m) = (\<Sum>m \<in># M. msg_resources w m)"
  using assms by (auto simp: msg_bytes_def msg_resources_def intro!: arg_cong [where f = sum_mset] image_mset_cong)

lemma st_messages_queued:
  assumes "keys_ok w" "get_state w s = Some st" "m \<in># st_messages st"
  shows "m \<in># queued w"
  using queued_split [OF assms(1,2)] assms(3) by (metis union_iff)

text \<open>A change of the messages that no queue has.\<close>

lemma quota_ok_unqueued:
  assumes "quota_ok w" "keys_ok w" "kw_states w' = kw_states w" "kw_globals w' = kw_globals w"
    "\<And>m. m \<in># queued w \<Longrightarrow> get_message w' m = get_message w m" "messages_ok w'"
  shows "quota_ok w'"
proof -
  have q: "queued w' = queued w" using assms(3) by (simp add: queued_def)
  have st: "state_ok w' st" if "get_state w' s = Some st" for s st
  proof -
    have s: "get_state w s = Some st" using that assms(3) by (simp add: get_state_def)
    then have "state_ok w' st = state_ok w st"
      using assms(5) st_messages_queued [OF assms(2) s] by (intro state_ok_messages) blast
    with s assms(1) show ?thesis by (simp add: quota_ok_def)
  qed
  have "globals_ok w'"
    using assms(1) sums_messages [of "queued w" w' w] assms(5)
    unfolding quota_ok_def globals_ok_def q assms(4) by simp
  moreover have "\<forall>m. m \<in># queued w \<longrightarrow> get_message w' m \<noteq> None"
    using assms(1,5) unfolding quota_ok_def by metis
  ultimately show ?thesis using st assms(1,6) unfolding quota_ok_def q by blast
qed

text \<open>
  A change of one state and of the global counters: \<open>D\<close> are the messages that leave its queues
  and \<open>A\<close> those that enter them.
\<close>

lemma quota_ok_put_state:
  assumes "quota_ok w" "keys_ok w" "get_state w s = Some st" "state_ok w st'"
    and M: "st_messages st' + D = st_messages st + A"
    and A: "\<And>m. m \<in># A \<Longrightarrow> m \<notin># queued w \<and> get_message w m \<noteq> None" "\<And>m. count A m \<le> 1"
    and g: "unat (g_messages g) + size D = unat (g_messages (kw_globals w)) + size A"
      "unat (g_bytes g) + (\<Sum>m \<in># D. msg_bytes w m) = unat (g_bytes (kw_globals w)) + (\<Sum>m \<in># A. msg_bytes w m)"
      "unat (g_resources g) + (\<Sum>m \<in># D. msg_resources w m) =
        unat (g_resources (kw_globals w)) + (\<Sum>m \<in># A. msg_resources w m)"
      "g_messages g \<le> NA_CHANNEL_GLOBAL_MAX_MESSAGES" "g_bytes g \<le> NA_CHANNEL_GLOBAL_MAX_BYTES"
      "g_resources g \<le> NA_CHANNEL_GLOBAL_MAX_RESOURCES"
  shows "quota_ok ((put_state s st' w)\<lparr>kw_globals := g\<rparr>)" (is "quota_ok ?w")
    and "queued ((put_state s st' w)\<lparr>kw_globals := g\<rparr>) + D = queued w + A"
proof -
  obtain R where R: "queued w = st_messages st + R" "queued (put_state s st' w) = st_messages st' + R"
    using queued_split [OF assms(2,3)] by metis
  have eq: "queued ?w + D = queued w + A" using R M by (simp add: ac_simps)
  then show "queued ?w + D = queued w + A" .
  have msgs: "get_message ?w m = get_message w m" for m by simp
  have fn: "msg_bytes ?w = msg_bytes w" "msg_resources ?w = msg_resources w"
    using msgs by (simp_all add: msg_bytes_def msg_resources_def fun_eq_iff)
  have st: "state_ok ?w x" if "get_state ?w t = Some x" for t x
    using that assms(1,4) state_ok_messages [of x ?w w] by (auto simp: quota_ok_def split: if_splits)
  have sums: "size (queued ?w) + size D = size (queued w) + size A"
    "(\<Sum>m \<in># queued ?w. f m) + (\<Sum>m \<in># D. f m) = (\<Sum>m \<in># queued w. f m) + (\<Sum>m \<in># A. f m)" for f :: "mptr \<Rightarrow> nat"
    using arg_cong [OF eq, of size] arg_cong [OF eq, of "\<lambda>M. \<Sum>m \<in># M. f m"] by simp_all
  have gl: "globals_ok w" using assms(1) by (simp add: quota_ok_def)
  have gl': "globals_ok ?w"
    unfolding globals_ok_def fn using gl sums(1) sums(2) [of "msg_bytes w"] sums(2) [of "msg_resources w"] g
    by (simp add: globals_ok_def)
  have in_q: "m \<in># queued w \<or> m \<in># A" if "m \<in># queued ?w" for m
    using that eq by (metis union_iff)
  have "count (queued ?w) m \<le> 1" for m
  proof -
    have "count (queued ?w) m \<le> count (queued w) m + count A m" using arg_cong [OF eq, of "\<lambda>M. count M m"] by simp
    moreover have "count (queued w) m = 0 \<or> count A m = 0"
      using A(1) [of m] by (metis count_eq_zero_iff)
    moreover have "count (queued w) m \<le> 1" using assms(1) by (simp add: quota_ok_def)
    ultimately show ?thesis using A(2) [of m] by linarith
  qed
  moreover have "messages_ok ?w" using assms(1) by (simp add: quota_ok_def messages_ok_def)
  moreover have "\<forall>m. m \<in># queued ?w \<longrightarrow> get_message ?w m \<noteq> None"
    using in_q A(1) assms(1) unfolding msgs quota_ok_def by blast
  ultimately show "quota_ok ?w" using st gl' unfolding quota_ok_def by blast
qed

section \<open>Changing one queue\<close>

lemma unat_resource_count:
  assumes "messages_ok w" "get_message w m = Some msg"
  shows "unat (resource_count msg) = length (cm_resources msg)"
proof -
  have "length (cm_resources msg) \<le> unat (cm_resource_capacity msg)"
    using assms by (simp add: messages_ok_def)
  also have "\<dots> < 2 ^ LENGTH(64)" by (rule unsigned_less)
  finally show ?thesis by (simp add: resource_count_def unsigned_of_nat take_bit_nat_eq_self)
qed

lemma state_ok_queue:
  assumes "state_ok w st" "side \<le> 1" "cs_queues st' = (cs_queues st)(side := q)" "queue_ok w st q" "claims_ok st'"
    and "cs_valid st' = cs_valid st" "cs_max_messages st' = cs_max_messages st" "cs_max_bytes st' = cs_max_bytes st"
      "cs_max_resources st' = cs_max_resources st"
  shows "state_ok w st'"
proof -
  have "queue_ok w st' x = queue_ok w st x" for x using assms(6-9) by (simp add: queue_ok_def)
  moreover have "side = 0 \<or> side = 1" using assms(2) by auto
  ultimately show ?thesis using assms by (auto simp: state_ok_def)
qed

lemma state_ok_get_queue:
  assumes "state_ok w st" "side \<le> 1"
  shows "queue_ok w st (cs_queues st side)"
proof -
  have "side = 0 \<or> side = 1" using assms(2) by auto
  with assms(1) show ?thesis by (auto simp: state_ok_def)
qed

lemma st_messages_queue:
  assumes "side \<le> 1" "cs_queues st' = (cs_queues st)(side := q)"
    "mset (bq_contents (cq_fifo q)) + D = mset (queue_list st side) + A"
  shows "st_messages st' + D = st_messages st + A"
proof -
  have "side = 0 \<or> side = 1" using assms(1) by auto
  with assms show ?thesis by (auto simp: st_messages_def queue_list_def ac_simps)
qed

lemma unat_diff_sum:
  fixes a b :: u64
  assumes "unat a = unat b + n"
  shows "unat (a - b) = n"
  using assms by (simp add: unat_sub_le word_le_nat_alt)

lemma queue_ok_pop:
  assumes "queue_ok w st q" "messages_ok w" "bq_contents (cq_fifo q) = m # ms" "get_message w m = Some msg"
    "bq_claimed (cq_fifo q)"
  shows "queue_ok w st (queue_pop msg q)" "bq_contents (cq_fifo (queue_pop msg q)) = ms"
    "\<not> bq_claimed (cq_fifo (queue_pop msg q))"
proof -
  have inv: "bq_invar (cq_fifo q)" using assms(1) by (simp add: queue_ok_def)
  note com = bq_commit_ok [OF inv assms(5)]
  have c: "bq_contents (bq_commit_claim (cq_fifo q)) = ms" using com(1) assms(3) by simp
  then show "bq_contents (cq_fifo (queue_pop msg q)) = ms" by (simp add: queue_pop_def)
  have b: "unat (cq_bytes q) = unat (cm_byte_count msg) + (\<Sum>m \<in># mset ms. msg_bytes w m)"
    using assms by (simp add: queue_ok_def msg_bytes_def)
  have r: "unat (cq_resources q) = unat (resource_count msg) + (\<Sum>m \<in># mset ms. msg_resources w m)"
    using assms unat_resource_count [OF assms(2,4)] by (simp add: queue_ok_def msg_resources_def)
  have f: "bq_storage (bq_commit_claim (cq_fifo q)) = bq_storage (cq_fifo q)"
    "bq_capacity (bq_commit_claim (cq_fifo q)) = bq_capacity (cq_fifo q)"
    by (simp_all add: bq_commit_claim_def)
  show "\<not> bq_claimed (cq_fifo (queue_pop msg q))"
    using bq.commit_ok [OF inv assms(5)] by (simp add: queue_pop_def)
  have "cq_bytes q - cm_byte_count msg \<le> cs_max_bytes st" "cq_resources q - resource_count msg \<le> cs_max_resources st"
    using assms(1) unat_diff_sum [OF b] unat_diff_sum [OF r] b r by (auto simp: queue_ok_def word_le_nat_alt)
  with assms(1) c f com(2) unat_diff_sum [OF b] unat_diff_sum [OF r]
  show "queue_ok w st (queue_pop msg q)" by (simp add: queue_ok_def queue_pop_def)
qed

lemma queue_ok_claim:
  assumes "queue_ok w st q"
  shows "queue_ok w st (q\<lparr>cq_fifo := (cq_fifo q)\<lparr>bq_claimed := b\<rparr>\<rparr>) \<longleftrightarrow> (b \<longrightarrow> bq_contents (cq_fifo q) \<noteq> [])"
    "bq_contents ((cq_fifo q)\<lparr>bq_claimed := b\<rparr>) = bq_contents (cq_fifo q)"
proof -
  show c: "bq_contents ((cq_fifo q)\<lparr>bq_claimed := b\<rparr>) = bq_contents (cq_fifo q)"
    by (simp add: bq_contents_def split: option.split)
  have inv: "bq_invar (cq_fifo q)" using assms by (simp add: queue_ok_def)
  have "bq_invar ((cq_fifo q)\<lparr>bq_claimed := b\<rparr>) \<longleftrightarrow> (b \<longrightarrow> bq_contents (cq_fifo q) \<noteq> [])"
    using inv bq_empty_iff [OF inv] by (auto simp: bq_invar_def bq_empty_def split: option.splits)
  with assms c show "queue_ok w st (q\<lparr>cq_fifo := (cq_fifo q)\<lparr>bq_claimed := b\<rparr>\<rparr>) \<longleftrightarrow> (b \<longrightarrow> bq_contents (cq_fifo q) \<noteq> [])"
    by (simp add: queue_ok_def)
qed

section \<open>Receiving\<close>

lemma heap_ok_upd [simp]:
  "heap_ok (w\<lparr>kw_globals := g\<rparr>) = heap_ok w" "heap_ok (w\<lparr>kw_generation := n\<rparr>) = heap_ok w"
  "heap_ok (w\<lparr>kw_registry := r\<rparr>) = heap_ok w"
  by (simp_all add: heap_ok_def keys_ok_get endpoint_count_def)

lemma refs_ok_upd [simp]:
  "refs_ok ext (w\<lparr>kw_globals := g\<rparr>) = refs_ok ext w" "refs_ok ext (w\<lparr>kw_generation := n\<rparr>) = refs_ok ext w"
  "refs_ok ext (w\<lparr>kw_registry := r\<rparr>) = refs_ok ext w" "refs_ok ext (put_state s st w) = refs_ok ext w"
  by (simp_all add: refs_ok_def obj_refs_def msg_refs_def)

lemma quota_ok_upd [simp]:
  "quota_ok (w\<lparr>kw_generation := n\<rparr>) = quota_ok w" "quota_ok (w\<lparr>kw_registry := r\<rparr>) = quota_ok w"
  by (simp_all add: quota_ok_def messages_ok_def globals_ok_def state_ok_def queue_ok_def msg_bytes_def msg_resources_def)

lemma chan_ok_notify [simp]: "chan_ok ext (notify_channel_waiters w) = chan_ok ext w"
  by (simp add: chan_ok_def notify_channel_waiters_def registry_ok_def)

lemma chan_ok_put_state:
  assumes "chan_ok ext w" "get_state w s = Some st" "cs_objects st' = cs_objects st"
    "quota_ok ((put_state s st' w)\<lparr>kw_globals := g\<rparr>)"
  shows "chan_ok ext ((put_state s st' w)\<lparr>kw_globals := g\<rparr>)"
  using assms heap_ok_put_state [of w s st st'] by (auto simp: chan_ok_def registry_ok_def)

lemma chan_ok_same_messages:
  assumes "chan_ok ext w" "get_state w s = Some st" "state_ok w st'" "st_messages st' = st_messages st"
    "cs_objects st' = cs_objects st"
  shows "chan_ok ext (put_state s st' w)"
proof -
  have "quota_ok ((put_state s st' w)\<lparr>kw_globals := kw_globals w\<rparr>)"
    using assms by (intro quota_ok_put_state [where D = "{#}" and A = "{#}"])
      (auto simp: chan_ok_def heap_ok_def quota_ok_def globals_ok_def)
  moreover have "(put_state s st' w)\<lparr>kw_globals := kw_globals w\<rparr> = put_state s st' w" by (simp add: put_state_def)
  ultimately show ?thesis using chan_ok_put_state [OF assms(1,2,5)] by metis
qed

text \<open>Taking the claimed head out of a queue and giving its quota back.\<close>

lemma quota_ok_pop:
  assumes quota: "quota_ok w" "keys_ok w" and st: "get_state w s = Some st" and side: "side \<le> 1"
    and q: "queue_list st side = m # ms" and msg: "get_message w m = Some msg"
    and st': "cs_queues st' = (cs_queues st)(side := queue_pop msg ((cs_queues st side)\<lparr>cq_fifo := fifo\<rparr>))"
      "fifo = (cq_fifo (cs_queues st side))\<lparr>bq_claimed := True\<rparr>" "claims_ok st'" "cs_valid st' = cs_valid st"
      "cs_max_messages st' = cs_max_messages st" "cs_max_bytes st' = cs_max_bytes st"
      "cs_max_resources st' = cs_max_resources st"
  shows "quota_ok (release_message msg (put_state s st' w))"
    and "queued (release_message msg (put_state s st' w)) + {#m#} = queued w"
proof -
  have mok: "messages_ok w" and sok: "state_ok w st" and gok: "globals_ok w"
    using quota st by (simp_all add: quota_ok_def)
  let ?q = "(cs_queues st side)\<lparr>cq_fifo := fifo\<rparr>"
  have q0: "queue_ok w st (cs_queues st side)" by (rule state_ok_get_queue [OF sok side])
  have qok: "queue_ok w st ?q" and c: "bq_contents (cq_fifo ?q) = m # ms"
    using queue_ok_claim [OF q0, of True] q st'(2) by (simp_all add: queue_list_def)
  note pop = queue_ok_pop [OF qok mok c msg]
  have claimed: "bq_claimed (cq_fifo ?q)" by (simp add: st'(2))
  have sok': "state_ok w st'"
    by (rule state_ok_queue [OF sok side st'(1) pop(1) [OF claimed] st'(3-7)])
  have M: "st_messages st' + {#m#} = st_messages st + {#}"
    by (rule st_messages_queue [OF side st'(1)]) (simp add: pop(2) [OF claimed] q)
  let ?g = "release_global (cm_byte_count msg) (resource_count msg) (kw_globals w)"
  have "m \<in># queued w"
    using st_messages_queued [OF quota(2) st, of m] arg_cong [OF M, of "\<lambda>M. m \<in># M"] by simp
  then obtain Q where Q: "queued w = add_mset m Q" by (metis multi_member_split)
  have ub: "unat (g_bytes (kw_globals w)) = unat (cm_byte_count msg) + (\<Sum>m \<in># Q. msg_bytes w m)"
    and ur: "unat (g_resources (kw_globals w)) = unat (resource_count msg) + (\<Sum>m \<in># Q. msg_resources w m)"
    and um: "unat (g_messages (kw_globals w)) = unat (1 :: u64) + size Q"
    using gok msg unat_resource_count [OF mok msg] by (simp_all add: globals_ok_def Q msg_bytes_def msg_resources_def)
  note gl = unat_diff_sum [OF ub] unat_diff_sum [OF ur] unat_diff_sum [OF um]
  have lim: "g_messages ?g \<le> NA_CHANNEL_GLOBAL_MAX_MESSAGES" "g_bytes ?g \<le> NA_CHANNEL_GLOBAL_MAX_BYTES"
      "g_resources ?g \<le> NA_CHANNEL_GLOBAL_MAX_RESOURCES"
    using gok gl ub ur um by (auto simp: globals_ok_def release_global_def release_counter_def word_le_nat_alt)
  have bytes: "msg_bytes w m = unat (cm_byte_count msg)" "msg_resources w m = unat (resource_count msg)"
    using msg unat_resource_count [OF mok msg] by (simp_all add: msg_bytes_def msg_resources_def)
  have rel: "release_message msg (put_state s st' w) = (put_state s st' w)\<lparr>kw_globals := ?g\<rparr>"
    by (simp add: release_message_def)
  have fin: "quota_ok ((put_state s st' w)\<lparr>kw_globals := ?g\<rparr>)"
      "queued ((put_state s st' w)\<lparr>kw_globals := ?g\<rparr>) + {#m#} = queued w + {#}"
    using gl ub ur um bytes lim
    by (intro quota_ok_put_state [OF quota st sok' M]; simp add: release_global_def release_counter_def)+
  show "queued (release_message msg (put_state s st' w)) + {#m#} = queued w" using fin(2) rel by simp
  show "quota_ok (release_message msg (put_state s st' w))" unfolding rel by (rule fin(1))
qed

lemma chan_ok_release:
  assumes "chan_ok ext w" "get_state w s = Some st" "cs_objects st' = cs_objects st"
    "quota_ok (release_message msg (put_state s st' w))"
  shows "chan_ok ext (release_message msg (put_state s st' w))"
  using chan_ok_put_state [OF assms(1-3)] assms(4) by (simp add: release_message_def)

end
