(* ===== verification/Channel_Ops.thy ===== *)
theory Channel_Ops
  imports Channel_Quota
begin

text \<open>
  The operations of a channel state on every branch, on worlds that satisfy \<open>chan_ok\<close>: what
  they return, how they change the two message lists, and that they keep the invariant.
\<close>

section \<open>Claiming\<close>

definition set_claim :: "bool \<Rightarrow> nat \<Rightarrow> channel_state \<Rightarrow> channel_state" where
  "set_claim b side st =
     (on_queue side (\<lambda>q. q\<lparr>cq_fifo := (cq_fifo q)\<lparr>bq_claimed := b\<rparr>\<rparr>) st)
       \<lparr>cs_claims := if b then cs_claims st + 1 else cs_claims st - 1\<rparr>"

abbreviation side_claimed :: "channel_state \<Rightarrow> nat \<Rightarrow> bool" where
  "side_claimed st side \<equiv> bq_claimed (cq_fifo (cs_queues st side))"

lemma set_claim_simps [simp]:
  "cs_queues (set_claim b side st) =
     (cs_queues st)(side := (cs_queues st side)\<lparr>cq_fifo := (cq_fifo (cs_queues st side))\<lparr>bq_claimed := b\<rparr>\<rparr>)"
  "cs_valid (set_claim b side st) = cs_valid st" "cs_max_messages (set_claim b side st) = cs_max_messages st"
  "cs_max_bytes (set_claim b side st) = cs_max_bytes st" "cs_max_resources (set_claim b side st) = cs_max_resources st"
  "cs_objects (set_claim b side st) = cs_objects st" "cs_owners (set_claim b side st) = cs_owners st"
  "cs_roots (set_claim b side st) = cs_roots st" "cs_operations (set_claim b side st) = cs_operations st"
  by (simp_all add: set_claim_def on_queue_def)

lemma claims_ok_set_claim:
  assumes "claims_ok st" "side \<le> 1" "side_claimed st side \<noteq> b"
  shows "claims_ok (set_claim b side st)"
proof -
  have "side = 0 \<or> side = 1" using assms(2) by auto
  with assms show ?thesis by (cases b) (auto simp: claims_ok_def set_claim_def on_queue_def)
qed

lemma state_ok_set_claim:
  assumes "state_ok w st" "side \<le> 1" "side_claimed st side \<noteq> b" "queue_list st side \<noteq> []"
  shows "state_ok w (set_claim b side st)"
proof (rule state_ok_queue [OF assms(1,2) set_claim_simps(1)])
  show "queue_ok w st ((cs_queues st side)\<lparr>cq_fifo := (cq_fifo (cs_queues st side))\<lparr>bq_claimed := b\<rparr>\<rparr>)"
    using queue_ok_claim(1) [OF state_ok_get_queue [OF assms(1,2)], of b] assms(4) by (simp add: queue_list_def)
  show "claims_ok (set_claim b side st)"
    using assms claims_ok_set_claim by (simp add: state_ok_def)
qed simp_all

lemma queue_list_set_claim [simp]: "queue_list (set_claim b side st) i = queue_list st i"
  by (simp add: queue_list_def bq_contents_def split: option.split)

lemma chan_ok_state: "chan_ok ext w \<Longrightarrow> get_state w s = Some st \<Longrightarrow> state_ok w st"
  by (simp add: chan_ok_def quota_ok_def)

lemma chan_ok_set_claim:
  assumes "chan_ok ext w" "get_state w s = Some st" "side \<le> 1" "side_claimed st side \<noteq> b" "queue_list st side \<noteq> []"
  shows "chan_ok ext (put_state s (set_claim b side st) w)"
  using assms state_ok_set_claim [OF chan_ok_state [OF assms(1,2)] assms(3-5)]
  by (intro chan_ok_same_messages [OF assms(1,2)]) (simp_all add: st_messages_def)

lemma queue_facts:
  assumes "state_ok w st" "side \<le> 1"
  shows "bq_invar (cq_fifo (cs_queues st side))"
    "bq_empty (cq_fifo (cs_queues st side)) \<longleftrightarrow> queue_list st side = []"
    "side_claimed st side \<Longrightarrow> queue_list st side \<noteq> []"
    "queue_list st side \<noteq> [] \<Longrightarrow> bq_front (cq_fifo (cs_queues st side)) = hd (queue_list st side)"
proof -
  show inv: "bq_invar (cq_fifo (cs_queues st side))"
    using state_ok_get_queue [OF assms] by (simp add: queue_ok_def)
  show "bq_empty (cq_fifo (cs_queues st side)) \<longleftrightarrow> queue_list st side = []"
    unfolding queue_list_def by (rule bq_empty_iff [OF inv])
  show "side_claimed st side \<Longrightarrow> queue_list st side \<noteq> []"
    unfolding queue_list_def by (rule bq.claimed_nonempty [OF inv])
  show "queue_list st side \<noteq> [] \<Longrightarrow> bq_front (cq_fifo (cs_queues st side)) = hd (queue_list st side)"
    unfolding queue_list_def by (rule bq.front_hd [OF inv])
qed

lemma claim_receive_eq:
  assumes "state_ok w st" "get_state w s = Some st" "side \<le> 1"
  shows "claim_receive s side w = Some (
    if queue_list st side = []
    then (if cs_owners st (1 - side) = 0 then NA_STATUS_PEER_CLOSED else NA_STATUS_WOULD_BLOCK, 0, w)
    else if side_claimed st side then (NA_STATUS_WOULD_BLOCK, 0, w)
    else (NA_STATUS_OK, hd (queue_list st side), put_state s (set_claim True side st) w))"
proof -
  have v: "cs_valid st" using assms(1) by (simp add: state_ok_def)
  have e: "bq_count (cq_fifo (cs_queues st side)) = 0 \<longleftrightarrow> queue_list st side = []"
    using queue_facts(2) [OF assms(1,3)] by (simp add: bq_empty_def)
  have f: "bq_front ((cq_fifo (cs_queues st side))\<lparr>bq_claimed := True\<rparr>) = hd (queue_list st side)"
    if "queue_list st side \<noteq> []"
    using queue_facts(4) [OF assms(1,3) that] by (simp add: bq_front_def)
  show ?thesis using assms(2,3) v e f
    by (simp add: claim_receive_def bq_claim_front_def bq_empty_def set_claim_def on_queue_def Let_def)
qed

lemma cancel_receive_eq:
  assumes "state_ok w st" "get_state w s = Some st" "side \<le> 1" "m \<noteq> 0"
  shows "cancel_receive s side m w = Some (
    if side_claimed st side \<and> hd (queue_list st side) = m
    then (True, notify_channel_waiters (put_state s (set_claim False side st) w)) else (False, w))"
proof -
  have v: "cs_valid st" using assms(1) by (simp add: state_ok_def)
  have "bq_front (cq_fifo (cs_queues st side)) = hd (queue_list st side)" if "side_claimed st side"
    using queue_facts(3,4) [OF assms(1,3)] that by blast
  with assms v show ?thesis
    by (simp add: cancel_receive_def set_claim_def on_queue_def bq_cancel_claim_def Let_def)
qed

section \<open>Consuming\<close>

text \<open>The state after its head has been consumed, claimed before by the counter or not.\<close>

definition pop_state :: "bool \<Rightarrow> nat \<Rightarrow> channel_message \<Rightarrow> channel_state \<Rightarrow> channel_state" where
  "pop_state counted side msg st =
     (on_queue side (\<lambda>q. queue_pop msg (q\<lparr>cq_fifo := (cq_fifo q)\<lparr>bq_claimed := True\<rparr>\<rparr>)) st)
       \<lparr>cs_claims := if counted then cs_claims st - 1 else cs_claims st\<rparr>"

lemma pop_state_simps [simp]:
  "cs_queues (pop_state c side msg st) =
     (cs_queues st)(side := queue_pop msg ((cs_queues st side)\<lparr>cq_fifo := (cq_fifo (cs_queues st side))\<lparr>bq_claimed := True\<rparr>\<rparr>))"
  "cs_valid (pop_state c side msg st) = cs_valid st" "cs_max_messages (pop_state c side msg st) = cs_max_messages st"
  "cs_max_bytes (pop_state c side msg st) = cs_max_bytes st" "cs_max_resources (pop_state c side msg st) = cs_max_resources st"
  "cs_objects (pop_state c side msg st) = cs_objects st" "cs_owners (pop_state c side msg st) = cs_owners st"
  "cs_roots (pop_state c side msg st) = cs_roots st" "cs_operations (pop_state c side msg st) = cs_operations st"
  by (simp_all add: pop_state_def on_queue_def)

lemma claims_ok_pop:
  assumes "state_ok w st" "side \<le> 1" "queue_list st side \<noteq> []" "side_claimed st side = c"
  shows "claims_ok (pop_state c side msg st)"
proof -
  have "bq_count (cq_fifo (cs_queues st side)) \<noteq> 0"
    using queue_facts(2) [OF assms(1,2)] assms(3) by (simp add: bq_empty_def)
  then have "\<not> side_claimed (pop_state c side msg st) side" by (simp add: queue_pop_def bq_commit_claim_def)
  moreover have "side = 0 \<or> side = 1" using assms(2) by auto
  ultimately show ?thesis using assms(1,4)
    by (auto simp: state_ok_def claims_ok_def) (auto simp: pop_state_def on_queue_def)
qed

lemma pop_state_ok:
  assumes "chan_ok ext w" "get_state w s = Some st" "side \<le> 1" "queue_list st side = m # ms"
    "side_claimed st side = c" "get_message w m = Some msg"
  shows "chan_ok ext (release_message msg (put_state s (pop_state c side msg st) w))"
    "queued (release_message msg (put_state s (pop_state c side msg st) w)) + {#m#} = queued w"
    "queue_list (pop_state c side msg st) i = (if i = side then ms else queue_list st i)"
proof -
  have sok: "state_ok w st" by (rule chan_ok_state [OF assms(1,2)])
  have cl: "claims_ok (pop_state c side msg st)" using claims_ok_pop [OF sok assms(3) _ assms(5)] assms(4) by simp
  have quota: "quota_ok w" "keys_ok w" using assms(1) by (simp_all add: chan_ok_def heap_ok_def)
  note pop = quota_ok_pop [OF quota assms(2-4,6) pop_state_simps(1) refl cl pop_state_simps(2-5)]
  show "chan_ok ext (release_message msg (put_state s (pop_state c side msg st) w))"
    by (rule chan_ok_release [OF assms(1,2) pop_state_simps(6) pop(1)])
  show "queued (release_message msg (put_state s (pop_state c side msg st) w)) + {#m#} = queued w" by (rule pop(2))
  let ?q = "(cs_queues st side)\<lparr>cq_fifo := (cq_fifo (cs_queues st side))\<lparr>bq_claimed := True\<rparr>\<rparr>"
  have "queue_ok w st ?q" "bq_contents (cq_fifo ?q) = m # ms"
    using queue_ok_claim [OF state_ok_get_queue [OF sok assms(3)], of True] assms(4) by (simp_all add: queue_list_def)
  with queue_ok_pop(2) [of w st ?q m ms msg] assms(1,6) have "bq_contents (cq_fifo (queue_pop msg ?q)) = ms"
    by (simp add: chan_ok_def quota_ok_def)
  then show "queue_list (pop_state c side msg st) i = (if i = side then ms else queue_list st i)"
    by (simp add: queue_list_def)
qed

lemma queued_message:
  assumes "chan_ok ext w" "get_state w s = Some st" "side \<le> 1" "m \<in> set (queue_list st side)"
  obtains msg where "get_message w m = Some msg" "m \<noteq> 0"
proof -
  have "side = 0 \<or> side = 1" using assms(3) by auto
  with assms(4) have "m \<in># st_messages st" by (auto simp: st_messages_def)
  with st_messages_queued [of w s st m] assms(1,2) have "m \<in># queued w" by (simp add: chan_ok_def heap_ok_def)
  with assms(1) obtain msg where msg: "get_message w m = Some msg" by (auto simp: chan_ok_def quota_ok_def)
  have "heap_ok w" using assms(1) by (simp add: chan_ok_def)
  with msg have "m \<noteq> 0" by (metis heap_ok_nonzero(2) option.distinct(1))
  with msg that show ?thesis by blast
qed

lemma claimed_upd: "bq_claimed q \<Longrightarrow> q\<lparr>bq_claimed := True\<rparr> = q"
  by simp

lemma commit_receive_eq:
  assumes "state_ok w st" "get_state w s = Some st" "side \<le> 1" "m \<noteq> 0" "get_message w m = Some msg"
  shows "commit_receive s side m w = Some (
    if side_claimed st side \<and> hd (queue_list st side) = m
    then (True, notify_channel_waiters (release_message msg (put_state s (pop_state True side msg st) w)))
    else (False, w))"
proof -
  have v: "cs_valid st" using assms(1) by (simp add: state_ok_def)
  have "bq_front (cq_fifo (cs_queues st side)) = hd (queue_list st side)" if "side_claimed st side"
    using queue_facts(3,4) [OF assms(1,3)] that by blast
  with assms v show ?thesis
    by (auto simp: commit_receive_def pop_state_def on_queue_def Let_def claimed_upd)
qed

lemma state_discard_eq:
  assumes "state_ok w st" "get_state w s = Some st" "side \<le> 1"
    "queue_list st side \<noteq> [] \<Longrightarrow> get_message w (hd (queue_list st side)) = Some msg"
  shows "state_discard s side w = Some (
    if queue_list st side \<noteq> [] \<and> \<not> side_claimed st side
    then (True, hd (queue_list st side),
          notify_channel_waiters (release_message msg (put_state s (pop_state False side msg st) w)))
    else (False, 0, w))"
proof -
  have v: "cs_valid st" using assms(1) by (simp add: state_ok_def)
  have e: "bq_count (cq_fifo (cs_queues st side)) = 0 \<longleftrightarrow> queue_list st side = []"
    using queue_facts(2) [OF assms(1,3)] by (simp add: bq_empty_def)
  have f: "bq_front ((cq_fifo (cs_queues st side))\<lparr>bq_claimed := True\<rparr>) = hd (queue_list st side)"
    if "queue_list st side \<noteq> []"
    using queue_facts(4) [OF assms(1,3) that] by (simp add: bq_front_def)
  show ?thesis using assms v e f
    by (auto simp: state_discard_def bq_claim_front_def bq_empty_def pop_state_def on_queue_def Let_def)
qed

section \<open>Sending\<close>

lemma append_all_eq:
  assumes "length (cm_resources m) + length rs \<le> unat (cm_resource_capacity m)"
  shows "append_all rs m =
    (True, length rs, map move_out rs, m\<lparr>cm_resources := cm_resources m @ map rec_resource rs\<rparr>)"
  using assms
proof (induction rs arbitrary: m)
  case (Cons r rs)
  have "unat (cm_resource_capacity m) < 2 ^ LENGTH(64)" by (rule unsigned_less)
  with Cons.prems have "unat (resource_count m) = length (cm_resources m)"
    by (simp add: resource_count_def unsigned_of_nat take_bit_nat_eq_self)
  with Cons.prems have "\<not> cm_resource_capacity m \<le> resource_count m" by (simp add: word_le_nat_alt)
  then have "message_append (rec_resource r) m =
      (True, rec_resource (move_out r), m\<lparr>cm_resources := cm_resources m @ [rec_resource r]\<rparr>)"
    by (simp add: message_append_def tr_move_def move_out_def Let_def)
  with Cons.IH [of "m\<lparr>cm_resources := cm_resources m @ [rec_resource r]\<rparr>"] Cons.prems show ?case
    by (simp add: move_out_def)
qed simp

definition channel_room :: "channel_state \<Rightarrow> nat \<Rightarrow> u64 \<Rightarrow> nat \<Rightarrow> bool" where
  "channel_room st receiver bytes n \<longleftrightarrow>
     length (queue_list st receiver) < unat (cs_max_messages st) \<and>
     unat (cq_bytes (cs_queues st receiver)) + unat bytes \<le> unat (cs_max_bytes st) \<and>
     unat (cq_resources (cs_queues st receiver)) + n \<le> unat (cs_max_resources st)"

definition fill_message :: "transfer_record list \<Rightarrow> channel_message \<Rightarrow> channel_message" where
  "fill_message records msg = msg\<lparr>cm_resources := map rec_resource records\<rparr>"

definition push_state :: "nat \<Rightarrow> mptr \<Rightarrow> channel_message \<Rightarrow> channel_state \<Rightarrow> channel_state" where
  "push_state receiver m msg st = queue_push receiver (bq_try_push m (cq_fifo (cs_queues st receiver))) msg st"

definition reserved_globals :: "u64 \<Rightarrow> u64 \<Rightarrow> globals \<Rightarrow> globals" where
  "reserved_globals bytes resources g =
     g\<lparr>g_messages := g_messages g + 1, g_bytes := g_bytes g + bytes, g_resources := g_resources g + resources\<rparr>"

text \<open>What the argument checks leave: the message fits the limits of the channel and is empty.\<close>

lemma enqueue_refused_None:
  assumes "enqueue_refused sender msg records st = None" "length records < 2 ^ 64"
    "length (cm_resources msg) \<le> unat (cm_resource_capacity msg)"
  shows "unat (record_count records) = length records" "cm_resources msg = []"
    "length records \<le> unat (cm_resource_capacity msg)" "cm_byte_count msg \<le> cs_max_bytes st"
    "record_count records \<le> cs_max_resources st" "sender \<le> 1"
proof -
  show n: "unat (record_count records) = length records"
    using assms(2) by (simp add: record_count_def unsigned_of_nat take_bit_nat_eq_self)
  have "unat (cm_resource_capacity msg) < 2 ^ LENGTH(64)" by (rule unsigned_less)
  with assms(3) have "unat (resource_count msg) = length (cm_resources msg)"
    by (simp add: resource_count_def unsigned_of_nat take_bit_nat_eq_self)
  moreover have "resource_count msg = 0" using assms(1) by (simp add: enqueue_refused_def split: if_splits)
  ultimately show "cm_resources msg = []" by simp
  show "length records \<le> unat (cm_resource_capacity msg)" "cm_byte_count msg \<le> cs_max_bytes st"
    "record_count records \<le> cs_max_resources st" "sender \<le> 1"
    using assms(1) n by (auto simp: enqueue_refused_def word_less_nat_alt word_le_nat_alt split: if_splits)
qed

lemma word_room:
  fixes a b l :: u64
  assumes "b \<le> l"
  shows "a > l - b \<longleftrightarrow> \<not> unat a + unat b \<le> unat l"
  using assms by (auto simp: word_less_nat_alt word_le_nat_alt unat_sub_le)

lemma channel_room_iff:
  assumes "state_ok w st" "receiver \<le> 1" "enqueue_refused sender msg records st = None"
    "length records < 2 ^ 64" "length (cm_resources msg) \<le> unat (cm_resource_capacity msg)"
  shows "channel_room st receiver (cm_byte_count msg) (length records) \<longleftrightarrow>
    \<not> (bq_full (cq_fifo (cs_queues st receiver)) \<or>
       cq_bytes (cs_queues st receiver) > cs_max_bytes st - cm_byte_count msg \<or>
       cq_resources (cs_queues st receiver) > cs_max_resources st - record_count records)"
proof -
  note r = enqueue_refused_None [OF assms(3-5)]
  have q: "queue_ok w st (cs_queues st receiver)" by (rule state_ok_get_queue [OF assms(1,2)])
  then have "bq_full (cq_fifo (cs_queues st receiver)) \<longleftrightarrow> length (queue_list st receiver) = unat (cs_max_messages st)"
    using assms(1) bq_full_iff [of "cq_fifo (cs_queues st receiver)"]
    by (simp add: queue_ok_def queue_list_def state_ok_def)
  moreover have "length (queue_list st receiver) \<le> unat (cs_max_messages st)"
    using q bq.bounded [of "cq_fifo (cs_queues st receiver)"]
    by (auto simp: queue_ok_def queue_list_def bq_limit_def split: option.splits)
  ultimately show ?thesis by (auto simp: channel_room_def word_room [OF r(4)] word_room [OF r(5)] r(1))
qed

lemma try_push_room:
  assumes "state_ok w st" "receiver \<le> 1" "channel_room st receiver bytes n"
  shows "fst (bq_try_push m (cq_fifo (cs_queues st receiver)))"
proof -
  have q: "queue_ok w st (cs_queues st receiver)" by (rule state_ok_get_queue [OF assms(1,2)])
  with assms(3) bq_try_push_iff [of "cq_fifo (cs_queues st receiver)" m] show ?thesis
    by (auto simp: queue_ok_def channel_room_def queue_list_def bq_limit_def split: option.splits)
qed

lemma enqueue_locked_eq:
  assumes "state_ok w st" "receiver \<le> 1" "enqueue_refused sender msg records st = None"
    "length records < 2 ^ 64" "length (cm_resources msg) \<le> unat (cm_resource_capacity msg)"
  shows "enqueue_locked receiver m records msg st g =
    (if cs_owners st receiver = 0 then (NA_STATUS_PEER_CLOSED, records, msg, st, g)
     else if \<not> channel_room st receiver (cm_byte_count msg) (length records)
     then (NA_STATUS_WOULD_BLOCK, records, msg, st, g)
     else if \<not> global_room (cm_byte_count msg) (record_count records) g
     then (NA_STATUS_RESOURCE_EXHAUSTED, records, msg, st, g)
     else (NA_STATUS_OK, map move_out records, fill_message records msg,
           push_state receiver m (fill_message records msg) st,
           reserved_globals (cm_byte_count msg) (record_count records) g))"
proof -
  note r = enqueue_refused_None [OF assms(3-5)] and room = channel_room_iff [OF assms]
  have app: "append_all records msg = (True, length records, map move_out records, fill_message records msg)"
    using append_all_eq [of msg records] r(2,3) by (simp add: fill_message_def)
  have push: "fst (bq_try_push m (cq_fifo (cs_queues st receiver)))"
    if "channel_room st receiver (cm_byte_count msg) (length records)"
    by (rule try_push_room [OF assms(1,2) that])
  show ?thesis
  proof (cases "cs_owners st receiver = 0 \<or> \<not> channel_room st receiver (cm_byte_count msg) (length records)")
    case True
    then show ?thesis using room by (auto simp: enqueue_locked_def Let_def)
  next
    case False
    then show ?thesis using room push
      by (auto simp: enqueue_locked_def Let_def reserve_global_eq app push_state_def reserved_globals_def)
  qed
qed

lemma enqueue_kernel_locked_eq:
  assumes "state_ok w st" "receiver \<le> 1" "enqueue_refused sender msg records st = None"
    "length records < 2 ^ 64" "length (cm_resources msg) \<le> unat (cm_resource_capacity msg)"
  shows "enqueue_kernel_locked receiver m limit records msg st g =
    (if cs_owners st receiver = 0 then (NA_STATUS_PEER_CLOSED, records, msg, st, g)
     else if (limit \<noteq> 0 \<and> of_nat (bq_count (cq_fifo (cs_queues st receiver))) \<ge> limit) \<or>
             \<not> channel_room st receiver (cm_byte_count msg) (length records)
     then (NA_STATUS_WOULD_BLOCK, records, msg, st, g)
     else if \<not> global_room (cm_byte_count msg) (record_count records) g
     then (NA_STATUS_RESOURCE_EXHAUSTED, records, msg, st, g)
     else (NA_STATUS_OK, map move_out records, fill_message records msg,
           push_state receiver m (fill_message records msg) st,
           reserved_globals (cm_byte_count msg) (record_count records) g))"
proof -
  note r = enqueue_refused_None [OF assms(3-5)] and room = channel_room_iff [OF assms]
  have app: "append_all records msg = (True, length records, map move_out records, fill_message records msg)"
    using append_all_eq [of msg records] r(2,3) by (simp add: fill_message_def)
  have push: "fst (bq_try_push m (cq_fifo (cs_queues st receiver)))"
    if "channel_room st receiver (cm_byte_count msg) (length records)"
    by (rule try_push_room [OF assms(1,2) that])
  show ?thesis
  proof (cases "cs_owners st receiver = 0 \<or> \<not> channel_room st receiver (cm_byte_count msg) (length records)")
    case True
    then show ?thesis using room by (auto simp: enqueue_kernel_locked_def Let_def)
  next
    case False
    then show ?thesis using room push
      by (auto simp: enqueue_kernel_locked_def Let_def reserve_global_eq app push_state_def reserved_globals_def)
  qed
qed

section \<open>Putting a message into a queue\<close>

lemma refs_ok_put_message:
  assumes "heap_ok w" "refs_ok ext w" "get_message w m = Some msg"
    "\<And>ob. res_count ob (cm_resources msg') + ext' ob = res_count ob (cm_resources msg) + ext ob"
  shows "refs_ok ext' (put_message m msg' w)"
proof -
  have d: "distinct (map fst (kw_messages w))" using assms(1) by (simp add: heap_ok_def keys_ok_def)
  have m: "map_of (kw_messages w) m = Some msg" using assms(3) by (simp add: get_message_def)
  then obtain M where M: "mset (kw_messages w) = add_mset (m, msg) M" by (metis multi_member_split map_of_in_mset)
  have eq: "msg_refs (put_message m msg' w) ob + ext' ob = msg_refs w ob + ext ob" for ob
    using mset_alist_update [OF d m, of msg'] M assms(4) [of ob] by (simp add: msg_refs_def put_message_def)
  have e: "obj_refs (put_message m msg' w) ob = obj_refs w ob" for ob by (simp add: obj_refs_def)
  show ?thesis using assms(2) unfolding refs_ok_def eq e heap_get_put .
qed

lemma heap_ok_put_message:
  assumes "heap_ok w" "get_message w m = Some msg"
  shows "heap_ok (put_message m msg' w)"
proof -
  have "map fst (kw_messages (put_message m msg' w)) = map fst (kw_messages w)"
    using assms(2) by (simp add: put_message_def get_message_def keys_alist_update)
  with assms show ?thesis by (auto simp: heap_ok_def keys_ok_get endpoint_count_def split: if_splits)
qed

lemma chan_ok_put_message:
  assumes "chan_ok ext w" "get_message w m = Some msg" "m \<notin># queued w"
    "length (cm_resources msg') \<le> unat (cm_resource_capacity msg')"
    "\<And>ob. res_count ob (cm_resources msg') + ext' ob = res_count ob (cm_resources msg) + ext ob"
  shows "chan_ok ext' (put_message m msg' w)"
proof -
  have "quota_ok (put_message m msg' w)"
  proof (rule quota_ok_unqueued [of w])
    show "get_message (put_message m msg' w) n = get_message w n" if "n \<in># queued w" for n
      using that assms(3) by auto
    show "messages_ok (put_message m msg' w)" using assms(1,4) by (auto simp: chan_ok_def quota_ok_def messages_ok_def)
  qed (use assms(1) in \<open>simp_all add: chan_ok_def heap_ok_def\<close>)
  moreover have "registry_ok (put_message m msg' w)" using assms(1) by (simp add: chan_ok_def registry_ok_def)
  ultimately show ?thesis
    using assms refs_ok_put_message heap_ok_put_message by (auto simp: chan_ok_def)
qed

lemma queue_push_ok:
  assumes "state_ok w st" "side \<le> 1" "channel_room st side (cm_byte_count msg) (length (cm_resources msg))"
    "get_message w m = Some msg" "messages_ok w"
  shows "state_ok w (push_state side m msg st)"
    "queue_list (push_state side m msg st) i = (if i = side then queue_list st side @ [m] else queue_list st i)"
    "cs_objects (push_state side m msg st) = cs_objects st"
    "cs_queues (push_state side m msg st) = (cs_queues st)(side := cs_queues (push_state side m msg st) side)"
proof -
  let ?q = "cs_queues st side"
  have qok: "queue_ok w st ?q" by (rule state_ok_get_queue [OF assms(1,2)])
  obtain f where f: "bq_try_push m (cq_fifo ?q) = (True, f)"
    using try_push_room [OF assms(1-3), of m] by (metis prod.collapse)
  have inv: "bq_invar (cq_fifo ?q)" using qok by (simp add: queue_ok_def)
  note p = bq_try_push_ok [OF inv f]
  have fs: "bq_storage f \<noteq> None" "bq_capacity f = bq_capacity (cq_fifo ?q)"
    using f by (auto simp: bq_try_push_def split: option.splits if_splits)
  let ?q' = "?q\<lparr>cq_fifo := f, cq_bytes := cq_bytes ?q + cm_byte_count msg, cq_resources := cq_resources ?q + resource_count msg\<rparr>"
  have st': "push_state side m msg st = st\<lparr>cs_queues := (cs_queues st)(side := ?q')\<rparr>"
    by (simp add: push_state_def queue_push_def f Let_def)
  have rc: "unat (resource_count msg) = length (cm_resources msg)" by (rule unat_resource_count [OF assms(5,4)])
  have b: "unat (cq_bytes ?q) + unat (cm_byte_count msg) \<le> unat (cs_max_bytes st)"
    and r: "unat (cq_resources ?q) + unat (resource_count msg) \<le> unat (cs_max_resources st)"
    using assms(3) rc by (simp_all add: channel_room_def)
  have "queue_ok w st ?q'"
    using qok p fs unat_add_le_limit [OF b] unat_add_le_limit [OF r] assms(4) rc
    by (simp add: queue_ok_def msg_bytes_def msg_resources_def)
  moreover have "claims_ok (push_state side m msg st)"
    using assms(1) p(2) by (auto simp: st' state_ok_def claims_ok_def)
  ultimately show "state_ok w (push_state side m msg st)"
    by (intro state_ok_queue [OF assms(1,2), of _ ?q']) (simp_all add: st')
  show "queue_list (push_state side m msg st) i = (if i = side then queue_list st side @ [m] else queue_list st i)"
    using p(1) by (simp add: st' queue_list_def)
  show "cs_objects (push_state side m msg st) = cs_objects st"
    "cs_queues (push_state side m msg st) = (cs_queues st)(side := cs_queues (push_state side m msg st) side)"
    by (simp_all add: st')
qed

lemma chan_ok_push:
  assumes ok: "chan_ok ext w" and st: "get_state w s = Some st" and side: "side \<le> 1"
    and m: "get_message w m = Some msg" "m \<notin># queued w"
    and room: "channel_room st side (cm_byte_count msg) (length (cm_resources msg))"
      "global_room (cm_byte_count msg) (resource_count msg) (kw_globals w)"
  shows "chan_ok ext ((put_state s (push_state side m msg st) w)
      \<lparr>kw_globals := reserved_globals (cm_byte_count msg) (resource_count msg) (kw_globals w)\<rparr>)"
    and "queued ((put_state s (push_state side m msg st) w)
      \<lparr>kw_globals := reserved_globals (cm_byte_count msg) (resource_count msg) (kw_globals w)\<rparr>) = queued w + {#m#}"
proof -
  have quota: "quota_ok w" "keys_ok w" using ok by (simp_all add: chan_ok_def heap_ok_def)
  then have mok: "messages_ok w" and sok: "state_ok w st" using st by (simp_all add: quota_ok_def)
  note push = queue_push_ok [OF sok side room(1) m(1) mok]
  have M: "st_messages (push_state side m msg st) + {#} = st_messages st + {#m#}"
    using push(2) [of side] by (intro st_messages_queue [OF side push(4)]) (simp add: queue_list_def)
  have lim: "unat (g_messages (kw_globals w)) + unat (1 :: u64) \<le> unat NA_CHANNEL_GLOBAL_MAX_MESSAGES"
    "unat (g_bytes (kw_globals w)) + unat (cm_byte_count msg) \<le> unat NA_CHANNEL_GLOBAL_MAX_BYTES"
    "unat (g_resources (kw_globals w)) + unat (resource_count msg) \<le> unat NA_CHANNEL_GLOBAL_MAX_RESOURCES"
    using room(2) by (simp_all add: global_room_def)
  note gl = unat_add_le_limit [OF lim(1)] unat_add_le_limit [OF lim(2)] unat_add_le_limit [OF lim(3)]
  let ?g = "reserved_globals (cm_byte_count msg) (resource_count msg) (kw_globals w)"
  have wt: "msg_bytes w m = unat (cm_byte_count msg)" "msg_resources w m = unat (resource_count msg)"
    using m(1) unat_resource_count [OF mok m(1)] by (simp_all add: msg_bytes_def msg_resources_def)
  have fin: "quota_ok ((put_state s (push_state side m msg st) w)\<lparr>kw_globals := ?g\<rparr>)"
    "queued ((put_state s (push_state side m msg st) w)\<lparr>kw_globals := ?g\<rparr>) + {#} = queued w + {#m#}"
    using gl wt m by (intro quota_ok_put_state [OF quota st push(1) M]; simp add: reserved_globals_def)+
  show "queued ((put_state s (push_state side m msg st) w)\<lparr>kw_globals := ?g\<rparr>) = queued w + {#m#}"
    using fin(2) by simp
  show "chan_ok ext ((put_state s (push_state side m msg st) w)\<lparr>kw_globals := ?g\<rparr>)"
    by (rule chan_ok_put_state [OF ok st push(3) fin(1)])
qed

section \<open>Enqueueing in the heap\<close>

lemma alist_update_same: "map_of al k = Some v \<Longrightarrow> AList.update k v al = al"
  by (induction al) auto

lemma put_same [simp]:
  "get_state w s = Some st \<Longrightarrow> put_state s st w = w" "get_message w m = Some msg \<Longrightarrow> put_message m msg w = w"
  by (simp_all add: put_state_def put_message_def get_state_def get_message_def alist_update_same)

text \<open>The world after a successful enqueue: \<open>accept_message\<close>.\<close>

definition accept_message :: "sptr \<Rightarrow> nat \<Rightarrow> mptr \<Rightarrow> transfer_record list \<Rightarrow> channel_message \<Rightarrow> channel_state \<Rightarrow> kworld \<Rightarrow> kworld" where
  "accept_message s receiver m records msg st w =
     put_state s (push_state receiver m (fill_message records msg) st)
       (put_message m (fill_message records msg)
         (w\<lparr>kw_globals := reserved_globals (cm_byte_count msg) (record_count records) (kw_globals w)\<rparr>))"

lemma accept_message_ok:
  assumes ok: "chan_ok (\<lambda>ob. res_count ob (map rec_resource records) + ext ob) w"
    and st: "get_state w s = Some st" and m: "get_message w m = Some msg" "m \<notin># queued w"
    and r: "receiver \<le> 1" "length records < 2 ^ 64" "cm_resources msg = []" "length records \<le> unat (cm_resource_capacity msg)"
    and room: "channel_room st receiver (cm_byte_count msg) (length records)"
      "global_room (cm_byte_count msg) (record_count records) (kw_globals w)"
  shows "chan_ok ext (accept_message s receiver m records msg st w)"
    "queued (accept_message s receiver m records msg st w) = queued w + {#m#}"
    "queue_list (push_state receiver m (fill_message records msg) st) i =
      (if i = receiver then queue_list st receiver @ [m] else queue_list st i)"
proof -
  let ?msg = "fill_message records msg"
  let ?w = "put_message m ?msg w"
  have f: "cm_byte_count ?msg = cm_byte_count msg" "length (cm_resources ?msg) = length records"
    "resource_count ?msg = record_count records"
    by (simp_all add: fill_message_def resource_count_def record_count_def)
  have ok1: "chan_ok ext ?w"
    by (rule chan_ok_put_message [OF ok m]) (use r in \<open>simp_all add: fill_message_def res_count_def\<close>)
  have eq: "accept_message s receiver m records msg st w =
      (put_state s (push_state receiver m ?msg st) ?w)
        \<lparr>kw_globals := reserved_globals (cm_byte_count ?msg) (resource_count ?msg) (kw_globals ?w)\<rparr>"
    by (simp add: accept_message_def f put_state_def put_message_def)
  note push = chan_ok_push [OF ok1 _ r(1), of s st m ?msg]
  show "chan_ok ext (accept_message s receiver m records msg st w)"
    unfolding eq by (rule push(1)) (use st m room f in simp_all)
  show "queued (accept_message s receiver m records msg st w) = queued w + {#m#}"
    unfolding eq by (subst push(2)) (use st m room f in simp_all)
  have "state_ok ?w st" "messages_ok ?w" using ok1 st by (auto simp: chan_ok_def quota_ok_def)
  then show "queue_list (push_state receiver m ?msg st) i = (if i = receiver then queue_list st receiver @ [m] else queue_list st i)"
    using queue_push_ok(2) [of ?w st receiver ?msg m i] r(1) room(1) f by simp
qed

lemma enqueue_kernel_eq:
  assumes "chan_ok ext w" "get_state w s = Some st" "get_message w m = Some msg" "length records < 2 ^ 64" "sender \<le> 1"
  shows "enqueue_kernel s sender m records limit w = Some (
    case enqueue_refused sender msg records st of
      Some status \<Rightarrow> (status, records, w)
    | None \<Rightarrow>
       if cs_owners st (1 - sender) = 0 then (NA_STATUS_PEER_CLOSED, records, w)
       else if (limit \<noteq> 0 \<and> of_nat (bq_count (cq_fifo (cs_queues st (1 - sender)))) \<ge> limit) \<or>
               \<not> channel_room st (1 - sender) (cm_byte_count msg) (length records)
       then (NA_STATUS_WOULD_BLOCK, records, w)
       else if \<not> global_room (cm_byte_count msg) (record_count records) (kw_globals w)
       then (NA_STATUS_RESOURCE_EXHAUSTED, records, w)
       else (NA_STATUS_OK, map move_out records,
             notify_channel_waiters (accept_message s (1 - sender) m records msg st w)))"
proof -
  have sok: "state_ok w st" by (rule chan_ok_state [OF assms(1,2)])
  then have v: "cs_valid st" by (simp add: state_ok_def)
  have "heap_ok w" using assms(1) by (simp add: chan_ok_def)
  with assms(3) have m0: "m \<noteq> 0" by (metis heap_ok_nonzero(2) option.distinct(1))
  have len: "length (cm_resources msg) \<le> unat (cm_resource_capacity msg)"
    using assms(1,3) by (simp add: chan_ok_def quota_ok_def messages_ok_def)
  have w: "put_state s st (put_message m msg (w\<lparr>kw_globals := kw_globals w\<rparr>)) = w"
    using assms(2,3) by simp
  show ?thesis
  proof (cases "enqueue_refused sender msg records st")
    case (Some status)
    with assms v m0 show ?thesis by (simp add: enqueue_kernel_def)
  next
    case None
    define receiver where "receiver = 1 - sender"
    have "receiver \<le> 1" by (simp add: receiver_def)
    note eq = enqueue_kernel_locked_eq [OF sok this None assms(4) len, of m limit "kw_globals w"]
    from None assms v m0 w show ?thesis
      unfolding enqueue_kernel_def receiver_def [symmetric] by (simp add: eq accept_message_def Let_def)
  qed
qed

end
