(* ===== verification/Channel_Gc_Mark.thy ===== *)
theory Channel_Gc_Mark
  imports Channel_Ops
begin

text \<open>
  Marking in the collector computes reachability: \<open>kept\<close> says independently of the algorithm
  which channels must survive, and the mark list after the loop is exactly that set.
\<close>

inductive kept :: "kworld \<Rightarrow> sptr \<Rightarrow> bool" for w where
  kept_root: "s \<in> set (kw_registry w) \<Longrightarrow> get_state w s = Some st \<Longrightarrow> has_root st \<or> \<not> can_reap st \<Longrightarrow> kept w s"
| kept_step: "kept w s \<Longrightarrow> get_state w s = Some st \<Longrightarrow> side \<le> 1 \<Longrightarrow> m \<in> set (queue_list st side) \<Longrightarrow>
    get_message w m = Some msg \<Longrightarrow> r \<in> set (cm_resources msg) \<Longrightarrow> tr_object r = Some ob \<Longrightarrow>
    endpoint_of w ob = Some (t, i) \<Longrightarrow> kept w t"

section \<open>The targets of a state\<close>

lemma queue_messages_contents: "bq_invar q \<Longrightarrow> queue_messages q = bq_contents q"
  by (rule nth_equalityI) (simp_all add: queue_messages_def length_bq_contents bq_at_nth)

lemma msg_refs_pos:
  assumes "get_message w m = Some msg" "r \<in> set (cm_resources msg)" "tr_object r = Some ob"
  shows "0 < msg_refs w ob"
proof -
  have "(m, msg) \<in># mset (kw_messages w)" using assms(1) unfolding get_message_def by (rule map_of_in_mset)
  then obtain M where "mset (kw_messages w) = add_mset (m, msg) M" by (metis multi_member_split)
  moreover have "0 < res_count ob (cm_resources msg)"
    using assms(2,3) by (auto simp: res_count_def filter_empty_conv)
  ultimately show ?thesis by (simp add: msg_refs_def)
qed

lemma message_object_live:
  assumes "refs_ok ext w" "get_message w m = Some msg" "r \<in> set (cm_resources msg)" "tr_object r = Some ob"
  obtains obj where "get_object w ob = Some obj"
proof -
  have "0 < obj_refs w ob" using assms(1) msg_refs_pos [OF assms(2-4)] by (simp add: refs_ok_def)
  then show ?thesis using that by (auto simp: obj_refs_def split: option.splits)
qed

lemma resource_target_eq:
  assumes "refs_ok ext w" "get_message w m = Some msg" "r \<in> set (cm_resources msg)"
  shows "\<exists>ts. resource_target w r = Some ts \<and>
    (\<forall>t. t \<in> set ts \<longleftrightarrow> (\<exists>ob i. tr_object r = Some ob \<and> endpoint_of w ob = Some (t, i)))"
proof (cases "tr_object r")
  case None
  then show ?thesis by (simp add: resource_target_def)
next
  case (Some ob)
  with assms obtain obj where "get_object w ob = Some obj" using message_object_live by metis
  with Some show ?thesis
    by (cases "ko_kind obj") (auto simp: resource_target_def endpoint_of_def)
qed

lemma resource_targets_eq:
  assumes "refs_ok ext w" "get_message w m = Some msg" "set rs \<subseteq> set (cm_resources msg)"
  shows "\<exists>ts. resource_targets w rs = Some ts \<and>
    (\<forall>t. t \<in> set ts \<longleftrightarrow> (\<exists>r \<in> set rs. \<exists>ob i. tr_object r = Some ob \<and> endpoint_of w ob = Some (t, i)))"
  using assms(3)
proof (induction rs)
  case (Cons r rs)
  then obtain a b where "resource_targets w rs = Some b"
      "\<forall>t. t \<in> set b \<longleftrightarrow> (\<exists>r \<in> set rs. \<exists>ob i. tr_object r = Some ob \<and> endpoint_of w ob = Some (t, i))"
      "resource_target w r = Some a"
      "\<forall>t. t \<in> set a \<longleftrightarrow> (\<exists>ob i. tr_object r = Some ob \<and> endpoint_of w ob = Some (t, i))"
    using resource_target_eq [OF assms(1,2), of r] by auto
  then show ?case by auto
qed simp

definition message_target :: "kworld \<Rightarrow> mptr \<Rightarrow> sptr \<Rightarrow> bool" where
  "message_target w m t \<longleftrightarrow>
     (\<exists>msg. get_message w m = Some msg \<and>
        (\<exists>r \<in> set (cm_resources msg). \<exists>ob i. tr_object r = Some ob \<and> endpoint_of w ob = Some (t, i)))"

lemma message_targets_eq:
  assumes "refs_ok ext w" "\<And>m. m \<in> set ms \<Longrightarrow> m \<noteq> 0 \<and> get_message w m \<noteq> None"
  shows "\<exists>ts. message_targets w ms = Some ts \<and> (\<forall>t. t \<in> set ts \<longleftrightarrow> (\<exists>m \<in> set ms. message_target w m t))"
  using assms(2)
proof (induction ms)
  case (Cons m ms)
  from Cons.prems obtain msg where msg: "get_message w m = Some msg" "m \<noteq> 0" by force
  obtain a where a: "resource_targets w (cm_resources msg) = Some a" "\<forall>t. t \<in> set a \<longleftrightarrow> message_target w m t"
    using resource_targets_eq [OF assms(1) msg(1), of "cm_resources msg"] msg(1) by (auto simp: message_target_def)
  have "\<exists>b. message_targets w ms = Some b \<and> (\<forall>t. t \<in> set b \<longleftrightarrow> (\<exists>m \<in> set ms. message_target w m t))"
    by (rule Cons.IH) (use Cons.prems in auto)
  then obtain b where "message_targets w ms = Some b" "\<forall>t. t \<in> set b \<longleftrightarrow> (\<exists>m \<in> set ms. message_target w m t)" by blast
  with a msg show ?case by (intro exI [of _ "a @ b"]) simp
qed simp

text \<open>The edges of the graph of channels.\<close>

definition channel_edge :: "kworld \<Rightarrow> sptr \<Rightarrow> sptr \<Rightarrow> bool" where
  "channel_edge w s t \<longleftrightarrow>
     (\<exists>st side m. get_state w s = Some st \<and> side \<le> 1 \<and> m \<in> set (queue_list st side) \<and> message_target w m t)"

lemma kept_edge: "kept w s \<Longrightarrow> channel_edge w s t \<Longrightarrow> kept w t"
  unfolding channel_edge_def message_target_def by (blast intro: kept_step)

lemma le_one_cases: "(i :: nat) \<le> 1 \<longleftrightarrow> i = 0 \<or> i = 1"
  by auto

lemma collect_reachable_eq:
  assumes "chan_ok ext w" "get_state w s = Some st"
  shows "\<exists>ts. collect_reachable_states w s = Some ts \<and> (\<forall>t. t \<in> set ts \<longleftrightarrow> channel_edge w s t)"
proof -
  have refs: "refs_ok ext w" using assms(1) by (simp add: chan_ok_def)
  have sok: "state_ok w st" by (rule chan_ok_state [OF assms])
  have q: "queue_messages (cq_fifo (cs_queues st side)) = queue_list st side" if "side \<le> 1" for side
    unfolding queue_list_def by (rule queue_messages_contents [OF queue_facts(1) [OF sok that]])
  have live: "m \<noteq> 0 \<and> get_message w m \<noteq> None" if "side \<le> 1" "m \<in> set (queue_list st side)" for side m
    using queued_message [OF assms that] by (metis option.distinct(1))
  have ex: "\<exists>ts. message_targets w (queue_list st side) = Some ts \<and>
      (\<forall>t. t \<in> set ts \<longleftrightarrow> (\<exists>m \<in> set (queue_list st side). message_target w m t))" if "side \<le> 1" for side
    by (rule message_targets_eq [OF refs live [OF that]])
  obtain a where a: "message_targets w (queue_list st 0) = Some a"
      "\<And>t. t \<in> set a \<longleftrightarrow> (\<exists>m \<in> set (queue_list st 0). message_target w m t)"
    using ex [of 0] by auto
  obtain b where b: "message_targets w (queue_list st 1) = Some b"
      "\<And>t. t \<in> set b \<longleftrightarrow> (\<exists>m \<in> set (queue_list st 1). message_target w m t)"
    using ex [of 1] by auto
  have "channel_edge w s t \<longleftrightarrow> (\<exists>side m. (side = 0 \<or> side = 1) \<and> m \<in> set (queue_list st side) \<and> message_target w m t)" for t
    unfolding channel_edge_def le_one_cases assms(2) option.inject by simp
  then have edge: "channel_edge w s t \<longleftrightarrow> t \<in> set a \<or> t \<in> set b" for t unfolding a(2) b(2) by blast
  have "collect_reachable_states w s = Some (a @ b)"
    using assms(2) q [of 0] q [of 1] a(1) b(1) by (simp add: collect_reachable_states_def)
  with edge show ?thesis by auto
qed

section \<open>The mark list\<close>

definition marked_set :: "sptr list \<Rightarrow> bool list \<Rightarrow> sptr set" where
  "marked_set states marked = {states ! i | i. i < length states \<and> marked ! i}"

lemma contains_state_None: "contains_state states t = None \<longleftrightarrow> t \<notin> set states"
  by (induction states) auto

lemma contains_state_Some: "contains_state states t = Some i \<Longrightarrow> i < length states \<and> states ! i = t"
  by (induction states arbitrary: i) (auto split: if_splits)

lemma marked_set_update:
  assumes "i < length states" "length marked = length states"
  shows "marked_set states (marked[i := True]) = insert (states ! i) (marked_set states marked)"
  using assms by (auto simp: marked_set_def nth_list_update)

lemma marked_set_nth:
  assumes "distinct states" "i < length states"
  shows "states ! i \<in> marked_set states marked \<longleftrightarrow> marked ! i"
  using assms by (auto simp: marked_set_def nth_eq_iff_index_eq)

lemma mark_targets_spec:
  assumes "mark_targets states ts marked work = (marked', work')" "distinct states" "length marked = length states"
  shows "length marked' = length states \<and>
    marked_set states marked' = marked_set states marked \<union> (set ts \<inter> set states) \<and>
    set work' = set work \<union> (marked_set states marked' - marked_set states marked)"
  using assms
proof (induction states ts marked work rule: mark_targets.induct)
  case (2 states t ts marked work)
  show ?case
  proof (cases "contains_state states t")
    case None
    with 2 show ?thesis by (simp add: contains_state_None)
  next
    case (Some i)
    then have i: "i < length states" "states ! i = t" using contains_state_Some by auto
    have t: "t \<in> set states" using i by auto
    show ?thesis
    proof (cases "marked ! i")
      case True
      then have "t \<in> marked_set states marked" using i by (auto simp: marked_set_def)
      with True 2 Some t show ?thesis by auto
    next
      case False
      then have nt: "t \<notin> marked_set states marked" using marked_set_nth [OF "2.prems"(2) i(1), of marked] i(2) by simp
      have rec: "mark_targets states ts (marked[i := True]) (work @ [t]) = (marked', work')"
        using "2.prems" Some False i by simp
      have "length marked' = length states \<and>
          marked_set states marked' = marked_set states (marked[i := True]) \<union> (set ts \<inter> set states) \<and>
          set work' = set (work @ [t]) \<union> (marked_set states marked' - marked_set states (marked[i := True]))"
        using "2.IH"(2) [OF Some _ rec "2.prems"(2)] "2.prems"(3) False i by simp
      with marked_set_update [OF i(1) "2.prems"(3)] i(2) t nt show ?thesis by auto
    qed
  qed
qed simp

section \<open>Marking is reachability\<close>

lemma edge_in_registry:
  assumes "chan_ok ext w" "channel_edge w s t"
  shows "t \<in> set (kw_registry w)"
proof -
  obtain ob i where "endpoint_of w ob = Some (t, i)" using assms(2) by (auto simp: channel_edge_def message_target_def)
  then obtain obj where "get_object w ob = Some obj" "ko_kind obj = ko_endpoint t i"
    by (auto simp: endpoint_of_def split: option.splits object_kind.splits)
  with assms(1) have "get_state w t \<noteq> None" using heap_ok_endpoint by (fastforce simp: chan_ok_def)
  with assms(1) show ?thesis by (simp add: chan_ok_def registry_ok_def)
qed

lemma mark_loop_spec:
  assumes "chan_ok ext w" "states = kw_registry w" "length marked = length states"
    and "set work \<subseteq> marked_set states marked" "\<And>s. s \<in> marked_set states marked \<Longrightarrow> kept w s"
    and "\<And>s t. s \<in> marked_set states marked \<Longrightarrow> s \<notin> set work \<Longrightarrow> channel_edge w s t \<Longrightarrow> t \<in> marked_set states marked"
    and "\<And>s st. s \<in> set states \<Longrightarrow> get_state w s = Some st \<Longrightarrow> has_root st \<or> \<not> can_reap st \<Longrightarrow> s \<in> marked_set states marked"
  shows "\<exists>marked'. mark_loop w states marked work = Some marked' \<and> length marked' = length states \<and>
    (\<forall>s. s \<in> marked_set states marked' \<longleftrightarrow> kept w s)"
  using assms
proof (induction w states marked work rule: mark_loop.induct)
  case (1 w states marked)
  note p = "1.prems"
  have "s \<in> marked_set states marked" if "kept w s" for s
    using that
  proof (induction rule: kept.induct)
    case (kept_root s st)
    show ?case by (rule p(7) [of s st]) (use kept_root p(2) in auto)
  next
    case (kept_step s st side m msg r ob t i)
    then have "channel_edge w s t" unfolding channel_edge_def message_target_def by blast
    with p(6) [OF kept_step.IH] show ?case by simp
  qed
  with p(3,5) show ?case by (metis mark_loop.simps(1))
next
  case (2 w states marked s work)
  note p = "2.prems"
  have dist: "distinct states" using p(1,2) by (simp add: chan_ok_def registry_ok_def)
  have smk: "s \<in> marked_set states marked" using p(4) by auto
  then have "s \<in> set (kw_registry w)" using p(2) by (auto simp: marked_set_def)
  then obtain st where st: "get_state w s = Some st" using p(1) by (auto simp: chan_ok_def registry_ok_def)
  obtain ts where ts: "collect_reachable_states w s = Some ts" "\<And>t. t \<in> set ts \<longleftrightarrow> channel_edge w s t"
    using collect_reachable_eq [OF p(1) st] by blast
  obtain marked' work' where mt: "mark_targets states ts marked work = (marked', work')" by fastforce
  note spec = mark_targets_spec [OF mt dist p(3)]
  have ts_states: "set ts \<subseteq> set states" using ts(2) edge_in_registry [OF p(1)] p(2) by blast
  have "\<exists>marked''. mark_loop w states marked' work' = Some marked'' \<and> length marked'' = length states \<and>
      (\<forall>s. s \<in> marked_set states marked'' \<longleftrightarrow> kept w s)"
  proof (rule "2.IH" [OF ts(1) mt [symmetric] p(1,2)])
    show "length marked' = length states" using spec by simp
    show "set work' \<subseteq> marked_set states marked'" using spec p(4) by auto
    show "kept w x" if "x \<in> marked_set states marked'" for x
      using that spec ts(2) p(5) smk kept_edge by blast
    show "t \<in> marked_set states marked'"
      if "x \<in> marked_set states marked'" "x \<notin> set work'" "channel_edge w x t" for x t
    proof (cases "x = s")
      case True
      with that(3) ts ts_states spec show ?thesis by blast
    next
      case False
      with that spec have "x \<in> marked_set states marked" "x \<notin> set (s # work)" by auto
      with p(6) that(3) spec show ?thesis by blast
    qed
    show "x \<in> marked_set states marked'"
      if "x \<in> set states" "get_state w x = Some st" "has_root st \<or> \<not> can_reap st" for x st
      using p(7) [OF that] spec by blast
  qed
  with ts(1) mt show ?case by simp
qed

lemma gc_roots_spec:
  assumes "\<And>s. s \<in> set ss \<Longrightarrow> get_state w s \<noteq> None"
  shows "\<exists>marked work. gc_roots w ss = Some (marked, work) \<and> length marked = length ss \<and>
    set work = marked_set ss marked \<and>
    (\<forall>i < length ss. marked ! i \<longleftrightarrow> (\<forall>st. get_state w (ss ! i) = Some st \<longrightarrow> has_root st \<or> \<not> can_reap st))"
  using assms
proof (induction ss)
  case Nil
  then show ?case by (simp add: marked_set_def)
next
  case (Cons s ss)
  from Cons.prems obtain st where st: "get_state w s = Some st" by fastforce
  from Cons obtain marked work where ih: "gc_roots w ss = Some (marked, work)" "length marked = length ss"
      "set work = marked_set ss marked"
      "\<forall>i < length ss. marked ! i \<longleftrightarrow> (\<forall>st. get_state w (ss ! i) = Some st \<longrightarrow> has_root st \<or> \<not> can_reap st)"
    by (metis list.set_intros(2))
  let ?r = "has_root st \<or> \<not> can_reap st"
  have "marked_set (s # ss) (?r # marked) = (if ?r then {s} else {}) \<union> marked_set ss marked"
    by (force simp: marked_set_def nth_Cons gr0_conv_Suc split: nat.splits)
  moreover have "(?r # marked) ! i \<longleftrightarrow> (\<forall>st. get_state w ((s # ss) ! i) = Some st \<longrightarrow> has_root st \<or> \<not> can_reap st)"
    if "i < length (s # ss)" for i
    using that ih(4) st by (cases i) auto
  ultimately show ?case using ih st
    by (intro exI [of _ "?r # marked"] exI [of _ "if ?r then s # work else work"]) (auto simp: Let_def)
qed

text \<open>The two loops together: the mark of a registered state says whether it is kept.\<close>

lemma marking_correct:
  assumes "chan_ok ext w"
  shows "\<exists>marked0 work marked. gc_roots w (kw_registry w) = Some (marked0, work) \<and>
    mark_loop w (kw_registry w) marked0 work = Some marked \<and> length marked = length (kw_registry w) \<and>
    (\<forall>i < length (kw_registry w). marked ! i \<longleftrightarrow> kept w (kw_registry w ! i))"
proof -
  let ?ss = "kw_registry w"
  have reg: "distinct ?ss" "\<And>s. s \<in> set ?ss \<longleftrightarrow> get_state w s \<noteq> None"
    using assms by (simp_all add: chan_ok_def registry_ok_def)
  obtain marked0 work where r: "gc_roots w ?ss = Some (marked0, work)" "length marked0 = length ?ss"
      "set work = marked_set ?ss marked0"
      "\<And>i. i < length ?ss \<Longrightarrow> marked0 ! i \<longleftrightarrow> (\<forall>st. get_state w (?ss ! i) = Some st \<longrightarrow> has_root st \<or> \<not> can_reap st)"
    using gc_roots_spec [of ?ss w] reg(2) by blast
  have root: "s \<in> marked_set ?ss marked0 \<longleftrightarrow> (\<exists>st. get_state w s = Some st \<and> (has_root st \<or> \<not> can_reap st))"
    if "s \<in> set ?ss" for s
  proof -
    from that obtain i where i: "i < length ?ss" "?ss ! i = s" by (auto simp: in_set_conv_nth)
    obtain st where "get_state w s = Some st" using \<open>s \<in> set ?ss\<close> reg(2) [of s] by blast
    with i r(4) [OF i(1)] marked_set_nth [OF reg(1) i(1), of marked0] show ?thesis by auto
  qed
  have sub: "marked_set ?ss marked0 \<subseteq> set ?ss" by (auto simp: marked_set_def)
  have "\<exists>marked. mark_loop w ?ss marked0 work = Some marked \<and> length marked = length ?ss \<and>
      (\<forall>s. s \<in> marked_set ?ss marked \<longleftrightarrow> kept w s)"
  proof (rule mark_loop_spec [OF assms refl r(2)])
    show "kept w s" if "s \<in> marked_set ?ss marked0" for s
      using that sub root by (metis kept_root subsetD)
  qed (use r(3) root in auto)
  with r(1) marked_set_nth [OF reg(1)] show ?thesis by metis
qed

end
