(* ===== verification/Channel_Gc_Sweep.thy ===== *)
theory Channel_Gc_Sweep
  imports Channel_Gc_Mark
begin

text \<open>
  The two passes of the collector over the unmarked channels: dropping their messages, and
  deleting those without endpoint objects. Both keep the invariants, and leave the channels
  that are marked with their messages alone.
\<close>

section \<open>What destroying resources leaves alone\<close>

definition same_roots :: "kworld \<Rightarrow> kworld \<Rightarrow> bool" where
  "same_roots w w' \<longleftrightarrow> (\<forall>s. map_option cs_roots (get_state w' s) = map_option cs_roots (get_state w s))"

definition kinds_sub :: "kworld \<Rightarrow> kworld \<Rightarrow> bool" where
  "kinds_sub w w' \<longleftrightarrow>
     (\<forall>ob obj'. get_object w' ob = Some obj' \<longrightarrow> (\<exists>obj. get_object w ob = Some obj \<and> ko_kind obj' = ko_kind obj))"

lemma frames_refl [simp]: "same_roots w w" "kinds_sub w w"
  by (simp_all add: same_roots_def kinds_sub_def)

lemma same_roots_trans: "same_roots w w' \<Longrightarrow> same_roots w' w'' \<Longrightarrow> same_roots w w''"
  by (simp add: same_roots_def)

lemma kinds_sub_trans: "kinds_sub w w' \<Longrightarrow> kinds_sub w' w'' \<Longrightarrow> kinds_sub w w''"
  unfolding kinds_sub_def by metis

fun transit_event :: "cap_event \<Rightarrow> bool" where
  "transit_event (Ev_acquire ob wh) = (wh = in_transit)"
| "transit_event (Ev_release ob wh) = (wh = in_transit)"
| "transit_event (Ev_handoff ob wh wh') = (wh = in_transit)"
| "transit_event _ = True"

lemma endpoint_hook_frames:
  assumes "endpoint_hook f ob w = Some w'" "\<And>side st. cs_roots (f side st) = cs_roots st"
  shows "same_roots w w'" "kw_objects w' = kw_objects w"
proof -
  obtain obj where obj: "get_object w ob = Some obj"
    using assms(1) by (auto simp: endpoint_hook_def split: bind_splits)
  have "same_roots w w' \<and> kw_objects w' = kw_objects w"
  proof (cases "ko_kind obj")
    case (ko_endpoint s side)
    show ?thesis
    proof (cases "s = 0")
      case True
      with ko_endpoint obj assms(1) show ?thesis by (simp add: endpoint_hook_def)
    next
      case False
      with ko_endpoint obj assms(1) obtain st where "get_state w s = Some st" "w' = put_state s (f side st) w"
        by (auto simp: endpoint_hook_def on_state_def split: bind_splits)
      with assms(2) show ?thesis by (simp add: same_roots_def)
    qed
  next
    case (ko_other t u g)
    with obj assms(1) show ?thesis by (simp add: endpoint_hook_def)
  qed
  then show "same_roots w w'" "kw_objects w' = kw_objects w" by simp_all
qed

lemma transit_hook_roots:
  "cs_roots (capability_acquired side in_transit st) = cs_roots st"
  "cs_roots (capability_released side in_transit st) = cs_roots st"
  "cs_roots (endpoint_object_destroyed st) = cs_roots st"
  by (simp_all add: capability_acquired_def capability_released_def endpoint_object_destroyed_def Let_def)

lemma kinds_sub_objects: "kw_objects w' = kw_objects w \<Longrightarrow> kinds_sub w w'"
  by (simp add: kinds_sub_def get_object_def)

lemma apply_event_frames:
  assumes "apply_event e w = Some w'" "transit_event e"
  shows "same_roots w w' \<and> kinds_sub w w'"
proof (cases e)
  case (Ev_acquire ob wh)
  with assms endpoint_hook_frames [of "\<lambda>side. capability_acquired side wh" ob w w'] show ?thesis
    by (auto simp: on_capability_acquire_def transit_hook_roots intro: kinds_sub_objects)
next
  case (Ev_release ob wh)
  with assms endpoint_hook_frames [of "\<lambda>side. capability_released side wh" ob w w'] show ?thesis
    by (auto simp: on_capability_release_def transit_hook_roots intro: kinds_sub_objects)
next
  case (Ev_handoff ob wh wh')
  with assms endpoint_hook_frames [of "\<lambda>side. capability_released side wh" ob w w'] show ?thesis
    by (auto simp: on_capability_handoff_def transit_hook_roots intro: kinds_sub_objects)
next
  case (Ev_ref ob)
  with assms show ?thesis
    by (auto simp: object_ref_def same_roots_def kinds_sub_def split: bind_splits if_splits)
next
  case (Ev_unref ob)
  with assms obtain obj where obj: "get_object w ob = Some obj" and
      w': "(if ko_refs obj \<le> 1 then destroy_object ob w
            else Some (put_object ob (obj\<lparr>ko_refs := ko_refs obj - 1\<rparr>) w)) = Some w'"
    by (auto simp: object_unref_def split: bind_splits)
  show ?thesis
  proof (cases "ko_refs obj \<le> 1")
    case True
    with w' obtain w1 where w1: "endpoint_hook (\<lambda>side. endpoint_object_destroyed) ob w = Some w1"
        "w' = w1\<lparr>kw_objects := AList.delete ob (kw_objects w1)\<rparr>"
      by (auto simp: destroy_object_def split: bind_splits)
    note f = endpoint_hook_frames [OF w1(1)]
    from f w1(2) show ?thesis
      by (auto simp: transit_hook_roots same_roots_def kinds_sub_def get_object_def delete_conv' split: if_splits)
  next
    case False
    with w' obj show ?thesis by (auto simp: same_roots_def kinds_sub_def split: if_splits)
  qed
qed

lemma apply_events_frames:
  assumes "apply_events es w = Some w'" "list_all transit_event es"
  shows "same_roots w w' \<and> kinds_sub w w'"
  using assms
proof (induction es arbitrary: w)
  case (Cons e es)
  from Cons.prems obtain w1 where "apply_event e w = Some w1" "apply_events es w1 = Some w'"
    by (auto split: bind_splits)
  with Cons.IH [of w1] Cons.prems(2) apply_event_frames [of e w w1]
  have "same_roots w w1" "kinds_sub w w1" "same_roots w1 w'" "kinds_sub w1 w'" by simp_all
  then show ?case by (blast intro: same_roots_trans kinds_sub_trans)
qed simp

lemma destroy_transit: "list_all transit_event (concat (map tr_destroy rs))"
  by (induction rs) (auto simp: tr_destroy_def tr_release_transit_def h_drop_def split: option.splits)

section \<open>Deleting messages\<close>

text \<open>The relation between the worlds before and after: the capability counters of states may go down.\<close>

definition keeps_states :: "kworld \<Rightarrow> kworld \<Rightarrow> bool" where
  "keeps_states w w' \<longleftrightarrow>
     kw_registry w' = kw_registry w \<and> kinds_sub w w' \<and> same_roots w w' \<and>
     map (\<lambda>(s, st). (s, cs_core st)) (kw_states w') = map (\<lambda>(s, st). (s, cs_core st)) (kw_states w)"

lemma keeps_states_refl [simp]: "keeps_states w w"
  by (simp add: keeps_states_def)

lemma keeps_states_trans: "keeps_states w w' \<Longrightarrow> keeps_states w' w'' \<Longrightarrow> keeps_states w w''"
  by (auto simp: keeps_states_def intro: same_roots_trans kinds_sub_trans)

lemma keeps_states_core:
  assumes "keeps_states w w'"
  shows "map_option cs_core (get_state w' s) = map_option cs_core (get_state w s)"
proof -
  have "map_of (map (\<lambda>(s, st). (s, cs_core st)) (kw_states w')) s =
      map_of (map (\<lambda>(s, st). (s, cs_core st)) (kw_states w)) s"
    using assms by (simp add: keeps_states_def)
  then show ?thesis by (simp only: map_of_map_core get_state_def)
qed

lemma delete_message_frames:
  assumes "heap_ok w" "refs_ok ext w" "get_message w m = Some msg"
  shows "\<exists>w'. delete_message m w = Some w' \<and> heap_ok w' \<and> refs_ok ext w' \<and> keeps_states w w' \<and>
    same_core (w\<lparr>kw_messages := AList.delete m (kw_messages w)\<rparr>) w' \<and>
    (\<forall>n. get_message w' n = (if n = m then None else get_message w n))"
proof -
  obtain w' where w': "delete_message m w = Some w'" "heap_ok w'" "refs_ok ext w'"
      "same_core (w\<lparr>kw_messages := AList.delete m (kw_messages w)\<rparr>) w'"
    using delete_message_ok [OF assms] by blast
  have ev: "apply_events (concat (map tr_destroy (cm_resources msg)))
      (w\<lparr>kw_messages := AList.delete m (kw_messages w)\<rparr>) = Some w'"
    using w'(1) assms(3) by (simp add: delete_message_def)
  have "same_roots w w' \<and> kinds_sub w w'"
    using apply_events_frames [OF ev destroy_transit] by (simp add: same_roots_def kinds_sub_def)
  then have "keeps_states w w'" using w'(4) by (simp add: keeps_states_def same_core_def)
  moreover have "get_message w' n = (if n = m then None else get_message w n)" for n
    using same_core_message [OF w'(4), of n] by simp
  ultimately show ?thesis using w' by blast
qed

lemma quota_ok_delete_message:
  assumes "quota_ok w" "keys_ok w" "m \<notin># queued w"
  shows "quota_ok (w\<lparr>kw_messages := AList.delete m (kw_messages w)\<rparr>)"
  by (rule quota_ok_unqueued [OF assms(1,2)])
    (use assms(1,3) in \<open>auto simp: quota_ok_def messages_ok_def split: if_splits\<close>)

lemma chan_ok_delete_message:
  assumes "chan_ok ext w" "get_message w m \<noteq> None" "m \<notin># queued w"
  shows "\<exists>w'. delete_message m w = Some w' \<and> chan_ok ext w' \<and> keeps_states w w' \<and> queued w' = queued w \<and>
    (\<forall>n. get_message w' n = (if n = m then None else get_message w n))"
proof -
  obtain msg where "get_message w m = Some msg" using assms(2) by blast
  with assms(1) obtain w' where w': "delete_message m w = Some w'" "heap_ok w'" "refs_ok ext w'" "keeps_states w w'"
      "same_core (w\<lparr>kw_messages := AList.delete m (kw_messages w)\<rparr>) w'"
      "\<forall>n. get_message w' n = (if n = m then None else get_message w n)"
    using delete_message_frames [of w ext m msg] by (auto simp: chan_ok_def)
  let ?w = "w\<lparr>kw_messages := AList.delete m (kw_messages w)\<rparr>"
  have "quota_ok ?w" using assms by (intro quota_ok_delete_message) (simp_all add: chan_ok_def heap_ok_def)
  moreover have "registry_ok ?w" using assms(1) by (simp add: chan_ok_def registry_ok_def)
  ultimately have "chan_ok ext w'"
    using w' quota_ok_same_core registry_ok_same_core by (auto simp: chan_ok_def)
  with w' same_core_queued [OF w'(5)] show ?thesis by auto
qed

lemma delete_messages_ok:
  assumes "chan_ok ext w" "distinct ms" "\<And>m. m \<in> set ms \<Longrightarrow> get_message w m \<noteq> None \<and> m \<notin># queued w"
  shows "\<exists>w'. delete_messages ms w = Some w' \<and> chan_ok ext w' \<and> keeps_states w w' \<and> queued w' = queued w \<and>
    (\<forall>n. get_message w' n = (if n \<in> set ms then None else get_message w n))"
  using assms
proof (induction ms arbitrary: w)
  case (Cons m ms)
  obtain w1 where w1: "delete_message m w = Some w1" "chan_ok ext w1" "keeps_states w w1" "queued w1 = queued w"
      "\<And>n. get_message w1 n = (if n = m then None else get_message w n)"
    using chan_ok_delete_message [OF Cons.prems(1), of m] Cons.prems(3) [of m] by auto
  have "\<exists>w'. delete_messages ms w1 = Some w' \<and> chan_ok ext w' \<and> keeps_states w1 w' \<and> queued w' = queued w1 \<and>
      (\<forall>n. get_message w' n = (if n \<in> set ms then None else get_message w1 n))"
    by (rule Cons.IH [OF w1(2)]) (use Cons.prems w1(4,5) in auto)
  then obtain w' where "delete_messages ms w1 = Some w'" "chan_ok ext w'" "keeps_states w1 w'" "queued w' = queued w1"
      "\<And>n. get_message w' n = (if n \<in> set ms then None else get_message w1 n)" by blast
  with w1 show ?case by (auto intro: keeps_states_trans)
qed simp

section \<open>Draining a queue\<close>

definition with_queue :: "channel_state \<Rightarrow> nat \<Rightarrow> channel_queue \<Rightarrow> channel_state" where
  "with_queue st side q = st\<lparr>cs_queues := (cs_queues st)(side := q)\<rparr>"

lemma with_queue_simps [simp]:
  "cs_queues (with_queue st side q) = (cs_queues st)(side := q)"
  "cs_roots (with_queue st side q) = cs_roots st" "cs_objects (with_queue st side q) = cs_objects st"
  "cs_claims (with_queue st side q) = cs_claims st" "cs_operations (with_queue st side q) = cs_operations st"
  "queue_list (with_queue st side q) i = (if i = side then bq_contents (cq_fifo q) else queue_list st i)"
  "with_queue (with_queue st side q) side q' = with_queue st side q'"
  "with_queue st side (cs_queues st side) = st"
  by (simp_all add: with_queue_def queue_list_def)

lemma alist_update_update: "AList.update k v (AList.update k v' al) = AList.update k v al"
  by (induction al) auto

lemma put_state_put_state [simp]: "put_state s x (put_state s y w) = put_state s x w"
  by (simp add: put_state_def alist_update_update)

lemma put_state_globals: "put_state s x (w\<lparr>kw_globals := g\<rparr>) = (put_state s x w)\<lparr>kw_globals := g\<rparr>"
  by (simp add: put_state_def)

text \<open>
  One step of the loops that empty a queue: the state with the shorter queue in the heap, and the
  quota of the head given back.
\<close>

lemma quota_state_ok: "quota_ok w \<Longrightarrow> get_state w s = Some st \<Longrightarrow> state_ok w st"
  by (simp add: quota_ok_def)

lemma quota_queued_live: "quota_ok w \<Longrightarrow> m \<in># queued w \<Longrightarrow> \<exists>msg. get_message w m = Some msg"
  by (simp add: quota_ok_def)

lemma pop_with_queue:
  assumes "quota_ok (put_state s (with_queue st side q) w)" "keys_ok (put_state s (with_queue st side q) w)"
    "side \<le> 1" "\<not> bq_claimed (cq_fifo q)" "bq_contents (cq_fifo q) = m # ms" "get_message w m = Some msg"
  defines "q' \<equiv> queue_pop msg (q\<lparr>cq_fifo := (cq_fifo q)\<lparr>bq_claimed := True\<rparr>\<rparr>)"
  shows "quota_ok (put_state s (with_queue st side q') (release_message msg w))"
    "queued (put_state s (with_queue st side q') (release_message msg w)) + {#m#} =
      queued (put_state s (with_queue st side q) w)"
    "bq_contents (cq_fifo q') = ms" "\<not> bq_claimed (cq_fifo q')"
proof -
  let ?W = "put_state s (with_queue st side q) w" and ?st = "with_queue st side q"
  have sok: "state_ok ?W ?st" by (rule quota_state_ok [OF assms(1), of s]) simp
  have mok: "messages_ok ?W" using assms(1) by (simp add: quota_ok_def)
  have ps: "pop_state False side msg ?st = with_queue st side q'"
    by (simp add: pop_state_def on_queue_def with_queue_def q'_def)
  have cl: "claims_ok (pop_state False side msg ?st)"
    by (rule claims_ok_pop [OF sok assms(3)]) (use assms(4,5) in simp_all)
  have get: "get_state ?W s = Some ?st" "queue_list ?st side = m # ms" "get_message ?W m = Some msg"
    using assms(5,6) by simp_all
  note pop = quota_ok_pop [OF assms(1,2) get(1) assms(3) get(2,3) pop_state_simps(1) refl cl pop_state_simps(2-5)]
  have rel: "release_message msg (put_state s x ?W) = put_state s x (release_message msg w)" for x
    by (simp add: release_message_def put_state_globals)
  show "quota_ok (put_state s (with_queue st side q') (release_message msg w))"
    using pop(1) unfolding ps rel .
  show "queued (put_state s (with_queue st side q') (release_message msg w)) + {#m#} = queued ?W"
    using pop(2) unfolding ps rel .
  let ?q = "q\<lparr>cq_fifo := (cq_fifo q)\<lparr>bq_claimed := True\<rparr>\<rparr>"
  have "queue_ok ?W ?st q" using state_ok_get_queue [OF sok assms(3)] by simp
  then have "queue_ok ?W ?st ?q" "bq_contents (cq_fifo ?q) = m # ms"
    using queue_ok_claim [of ?W ?st q True] assms(5) by simp_all
  with queue_ok_pop [of ?W ?st ?q m ms msg] mok assms(6)
  show "bq_contents (cq_fifo q') = ms" "\<not> bq_claimed (cq_fifo q')" by (simp_all add: q'_def)
qed

lemma drain_queue_ok:
  assumes "quota_ok (put_state s (with_queue st side q) w)" "keys_ok (put_state s (with_queue st side q) w)"
    "side \<le> 1" "\<not> bq_claimed (cq_fifo q)"
  shows "\<exists>q' g. drain_queue q w = Some (q', bq_contents (cq_fifo q), w\<lparr>kw_globals := g\<rparr>) \<and>
    quota_ok (put_state s (with_queue st side q') (w\<lparr>kw_globals := g\<rparr>)) \<and>
    bq_contents (cq_fifo q') = [] \<and> \<not> bq_claimed (cq_fifo q') \<and>
    queued (put_state s (with_queue st side q') (w\<lparr>kw_globals := g\<rparr>)) + mset (bq_contents (cq_fifo q)) =
      queued (put_state s (with_queue st side q) w)"
  using assms
proof (induction "bq_contents (cq_fifo q)" arbitrary: q w)
  case Nil
  have "state_ok (put_state s (with_queue st side q) w) (with_queue st side q)" by (rule quota_state_ok [OF Nil(2), of s]) simp
  from queue_facts(2) [OF this Nil(4)] Nil(1) have "bq_empty (cq_fifo q)" by simp
  then have "drain_queue q w = Some (q, [], w)" by (subst drain_queue.simps) simp
  with Nil show ?case by (intro exI [of _ q] exI [of _ "kw_globals w"]) simp
next
  case (Cons m ms)
  let ?W = "put_state s (with_queue st side q) w" and ?st = "with_queue st side q"
  have sok: "state_ok ?W ?st" by (rule quota_state_ok [OF Cons.prems(1), of s]) simp
  have c: "bq_contents (cq_fifo q) = m # ms" using Cons(2) by simp
  have "m \<in># st_messages ?st" using c Cons.prems(3) le_one_cases [of side] by (auto simp: st_messages_def)
  then have "m \<in># queued ?W" using st_messages_queued [OF Cons.prems(2), of s ?st m] by simp
  then obtain msg where msg: "get_message w m = Some msg" using quota_queued_live [OF Cons.prems(1)] by auto
  let ?q = "queue_pop msg (q\<lparr>cq_fifo := (cq_fifo q)\<lparr>bq_claimed := True\<rparr>\<rparr>)"
  note pop = pop_with_queue [OF Cons.prems c msg]
  have k: "keys_ok (put_state s (with_queue st side ?q) (release_message msg w))"
    using Cons.prems(2) keys_ok_put_state [OF Cons.prems(2), of s ?st "with_queue st side ?q"]
    by (simp add: release_message_def put_state_globals keys_ok_get)
  obtain q' g where ih: "drain_queue ?q (release_message msg w) = Some (q', bq_contents (cq_fifo ?q), release_message msg w\<lparr>kw_globals := g\<rparr>)"
      "quota_ok (put_state s (with_queue st side q') (release_message msg w\<lparr>kw_globals := g\<rparr>))"
      "bq_contents (cq_fifo q') = []" "\<not> bq_claimed (cq_fifo q')"
      "queued (put_state s (with_queue st side q') (release_message msg w\<lparr>kw_globals := g\<rparr>)) + mset (bq_contents (cq_fifo ?q)) =
        queued (put_state s (with_queue st side ?q) (release_message msg w))"
    using Cons.hyps(1) [OF pop(3) [symmetric] pop(1) k Cons.prems(3) pop(4)] by blast
  have g: "release_message msg w\<lparr>kw_globals := g\<rparr> = w\<lparr>kw_globals := g\<rparr>" by (simp add: release_message_def)
  have "\<not> bq_empty (cq_fifo q)" "bq_front (cq_fifo q) = m"
    using queue_facts(2,4) [OF sok Cons.prems(3)] c by simp_all
  then have "drain_queue q w = Some (q', m # ms, w\<lparr>kw_globals := g\<rparr>)"
    using Cons.prems(4) msg ih(1) pop(3) g
    by (subst drain_queue.simps) (simp add: bq_claim_front_def bq_empty_def bq_front_def)
  then show ?case using ih pop(2,3) c unfolding g by (intro exI [of _ q'] exI [of _ g]) simp
qed

section \<open>Dropping the messages of an orphan\<close>

lemma claims_zero:
  assumes "claims_ok st" "cs_claims st = 0"
  shows "\<not> side_claimed st 0" "\<not> side_claimed st 1"
  using assms by (cases "side_claimed st 0"; cases "side_claimed st 1"; simp add: claims_ok_def)+

lemma count_le_distinct:
  assumes "\<And>m. count (M + mset ms) m \<le> 1"
  shows "distinct ms" "\<And>m. m \<in> set ms \<Longrightarrow> m \<notin># M"
proof -
  have c: "count M m + count (mset ms) m \<le> 1" for m using assms [of m] by simp
  have "count (mset ms) m = (if m \<in> set ms then 1 else 0)" for m
  proof (cases "m \<in> set ms")
    case True
    then have "0 < count (mset ms) m" by simp
    with c [of m] have "count (mset ms) m = 1" by linarith
    with True show ?thesis by simp
  next
    case False
    then have "m \<notin># mset ms" by simp
    with False show ?thesis by (simp only: not_in_iff if_False)
  qed
  then show "distinct ms" by (simp add: distinct_count_atmost_1)
  show "m \<notin># M" if "m \<in> set ms" for m
  proof -
    have "0 < count (mset ms) m" using that by simp
    with c [of m] have "count M m = 0" by linarith
    then show ?thesis by (simp add: count_eq_zero_iff)
  qed
qed

text \<open>Draining both queues of a state that has no claim.\<close>

lemma drain_both_ok:
  assumes ok: "chan_ok ext w" and st: "get_state w s = Some st" and cl: "cs_claims st = 0"
  shows "\<exists>q0 q1 g0 g1. drain_queue (cs_queues st 0) w = Some (q0, queue_list st 0, w\<lparr>kw_globals := g0\<rparr>) \<and>
    drain_queue (cs_queues st 1) (w\<lparr>kw_globals := g0\<rparr>) = Some (q1, queue_list st 1, w\<lparr>kw_globals := g1\<rparr>) \<and>
    bq_contents (cq_fifo q0) = [] \<and> bq_contents (cq_fifo q1) = [] \<and>
    chan_ok ext (put_state s (with_queue (with_queue st 0 q0) 1 q1) (w\<lparr>kw_globals := g1\<rparr>)) \<and>
    queued (put_state s (with_queue (with_queue st 0 q0) 1 q1) (w\<lparr>kw_globals := g1\<rparr>)) +
      mset (queue_list st 0 @ queue_list st 1) = queued w"
proof -
  have quota: "quota_ok w" "keys_ok w" using ok by (simp_all add: chan_ok_def heap_ok_def)
  have sok: "state_ok w st" by (rule chan_ok_state [OF ok st])
  then have nc: "\<not> side_claimed st 0" "\<not> side_claimed st 1" using claims_zero cl by (simp_all add: state_ok_def)
  obtain q0 g0 where d0: "drain_queue (cs_queues st 0) w = Some (q0, queue_list st 0, w\<lparr>kw_globals := g0\<rparr>)"
      "quota_ok (put_state s (with_queue st 0 q0) (w\<lparr>kw_globals := g0\<rparr>))" "bq_contents (cq_fifo q0) = []"
      "queued (put_state s (with_queue st 0 q0) (w\<lparr>kw_globals := g0\<rparr>)) + mset (queue_list st 0) = queued w"
    using drain_queue_ok [of s st 0 "cs_queues st 0" w] quota st nc by (auto simp: queue_list_def)
  let ?st = "with_queue st 0 q0"
  have "keys_ok (put_state s ?st w)" by (rule keys_ok_put_state [OF quota(2) st])
  then have k: "keys_ok (put_state s ?st (w\<lparr>kw_globals := g0\<rparr>))" by (simp add: put_state_globals keys_ok_get)
  have q1: "with_queue ?st 1 (cs_queues st 1) = ?st"
    using with_queue_simps(8) [of ?st 1] by (simp del: with_queue_simps(8))
  have "\<exists>q1 g. drain_queue (cs_queues st 1) (w\<lparr>kw_globals := g0\<rparr>) =
        Some (q1, bq_contents (cq_fifo (cs_queues st 1)), w\<lparr>kw_globals := g0\<rparr>\<lparr>kw_globals := g\<rparr>) \<and>
      quota_ok (put_state s (with_queue ?st 1 q1) (w\<lparr>kw_globals := g0\<rparr>\<lparr>kw_globals := g\<rparr>)) \<and>
      bq_contents (cq_fifo q1) = [] \<and> \<not> bq_claimed (cq_fifo q1) \<and>
      queued (put_state s (with_queue ?st 1 q1) (w\<lparr>kw_globals := g0\<rparr>\<lparr>kw_globals := g\<rparr>)) +
        mset (bq_contents (cq_fifo (cs_queues st 1))) =
      queued (put_state s (with_queue ?st 1 (cs_queues st 1)) (w\<lparr>kw_globals := g0\<rparr>))"
    by (rule drain_queue_ok) (use d0(2) k nc(2) q1 in simp_all)
  then obtain q1 g1 where d1: "drain_queue (cs_queues st 1) (w\<lparr>kw_globals := g0\<rparr>) = Some (q1, queue_list st 1, w\<lparr>kw_globals := g1\<rparr>)"
      "quota_ok (put_state s (with_queue ?st 1 q1) (w\<lparr>kw_globals := g1\<rparr>))" "bq_contents (cq_fifo q1) = []"
      "queued (put_state s (with_queue ?st 1 q1) (w\<lparr>kw_globals := g1\<rparr>)) + mset (queue_list st 1) =
        queued (put_state s ?st (w\<lparr>kw_globals := g0\<rparr>))"
    unfolding q1 by (auto simp: queue_list_def)
  have "chan_ok ext (put_state s (with_queue ?st 1 q1) (w\<lparr>kw_globals := g1\<rparr>))"
    using chan_ok_put_state [OF ok st, of "with_queue ?st 1 q1" g1] d1(2) by (simp add: put_state_globals)
  moreover have "queued (put_state s (with_queue ?st 1 q1) (w\<lparr>kw_globals := g1\<rparr>)) + mset (queue_list st 0 @ queue_list st 1) = queued w"
    unfolding d0(4) [symmetric] d1(4) [symmetric] by (simp add: ac_simps)
  ultimately show ?thesis using d0 d1 by blast
qed

text \<open>What stays of a state that is no longer reachable: its roots, operations and claims.\<close>

definition reap_same :: "channel_state \<Rightarrow> channel_state \<Rightarrow> bool" where
  "reap_same st st' \<longleftrightarrow> cs_roots st' = cs_roots st \<and> cs_operations st' = cs_operations st \<and> cs_claims st' = cs_claims st"

lemma reap_same_can_reap: "reap_same st st' \<Longrightarrow> can_reap st' = can_reap st"
  by (simp add: reap_same_def can_reap_def has_root_def)

lemma reap_same_trans: "reap_same st st' \<Longrightarrow> reap_same st' st'' \<Longrightarrow> reap_same st st''"
  by (simp add: reap_same_def)

lemma keeps_states_state:
  assumes "keeps_states w w'" "get_state w s = Some st"
  shows "\<exists>st'. get_state w' s = Some st' \<and> cs_core st' = cs_core st \<and> reap_same st st'"
proof -
  obtain st' where st': "get_state w' s = Some st'" "cs_core st' = cs_core st"
    using keeps_states_core [OF assms(1), of s] assms(2) by (auto simp: map_option_eq_Some)
  moreover have "cs_roots st' = cs_roots st"
    using assms st'(1) by (auto simp: keeps_states_def same_roots_def dest: spec [of _ s])
  moreover have "cs_operations st' = cs_operations st" "cs_claims st' = cs_claims st"
    using arg_cong [OF st'(2), of cs_operations] arg_cong [OF st'(2), of cs_claims] by simp_all
  ultimately show ?thesis by (auto simp: reap_same_def)
qed

lemma keeps_states_None: "keeps_states w w' \<Longrightarrow> get_state w' s = None \<longleftrightarrow> get_state w s = None"
  using keeps_states_core [of w w' s] by (cases "get_state w s"; cases "get_state w' s") simp_all

lemma queue_list_core: "cs_core st' = cs_core st \<Longrightarrow> queue_list st' i = queue_list st i"
  by (metis core_simps(8))

text \<open>Two states have no message in common.\<close>

lemma messages_disjoint:
  assumes "chan_ok ext w" "get_state w s = Some st" "get_state w t = Some st'" "s \<noteq> t" "m \<in># st_messages st"
  shows "m \<notin># st_messages st'"
proof
  assume m: "m \<in># st_messages st'"
  have k: "keys_ok w" "\<And>m. count (queued w) m \<le> 1" using assms(1) by (simp_all add: chan_ok_def heap_ok_def quota_ok_def)
  obtain R where R: "queued w = st_messages st + R" "\<And>x. queued (put_state s x w) = st_messages x + R"
    using queued_split [OF k(1) assms(2)] by metis
  define x where "x = st\<lparr>cs_queues := \<lambda>_. queue_new None 0\<rparr>"
  have x: "st_messages x = {#}" by (simp add: x_def st_messages_def queue_list_def queue_new_def bq_new_def bq_contents_def)
  have "keys_ok (put_state s x w)" by (rule keys_ok_put_state [OF k(1) assms(2)])
  moreover have "get_state (put_state s x w) t = Some st'" using assms(3,4) by simp
  ultimately have "m \<in># queued (put_state s x w)" using m by (rule st_messages_queued)
  then have "m \<in># R" using R(2) [of x] x by simp
  with assms(5) have "1 \<le> count (st_messages st) m" "1 \<le> count R m" by simp_all
  with k(2) [of m] R(1) show False by simp
qed

text \<open>
  \<open>discards mem D w w'\<close>: between the two worlds the channels in \<open>D\<close> lost their messages if there
  was memory for it, and the other channels kept theirs.
\<close>

definition discards :: "(alloc_site \<Rightarrow> bool) \<Rightarrow> sptr set \<Rightarrow> kworld \<Rightarrow> kworld \<Rightarrow> bool" where
  "discards mem D w w' \<longleftrightarrow>
     kw_registry w' = kw_registry w \<and> kinds_sub w w' \<and> (\<forall>t. get_state w' t = None \<longleftrightarrow> get_state w t = None) \<and>
     (\<forall>t st st'. get_state w t = Some st \<longrightarrow> get_state w' t = Some st' \<longrightarrow>
        reap_same st st' \<and>
        (t \<notin> D \<longrightarrow> cs_core st' = cs_core st \<and> (\<forall>m \<in># st_messages st. get_message w' m = get_message w m)) \<and>
        (t \<in> D \<longrightarrow> mem A_discarded \<longrightarrow> queue_list st' 0 = [] \<and> queue_list st' 1 = []))"

lemma discards_state:
  assumes "discards mem D w w'" "get_state w t = Some st"
  obtains st' where "get_state w' t = Some st'" "reap_same st st'"
    "t \<notin> D \<Longrightarrow> cs_core st' = cs_core st" "\<And>m. t \<notin> D \<Longrightarrow> m \<in># st_messages st \<Longrightarrow> get_message w' m = get_message w m"
    "t \<in> D \<Longrightarrow> mem A_discarded \<Longrightarrow> queue_list st' 0 = [] \<and> queue_list st' 1 = []"
proof -
  have "get_state w' t \<noteq> None" using assms by (simp add: discards_def)
  then obtain st' where "get_state w' t = Some st'" by blast
  with assms that show ?thesis unfolding discards_def by blast
qed

lemma discards_refl: "discards mem {} w w"
  by (simp add: discards_def reap_same_def)

lemma discards_trans:
  assumes "discards mem D w w1" "discards mem E w1 w2"
  shows "discards mem (D \<union> E) w w2"
proof -
  have "reap_same x x' \<and>
      (t \<notin> D \<union> E \<longrightarrow> cs_core x' = cs_core x \<and> (\<forall>m \<in># st_messages x. get_message w2 m = get_message w m)) \<and>
      (t \<in> D \<union> E \<longrightarrow> mem A_discarded \<longrightarrow> queue_list x' 0 = [] \<and> queue_list x' 1 = [])"
    if x: "get_state w t = Some x" "get_state w2 t = Some x'" for t x x'
  proof (rule discards_state [OF assms(1) x(1)])
    fix y
    assume y: "get_state w1 t = Some y" "reap_same x y" "t \<notin> D \<Longrightarrow> cs_core y = cs_core x"
      "\<And>m. t \<notin> D \<Longrightarrow> m \<in># st_messages x \<Longrightarrow> get_message w1 m = get_message w m"
      "t \<in> D \<Longrightarrow> mem A_discarded \<Longrightarrow> queue_list y 0 = [] \<and> queue_list y 1 = []"
    show ?thesis
    proof (rule discards_state [OF assms(2) y(1)])
      fix z
      assume z: "get_state w2 t = Some z" "reap_same y z" "t \<notin> E \<Longrightarrow> cs_core z = cs_core y"
        "\<And>m. t \<notin> E \<Longrightarrow> m \<in># st_messages y \<Longrightarrow> get_message w2 m = get_message w1 m"
        "t \<in> E \<Longrightarrow> mem A_discarded \<Longrightarrow> queue_list z 0 = [] \<and> queue_list z 1 = []"
      have "z = x'" using x(2) z(1) by simp
      moreover have "reap_same x z" by (rule reap_same_trans [OF y(2) z(2)])
      moreover have "st_messages y = st_messages x" if "t \<notin> D" using y(3) [OF that] by (metis core_simps(9))
      moreover have "queue_list z i = queue_list y i" if "t \<notin> E" for i using queue_list_core [OF z(3) [OF that]] .
      ultimately show ?thesis using y(3-5) z(3-5) by (cases "t \<in> E") auto
    qed
  qed
  moreover have "kinds_sub w w2" using assms kinds_sub_trans unfolding discards_def by blast
  ultimately show ?thesis using assms unfolding discards_def by simp
qed

lemma discard_orphan_messages_ok:
  assumes ok: "chan_ok ext w" and st: "get_state w s = Some st" and cl: "cs_claims st = 0"
  shows "\<exists>w'. discard_orphan_messages mem s w = Some w' \<and> chan_ok ext w' \<and> discards mem {s} w w'"
proof (cases "mem A_discarded")
  case False
  have "cs_max_messages st \<noteq> 0" using chan_ok_state [OF ok st] by (simp add: state_ok_def)
  with False st ok show ?thesis by (simp add: discard_orphan_messages_def discards_def reap_same_def)
next
  case True
  obtain q0 q1 g0 g1 where d: "drain_queue (cs_queues st 0) w = Some (q0, queue_list st 0, w\<lparr>kw_globals := g0\<rparr>)"
      "drain_queue (cs_queues st 1) (w\<lparr>kw_globals := g0\<rparr>) = Some (q1, queue_list st 1, w\<lparr>kw_globals := g1\<rparr>)"
      "bq_contents (cq_fifo q0) = []" "bq_contents (cq_fifo q1) = []"
      "chan_ok ext (put_state s (with_queue (with_queue st 0 q0) 1 q1) (w\<lparr>kw_globals := g1\<rparr>))"
      "queued (put_state s (with_queue (with_queue st 0 q0) 1 q1) (w\<lparr>kw_globals := g1\<rparr>)) +
        mset (queue_list st 0 @ queue_list st 1) = queued w"
    using drain_both_ok [OF assms] by blast
  let ?st = "with_queue (with_queue st 0 q0) 1 q1" and ?ms = "queue_list st 0 @ queue_list st 1"
  let ?w = "notify_channel_waiters (put_state s ?st (w\<lparr>kw_globals := g1\<rparr>))"
  have w: "chan_ok ext ?w" using d(5) by simp
  have q: "queued ?w + mset ?ms = queued w" using d(6) by (simp add: notify_channel_waiters_def)
  have "count (queued ?w + mset ?ms) m \<le> 1" for m using ok unfolding q by (simp add: chan_ok_def quota_ok_def)
  note dist = count_le_distinct [OF this]
  have live: "get_message ?w m \<noteq> None" if "m \<in> set ?ms" for m
  proof -
    have "m \<in># queued w" using that arg_cong [OF q, of "\<lambda>M. m \<in># M"] by simp
    then show ?thesis using ok quota_queued_live [of w m] by (auto simp: chan_ok_def notify_channel_waiters_def)
  qed
  obtain w' where w': "delete_messages ?ms ?w = Some w'" "chan_ok ext w'" "keeps_states ?w w'"
      "\<And>n. get_message w' n = (if n \<in> set ?ms then None else get_message ?w n)"
    using delete_messages_ok [OF w dist(1)] live dist(2) by blast
  have dom: "discard_orphan_messages mem s w = Some w'"
    using True st d(1,2) w'(1) by (simp add: discard_orphan_messages_def with_queue_def fun_upd_twist)
  have reg: "kw_registry w' = kw_registry w" "kinds_sub w w'"
    using w'(3) by (simp_all add: keeps_states_def notify_channel_waiters_def kinds_sub_def)
  have msgs: "get_message w' m = get_message w m" if "m \<notin># st_messages st" for m
    using that w'(4) [of m] by (simp add: st_messages_def notify_channel_waiters_def)
  have get: "get_state ?w t = (if t = s then Some ?st else get_state w t)" for t
    by (simp add: notify_channel_waiters_def)
  have "get_state w' t = None \<longleftrightarrow> get_state w t = None" for t
    using keeps_states_None [OF w'(3), of t] get [of t] st by auto
  moreover have "reap_same x x' \<and>
      (t \<noteq> s \<longrightarrow> cs_core x' = cs_core x \<and> (\<forall>m \<in># st_messages x. get_message w' m = get_message w m)) \<and>
      (t = s \<longrightarrow> queue_list x' 0 = [] \<and> queue_list x' 1 = [])"
    if "get_state w t = Some x" "get_state w' t = Some x'" for t x x'
  proof (cases "t = s")
    case True
    with get [of s] keeps_states_state [OF w'(3), of s ?st] that st have "reap_same ?st x'" "cs_core x' = cs_core ?st" "x = st" by auto
    with True d(3,4) queue_list_core [of x' ?st] show ?thesis by (simp add: reap_same_def)
  next
    case False
    then have "m \<notin># st_messages st" if "m \<in># st_messages x" for m
      using messages_disjoint [OF ok \<open>get_state w t = Some x\<close> st _ that] by simp
    then have "\<forall>m \<in># st_messages x. get_message w' m = get_message w m" using msgs by blast
    with False get [of t] keeps_states_state [OF w'(3), of t x] that show ?thesis by auto
  qed
  ultimately show ?thesis using w'(2) dom reg unfolding discards_def by blast
qed

section \<open>The discarding pass\<close>

abbreviation orphans :: "(sptr \<times> bool) list \<Rightarrow> sptr set" where
  "orphans sms \<equiv> {s. (s, False) \<in> set sms}"

lemma discard_orphans_ok:
  assumes "chan_ok ext w" "\<And>s mk. (s, mk) \<in> set sms \<Longrightarrow> get_state w s \<noteq> None"
    "\<And>s st. (s, False) \<in> set sms \<Longrightarrow> get_state w s = Some st \<Longrightarrow> can_reap st"
  shows "\<exists>w'. discard_orphans mem sms w = Some w' \<and> chan_ok ext w' \<and> discards mem (orphans sms) w w'"
  using assms
proof (induction sms arbitrary: w)
  case Nil
  then show ?case by (simp add: discards_refl)
next
  case (Cons p sms)
  obtain s mk where p: "p = (s, mk)" by fastforce
  show ?case
  proof (cases mk)
    case True
    have "\<exists>w'. discard_orphans mem sms w = Some w' \<and> chan_ok ext w' \<and> discards mem (orphans sms) w w'"
      by (rule Cons.IH [OF Cons.prems(1)]) (use Cons.prems(2,3) in auto)
    moreover have "orphans (p # sms) = orphans sms" using True by (auto simp: p)
    ultimately show ?thesis using True by (simp add: p)
  next
    case False
    with Cons.prems(2) [of s mk] obtain st where st: "get_state w s = Some st" by (auto simp: p)
    have cr: "can_reap st" using Cons.prems(3) [of s st] False st by (simp add: p)
    then have "cs_claims st = 0" by (simp add: can_reap_def)
    then obtain w1 where w1: "discard_orphan_messages mem s w = Some w1" "chan_ok ext w1" "discards mem {s} w w1"
      using discard_orphan_messages_ok [OF Cons.prems(1) st, of mem] by blast
    have "\<exists>w'. discard_orphans mem sms w1 = Some w' \<and> chan_ok ext w' \<and> discards mem (orphans sms) w1 w'"
    proof (rule Cons.IH [OF w1(2)])
      show "get_state w1 t \<noteq> None" if "(t, k) \<in> set sms" for t k
        using that Cons.prems(2) [of t k] w1(3) by (simp add: discards_def)
      show "can_reap x'" if "(t, False) \<in> set sms" "get_state w1 t = Some x'" for t x'
      proof -
        have "get_state w t \<noteq> None" using that(1) Cons.prems(2) [of t False] by simp
        then obtain x where x: "get_state w t = Some x" by blast
        have "can_reap x" using Cons.prems(3) [of t x] that(1) x by simp
        moreover have "reap_same x x'" using w1(3) x that(2) unfolding discards_def by blast
        ultimately show ?thesis using reap_same_can_reap by blast
      qed
    qed
    then obtain w' where w': "discard_orphans mem sms w1 = Some w'" "chan_ok ext w'" "discards mem (orphans sms) w1 w'" by blast
    have "{s} \<union> orphans sms = orphans (p # sms)" using False by (auto simp: p)
    then have "discards mem (orphans (p # sms)) w w'" using discards_trans [OF w1(3) w'(3)] by simp
    then show ?thesis using False st cr w1(1) w'(1,2) by (simp add: p)
  qed
qed

end
