(* ===== verification/Channel_Gc_Correct.thy ===== *)
theory Channel_Gc_Correct
  imports Channel_Gc_Sweep
begin

text \<open>
  Correctness of \<^verbatim>\<open>collect_orphaned_channels\<close>: it uses no freed memory, keeps the invariants and
  every channel that is still needed, and leaves of the others only those that an endpoint
  object still refers to.
\<close>

section \<open>Destroying a state\<close>

lemma map_core_update:
  "map (\<lambda>(k, v). (k, f v)) (AList.update k v al) = AList.update k (f v) (map (\<lambda>(k, v). (k, f v)) al)"
  by (induction al) auto

lemma same_core_put_both: "same_core w w' \<Longrightarrow> same_core (put_state s x w) (put_state s x w')"
  by (simp add: same_core_def) (simp add: put_state_def map_core_update)

lemma put_state_messages: "put_state s x (w\<lparr>kw_messages := ms\<rparr>) = (put_state s x w)\<lparr>kw_messages := ms\<rparr>"
  by (simp add: put_state_def)

lemma keeps_states_release [simp]: "keeps_states (release_message msg w) w' = keeps_states w w'"
  by (simp add: keeps_states_def release_message_def kinds_sub_def same_roots_def)

lemma release_simps [simp]:
  "get_message (release_message msg w) m = get_message w m" "get_state (release_message msg w) s = get_state w s"
  "kw_messages (release_message msg w) = kw_messages w"
  "heap_ok (release_message msg w) = heap_ok w" "refs_ok ext (release_message msg w) = refs_ok ext w"
  by (simp_all add: release_message_def)

lemma destroy_queue_ok:
  assumes "heap_ok w" "refs_ok ext w" "get_state w s \<noteq> None" "quota_ok (put_state s (with_queue st side q) w)"
    "side \<le> 1" "\<not> bq_claimed (cq_fifo q)"
  shows "\<exists>w' q'. destroy_queue (cq_fifo q) w = Some w' \<and> heap_ok w' \<and> refs_ok ext w' \<and> keeps_states w w' \<and>
    quota_ok (put_state s (with_queue st side q') w') \<and> bq_contents (cq_fifo q') = [] \<and>
    (\<forall>m. m \<notin> set (bq_contents (cq_fifo q)) \<longrightarrow> get_message w' m = get_message w m) \<and>
    (bq_contents (cq_fifo q) = [] \<longrightarrow> w' = w)"
  using assms
proof (induction "bq_contents (cq_fifo q)" arbitrary: q w)
  case Nil
  have "state_ok (put_state s (with_queue st side q) w) (with_queue st side q)"
    by (rule quota_state_ok [OF Nil(5), of s]) simp
  from queue_facts(2) [OF this Nil(6)] Nil(1) have "bq_empty (cq_fifo q)" by simp
  then have "destroy_queue (cq_fifo q) w = Some w" by (subst destroy_queue.simps) simp
  with Nil show ?case by (intro exI [of _ w] exI [of _ q]) simp
next
  case (Cons m ms)
  let ?W = "put_state s (with_queue st side q) w" and ?st = "with_queue st side q"
  obtain st0 where st0: "get_state w s = Some st0" using Cons.prems(3) by blast
  have keys: "keys_ok (put_state s x w)" for x
    using keys_ok_put_state [of w s st0 x] st0 Cons.prems(1) by (simp add: heap_ok_def)
  have sok: "state_ok ?W ?st" by (rule quota_state_ok [OF Cons.prems(4), of s]) simp
  have c: "bq_contents (cq_fifo q) = m # ms" using Cons(2) by simp
  have "m \<in># st_messages ?st" using c Cons.prems(5) le_one_cases [of side] by (auto simp: st_messages_def)
  then have mq: "m \<in># queued ?W" using st_messages_queued [of ?W s ?st m] keys by simp
  then obtain msg where msg: "get_message w m = Some msg" using quota_queued_live [OF Cons.prems(4)] by auto
  then have m0: "m \<noteq> 0" using Cons.prems(1) by (metis heap_ok_nonzero(2) option.distinct(1))
  let ?q = "queue_pop msg (q\<lparr>cq_fifo := (cq_fifo q)\<lparr>bq_claimed := True\<rparr>\<rparr>)"
  let ?wa = "release_message msg w" and ?x = "with_queue st side ?q"
  note pop = pop_with_queue [OF Cons.prems(4) keys Cons.prems(5,6) c msg]
  obtain w1 where w1: "delete_message m ?wa = Some w1" "heap_ok w1" "refs_ok ext w1" "keeps_states w w1"
      "same_core (?wa\<lparr>kw_messages := AList.delete m (kw_messages w)\<rparr>) w1"
      "\<And>n. get_message w1 n = (if n = m then None else get_message w n)"
    using delete_message_frames [of ?wa ext m msg] Cons.prems(1,2) msg by auto
  have "count (queued (put_state s ?x ?wa)) m + 1 \<le> 1"
    using arg_cong [OF pop(2), of "\<lambda>M. count M m"] Cons.prems(4) by (simp add: quota_ok_def)
  then have "m \<notin># queued (put_state s ?x ?wa)" by (simp add: not_in_iff)
  moreover have "keys_ok (put_state s ?x ?wa)"
    using keys [of ?x] by (simp add: release_message_def put_state_globals keys_ok_get)
  ultimately have "quota_ok (put_state s ?x (?wa\<lparr>kw_messages := AList.delete m (kw_messages w)\<rparr>))"
    using quota_ok_delete_message [OF pop(1)] by (simp add: put_state_messages)
  then have quota1: "quota_ok (put_state s ?x w1)"
    using quota_ok_same_core [OF _ same_core_put_both [OF w1(5)]] by blast
  have "get_state w1 s \<noteq> None" using keeps_states_None [OF w1(4), of s] st0 by simp
  then have "\<exists>w' q'. destroy_queue (cq_fifo ?q) w1 = Some w' \<and> heap_ok w' \<and> refs_ok ext w' \<and> keeps_states w1 w' \<and>
      quota_ok (put_state s (with_queue st side q') w') \<and> bq_contents (cq_fifo q') = [] \<and>
      (\<forall>m. m \<notin> set (bq_contents (cq_fifo ?q)) \<longrightarrow> get_message w' m = get_message w1 m) \<and>
      (bq_contents (cq_fifo ?q) = [] \<longrightarrow> w' = w1)"
    using Cons.hyps(1) [OF pop(3) [symmetric] w1(2,3) _ quota1 Cons.prems(5) pop(4)] by blast
  then obtain w' q' where ih: "destroy_queue (cq_fifo ?q) w1 = Some w'" "heap_ok w'" "refs_ok ext w'" "keeps_states w1 w'"
      "quota_ok (put_state s (with_queue st side q') w')" "bq_contents (cq_fifo q') = []"
      "\<forall>m. m \<notin> set ms \<longrightarrow> get_message w' m = get_message w1 m"
    using pop(3) by auto
  have "\<not> bq_empty (cq_fifo q)" "bq_front (cq_fifo q) = m"
    using queue_facts(2,4) [OF sok Cons.prems(5)] c by simp_all
  then have "destroy_queue (cq_fifo q) w = Some w'"
    using Cons.prems(6) msg m0 w1(1) ih(1)
    by (subst destroy_queue.simps) (simp add: bq_claim_front_def bq_empty_def bq_front_def queue_pop_def Let_def)
  moreover have "keeps_states w w'" using w1(4) ih(4) by (rule keeps_states_trans)
  moreover have "\<forall>n. n \<notin> set (bq_contents (cq_fifo q)) \<longrightarrow> get_message w' n = get_message w n"
    using ih(7) w1(6) c by simp
  ultimately show ?case using ih c by auto
qed

lemma endpoint_count_zero:
  assumes "endpoint_count w s = 0" "get_object w ob = Some obj"
  shows "ko_kind obj \<noteq> ko_endpoint s side"
proof
  assume "ko_kind obj = ko_endpoint s side"
  then have "is_endpoint_of s (ob, obj)" by (simp add: is_endpoint_of_def)
  with endpoint_count_pos [OF assms(2), of s] assms(1) show False by simp
qed

lemma get_state_delete [simp]:
  "get_state (w\<lparr>kw_states := AList.delete s (kw_states w)\<rparr>) t = (if t = s then None else get_state w t)"
  by (simp add: get_state_def delete_conv')

lemma heap_ok_delete_state:
  assumes "heap_ok w" "\<And>ob obj side. get_object w ob = Some obj \<Longrightarrow> ko_kind obj \<noteq> ko_endpoint s side"
  shows "heap_ok (w\<lparr>kw_states := AList.delete s (kw_states w)\<rparr>)"
proof -
  let ?w = "w\<lparr>kw_states := AList.delete s (kw_states w)\<rparr>"
  have "keys_ok ?w" using assms(1) by (auto simp: heap_ok_def keys_ok_get distinct_keys_delete)
  moreover have "side \<le> 1 \<and> get_state ?w t \<noteq> None"
    if "get_object ?w ob = Some obj" "ko_kind obj = ko_endpoint t side" for ob obj t side
    using that assms(2) [of ob obj side] heap_ok_endpoint [OF assms(1), of ob obj t side] by auto
  moreover have "cs_objects st = of_nat (endpoint_count ?w t)" if "get_state ?w t = Some st" for t st
    using that assms(1) by (auto simp: heap_ok_def endpoint_count_def split: if_splits)
  ultimately show ?thesis unfolding heap_ok_def by blast
qed

lemma quota_ok_delete_state:
  assumes "quota_ok w" "keys_ok w" "get_state w s = Some st" "st_messages st = {#}"
  shows "quota_ok (w\<lparr>kw_states := AList.delete s (kw_states w)\<rparr>)"
proof -
  let ?w = "w\<lparr>kw_states := AList.delete s (kw_states w)\<rparr>"
  have d: "distinct (map fst (kw_states w))" using assms(2) by (simp add: keys_ok_def)
  have st: "map_of (kw_states w) s = Some st" using assms(3) by (simp add: get_state_def)
  obtain M where M: "mset (kw_states w) = add_mset (s, st) M" using map_of_in_mset [OF st] by (metis multi_member_split)
  have q: "queued ?w = queued w" using mset_alist_delete [OF d st] M assms(4) by (simp add: queued_def)
  have fn: "msg_bytes ?w = msg_bytes w" "msg_resources ?w = msg_resources w"
    by (simp_all add: msg_bytes_def msg_resources_def fun_eq_iff)
  have "state_ok ?w x = state_ok w x" for x by (rule state_ok_messages) simp
  then have "state_ok ?w x" if "get_state ?w t = Some x" for t x
    using that assms(1) by (auto simp: quota_ok_def split: if_splits)
  moreover have "messages_ok ?w" "globals_ok ?w"
    using assms(1) by (simp_all add: quota_ok_def messages_ok_def globals_ok_def q fn)
  ultimately show ?thesis using assms(1) unfolding quota_ok_def q by simp
qed

lemma alist_delete_update: "AList.delete k (AList.update k v al) = AList.delete k al"
  by (induction al) auto

text \<open>
  \<open>deletes D w w'\<close>: between the two worlds the channels in \<open>D\<close> were deleted, and the others kept
  everything but the counters of capabilities and objects.
\<close>

definition deletes :: "sptr set \<Rightarrow> kworld \<Rightarrow> kworld \<Rightarrow> bool" where
  "deletes D w w' \<longleftrightarrow>
     kw_registry w' = filter (\<lambda>t. t \<notin> D) (kw_registry w) \<and> kinds_sub w w' \<and>
     (\<forall>t. get_state w' t = None \<longleftrightarrow> t \<in> D \<or> get_state w t = None) \<and>
     (\<forall>t st st'. get_state w t = Some st \<longrightarrow> get_state w' t = Some st' \<longrightarrow>
        reap_same st st' \<and> cs_core st' = cs_core st \<and> (\<forall>m \<in># st_messages st. get_message w' m = get_message w m))"

lemma deletes_refl: "deletes {} w w"
  by (simp add: deletes_def reap_same_def)

lemma deletes_none: "deletes D w w' \<Longrightarrow> get_state w' t = None \<longleftrightarrow> t \<in> D \<or> get_state w t = None"
  by (simp add: deletes_def)

lemma deletes_state:
  assumes "deletes D w w'" "get_state w t = Some st" "t \<notin> D"
  obtains st' where "get_state w' t = Some st'" "reap_same st st'" "cs_core st' = cs_core st"
    "\<And>m. m \<in># st_messages st \<Longrightarrow> get_message w' m = get_message w m"
proof -
  obtain st' where st': "get_state w' t = Some st'" using deletes_none [OF assms(1), of t] assms(2,3) by auto
  with assms(1,2) have "reap_same st st' \<and> cs_core st' = cs_core st \<and> (\<forall>m \<in># st_messages st. get_message w' m = get_message w m)"
    unfolding deletes_def by blast
  with st' that show ?thesis by blast
qed

lemma deletes_trans:
  assumes "deletes D w w1" "deletes E w1 w2"
  shows "deletes (D \<union> E) w w2"
proof -
  have "reap_same x z \<and> cs_core z = cs_core x \<and> (\<forall>m \<in># st_messages x. get_message w2 m = get_message w m)"
    if x: "get_state w t = Some x" "get_state w2 t = Some z" for t x z
  proof -
    have "get_state w1 t \<noteq> None" using assms(2) x(2) by (auto simp: deletes_def dest: spec [of _ t])
    then obtain y where y: "get_state w1 t = Some y" by blast
    have one: "reap_same x y" "cs_core y = cs_core x" "\<forall>m \<in># st_messages x. get_message w1 m = get_message w m"
      using assms(1) x(1) y unfolding deletes_def by blast+
    have two: "reap_same y z" "cs_core z = cs_core y" "\<forall>m \<in># st_messages y. get_message w2 m = get_message w1 m"
      using assms(2) x(2) y unfolding deletes_def by blast+
    have "st_messages y = st_messages x" using one(2) by (metis core_simps(9))
    with one two reap_same_trans [OF one(1) two(1)] show ?thesis by simp
  qed
  moreover have "kinds_sub w w2" using assms kinds_sub_trans unfolding deletes_def by blast
  moreover have "kw_registry w2 = filter (\<lambda>t. t \<notin> D \<union> E) (kw_registry w)"
    using assms by (auto simp: deletes_def intro: filter_cong)
  moreover have "get_state w2 t = None \<longleftrightarrow> t \<in> D \<union> E \<or> get_state w t = None" for t
    using deletes_none [OF assms(1), of t] deletes_none [OF assms(2), of t] by auto
  ultimately show ?thesis unfolding deletes_def by blast
qed

lemma delete_state_ok:
  assumes ok: "chan_ok ext w" and st: "get_state w s = Some st" and cl: "cs_claims st = 0" and ec: "endpoint_count w s = 0"
  shows "\<exists>w'. delete_state s (unregister_state s w) = Some w' \<and> chan_ok ext w' \<and> deletes {s} w w' \<and>
    (queue_list st 0 = [] \<and> queue_list st 1 = [] \<longrightarrow> kw_objects w' = kw_objects w)"
proof -
  let ?w0 = "unregister_state s w"
  have heap0: "heap_ok ?w0" "refs_ok ext ?w0" "quota_ok ?w0" "get_state ?w0 s = Some st"
    using ok st by (simp_all add: unregister_state_def chan_ok_def)
  have sok: "state_ok ?w0 st" by (rule quota_state_ok [OF heap0(3,4)])
  then have nc: "\<not> side_claimed st 0" "\<not> side_claimed st 1" using claims_zero cl by (simp_all add: state_ok_def)
  obtain w1 q0 where d0: "destroy_queue (cq_fifo (cs_queues st 0)) ?w0 = Some w1" "heap_ok w1" "refs_ok ext w1"
      "keeps_states ?w0 w1" "quota_ok (put_state s (with_queue st 0 q0) w1)" "bq_contents (cq_fifo q0) = []"
      "\<And>m. m \<notin> set (queue_list st 0) \<Longrightarrow> get_message w1 m = get_message w m" "queue_list st 0 = [] \<longrightarrow> w1 = ?w0"
    using destroy_queue_ok [OF heap0(1,2), of s st 0 "cs_queues st 0"] heap0 nc
    by (auto simp: queue_list_def unregister_state_def)
  let ?st1 = "with_queue st 0 q0"
  have q1: "with_queue ?st1 1 (cs_queues st 1) = ?st1"
    using with_queue_simps(8) [of ?st1 1] by (simp del: with_queue_simps(8))
  have s1: "get_state w1 s \<noteq> None" using keeps_states_None [OF d0(4), of s] heap0(4) by simp
  have "\<exists>w2 q1. destroy_queue (cq_fifo (cs_queues st 1)) w1 = Some w2 \<and> heap_ok w2 \<and> refs_ok ext w2 \<and> keeps_states w1 w2 \<and>
      quota_ok (put_state s (with_queue ?st1 1 q1) w2) \<and> bq_contents (cq_fifo q1) = [] \<and>
      (\<forall>m. m \<notin> set (bq_contents (cq_fifo (cs_queues st 1))) \<longrightarrow> get_message w2 m = get_message w1 m) \<and>
      (bq_contents (cq_fifo (cs_queues st 1)) = [] \<longrightarrow> w2 = w1)"
    by (rule destroy_queue_ok [OF d0(2,3) s1]) (use d0(5) nc(2) q1 in simp_all)
  then obtain w2 q1 where d1: "destroy_queue (cq_fifo (cs_queues st 1)) w1 = Some w2" "heap_ok w2" "refs_ok ext w2"
      "keeps_states w1 w2" "quota_ok (put_state s (with_queue ?st1 1 q1) w2)" "bq_contents (cq_fifo q1) = []"
      "\<And>m. m \<notin> set (queue_list st 1) \<Longrightarrow> get_message w2 m = get_message w1 m" "queue_list st 1 = [] \<longrightarrow> w2 = w1"
    by (auto simp: queue_list_def)
  let ?st2 = "with_queue ?st1 1 q1" and ?w3 = "w2\<lparr>kw_states := AList.delete s (kw_states w2)\<rparr>"
  have ks: "keeps_states ?w0 w2" using d0(4) d1(4) by (rule keeps_states_trans)
  have "get_state w2 s \<noteq> None" using keeps_states_None [OF ks, of s] heap0(4) by simp
  then have keys: "keys_ok (put_state s ?st2 w2)" using keys_ok_put_state d1(2) by (fastforce simp: heap_ok_def)
  have del: "(put_state s ?st2 w2)\<lparr>kw_states := AList.delete s (kw_states (put_state s ?st2 w2))\<rparr> = ?w3"
    by (simp add: put_state_def alist_delete_update)
  have "st_messages ?st2 = {#}" using d0(6) d1(6) by (simp add: st_messages_def)
  then have quota: "quota_ok ?w3" using quota_ok_delete_state [OF d1(5) keys, of s ?st2] unfolding del by simp
  have noep: "ko_kind obj \<noteq> ko_endpoint s side" if o: "get_object w2 ob = Some obj" for ob obj side
  proof -
    obtain obj0 where "get_object w ob = Some obj0" "ko_kind obj = ko_kind obj0"
      using ks o by (auto simp: keeps_states_def kinds_sub_def unregister_state_def)
    with endpoint_count_zero [OF ec] show ?thesis by metis
  qed
  have heap: "heap_ok ?w3" by (rule heap_ok_delete_state [OF d1(2) noep])
  have refs: "refs_ok ext ?w3" by (rule refs_ok_frame [OF d1(3)]) simp_all
  have reg: "kw_registry ?w3 = filter (\<lambda>t. t \<notin> {s}) (kw_registry w)"
    using ks ok by (simp add: keeps_states_def unregister_state_def chan_ok_def registry_ok_def distinct_remove1_removeAll removeAll_filter_not_eq)
      (metis (mono_tags, lifting))
  have none: "get_state ?w3 t = None \<longleftrightarrow> t \<in> {s} \<or> get_state w t = None" for t
    using keeps_states_None [OF ks, of t] by (simp add: unregister_state_def)
  have msgs: "get_message ?w3 m = get_message w m" if "m \<notin># st_messages st" for m
    using that d0(7) d1(7) by (simp add: st_messages_def)
  have keep: "reap_same x x' \<and> cs_core x' = cs_core x \<and> (\<forall>m \<in># st_messages x. get_message ?w3 m = get_message w m)"
    if x: "get_state w t = Some x" "get_state ?w3 t = Some x'" for t x x'
  proof -
    have ts: "t \<noteq> s" using x(2) by auto
    have "m \<notin># st_messages st" if "m \<in># st_messages x" for m by (rule messages_disjoint [OF ok x(1) st ts that])
    then have "\<forall>m \<in># st_messages x. get_message ?w3 m = get_message w m" using msgs by blast
    moreover have "get_state ?w0 t = Some x" using x(1) by (simp add: unregister_state_def)
    ultimately show ?thesis using keeps_states_state [OF ks, of t x] x(2) ts by auto
  qed
  have "kinds_sub w ?w3" using ks by (simp add: keeps_states_def kinds_sub_def unregister_state_def)
  then have dels: "deletes {s} w ?w3" using reg none keep unfolding deletes_def by blast
  have "registry_ok ?w3" using ok none reg by (auto simp: chan_ok_def registry_ok_def)
  then have "chan_ok ext ?w3" using heap refs quota by (simp add: chan_ok_def)
  moreover have "delete_state s ?w0 = Some ?w3" using heap0(4) d0(1) d1(1) by (simp add: delete_state_def)
  moreover have "queue_list st 0 = [] \<and> queue_list st 1 = [] \<longrightarrow> kw_objects ?w3 = kw_objects w"
    using d0(8) d1(8) by (auto simp: unregister_state_def)
  ultimately show ?thesis using dels by blast
qed

section \<open>The deleting pass\<close>

lemma endpoint_count_bound:
  assumes "heap_ok w"
  shows "endpoint_count w s < 2 ^ 64"
proof -
  have k: "distinct (map fst (kw_objects w))" "0 < kw_next w" "kw_next w \<le> 2 ^ 64"
    "\<forall>x \<in> fst ` set (kw_objects w). 0 < x \<and> x < kw_next w"
    using assms by (simp_all add: heap_ok_def keys_ok_def)
  have "endpoint_count w s \<le> length (kw_objects w)"
    unfolding endpoint_count_def by (metis size_filter_mset_lesseq size_mset)
  also have "\<dots> = card (fst ` set (kw_objects w))"
    using k(1) by (metis distinct_card length_map list.set_map)
  also have "\<dots> \<le> card {0 <..< kw_next w}" using k(4) by (intro card_mono) (auto simp del: image_iff)
  also have "\<dots> < 2 ^ 64" using k(2,3) by simp
  finally show ?thesis .
qed

lemma objects_zero:
  assumes "heap_ok w" "get_state w s = Some st"
  shows "cs_objects st = 0 \<longleftrightarrow> endpoint_count w s = 0"
proof -
  have e: "cs_objects st = of_nat (endpoint_count w s)" using assms by (simp add: heap_ok_def)
  have "unat (of_nat (endpoint_count w s) :: u64) = endpoint_count w s"
    using endpoint_count_bound [OF assms(1), of s] by (simp add: unsigned_of_nat take_bit_nat_eq_self)
  with e show ?thesis by (metis unat_eq_zero_iff)
qed

definition no_messages :: "sptr set \<Rightarrow> kworld \<Rightarrow> bool" where
  "no_messages D w \<longleftrightarrow> (\<forall>s \<in> D. \<forall>st. get_state w s = Some st \<longrightarrow> queue_list st 0 = [] \<and> queue_list st 1 = [])"

lemma no_messages_deletes:
  assumes "no_messages E w" "deletes D w w'"
  shows "no_messages E w'"
  unfolding no_messages_def
proof (intro ballI allI impI)
  fix s st'
  assume s: "s \<in> E" "get_state w' s = Some st'"
  then obtain st where st: "get_state w s = Some st" using deletes_none [OF assms(2), of s] by fastforce
  then have "cs_core st' = cs_core st" using assms(2) s(2) unfolding deletes_def by blast
  with queue_list_core [of st' st] assms(1) s(1) st show "queue_list st' 0 = [] \<and> queue_list st' 1 = []"
    by (simp add: no_messages_def)
qed

lemma delete_orphans_ok:
  assumes "chan_ok ext w" "distinct (map fst sms)" "\<And>s mk. (s, mk) \<in> set sms \<Longrightarrow> get_state w s \<noteq> None"
  shows "\<exists>w' D. delete_orphans sms w = Some w' \<and> chan_ok ext w' \<and> D \<subseteq> orphans sms \<and> deletes D w w' \<and>
    (no_messages (orphans sms) w \<longrightarrow> kw_objects w' = kw_objects w \<and>
      (\<forall>s st. s \<in> orphans sms \<longrightarrow> s \<notin> D \<longrightarrow> get_state w s = Some st \<longrightarrow> can_reap st \<longrightarrow> 0 < endpoint_count w s))"
  using assms
proof (induction sms arbitrary: w)
  case Nil
  then show ?case by (intro exI [of _ w] exI [of _ "{}"]) (simp add: deletes_refl)
next
  case (Cons p sms)
  obtain s mk where p: "p = (s, mk)" by fastforce
  from Cons.prems(3) [of s mk] obtain st where st: "get_state w s = Some st" by (auto simp: p)
  have heap: "heap_ok w" using Cons.prems(1) by (simp add: chan_ok_def)
  have skip: ?case if sk: "delete_orphans (p # sms) w = delete_orphans sms w"
      "(s, False) \<in> set (p # sms) \<Longrightarrow> can_reap st \<Longrightarrow> 0 < endpoint_count w s"
  proof -
    have "\<exists>w' D. delete_orphans sms w = Some w' \<and> chan_ok ext w' \<and> D \<subseteq> orphans sms \<and> deletes D w w' \<and>
      (no_messages (orphans sms) w \<longrightarrow> kw_objects w' = kw_objects w \<and>
        (\<forall>s st. s \<in> orphans sms \<longrightarrow> s \<notin> D \<longrightarrow> get_state w s = Some st \<longrightarrow> can_reap st \<longrightarrow> 0 < endpoint_count w s))"
      by (rule Cons.IH [OF Cons.prems(1)]) (use Cons.prems(2,3) in auto)
    then obtain w' D where w': "delete_orphans sms w = Some w'" "chan_ok ext w'" "D \<subseteq> orphans sms" "deletes D w w'"
        "no_messages (orphans sms) w \<Longrightarrow> kw_objects w' = kw_objects w"
        "\<And>t x. no_messages (orphans sms) w \<Longrightarrow> t \<in> orphans sms \<Longrightarrow> t \<notin> D \<Longrightarrow> get_state w t = Some x \<Longrightarrow> can_reap x \<Longrightarrow>
          0 < endpoint_count w t" by blast
    have nm: "no_messages (orphans sms) w" if "no_messages (orphans (p # sms)) w" using that by (simp add: no_messages_def)
    have "0 < endpoint_count w t" if t: "no_messages (orphans (p # sms)) w" "t \<in> orphans (p # sms)" "t \<notin> D"
        and x: "get_state w t = Some x" "can_reap x" for t x
    proof (cases "t \<in> orphans sms")
      case True
      then show ?thesis by (rule w'(6) [OF nm [OF t(1)] _ t(3) x])
    next
      case False
      with t(2) have "t = s" by (auto simp: p)
      with sk(2) t(2) x st show ?thesis by simp
    qed
    moreover have "D \<subseteq> orphans (p # sms)" using w'(3) by auto
    ultimately show ?thesis using sk(1) w'(1,2,4,5) nm by (intro exI [of _ w'] exI [of _ D]) simp
  qed
  show ?case
  proof (cases "mk \<or> \<not> can_reap st \<or> cs_objects st \<noteq> 0")
    case True
    show ?thesis
    proof (rule skip)
      show "delete_orphans (p # sms) w = delete_orphans sms w" using True st by (auto simp: p)
      assume "(s, False) \<in> set (p # sms)" "can_reap st"
      moreover have "(s, False) \<notin> set sms" using Cons.prems(2) by (force simp: p)
      ultimately show "0 < endpoint_count w s" using True objects_zero [OF heap st] by (simp add: p)
    qed
  next
    case False
    then have z: "\<not> mk" "can_reap st" "cs_claims st = 0" "endpoint_count w s = 0"
      using objects_zero [OF heap st] by (simp_all add: can_reap_def)
    obtain w1 where w1: "delete_state s (unregister_state s w) = Some w1" "chan_ok ext w1" "deletes {s} w w1"
        "queue_list st 0 = [] \<and> queue_list st 1 = [] \<longrightarrow> kw_objects w1 = kw_objects w"
      using delete_state_ok [OF Cons.prems(1) st z(3,4)] by blast
    have ns: "s \<notin> fst ` set sms" using Cons.prems(2) by (simp add: p)
    have "\<exists>w' D. delete_orphans sms w1 = Some w' \<and> chan_ok ext w' \<and> D \<subseteq> orphans sms \<and> deletes D w1 w' \<and>
      (no_messages (orphans sms) w1 \<longrightarrow> kw_objects w' = kw_objects w1 \<and>
        (\<forall>s st. s \<in> orphans sms \<longrightarrow> s \<notin> D \<longrightarrow> get_state w1 s = Some st \<longrightarrow> can_reap st \<longrightarrow> 0 < endpoint_count w1 s))"
    proof (rule Cons.IH [OF w1(2)])
      show "distinct (map fst sms)" using Cons.prems(2) by simp
      show "get_state w1 t \<noteq> None" if "(t, k) \<in> set sms" for t k
      proof -
        have "t \<noteq> s" using that ns by force
        then show ?thesis using deletes_none [OF w1(3), of t] Cons.prems(3) [of t k] that by simp
      qed
    qed
    then obtain w' D where w': "delete_orphans sms w1 = Some w'" "chan_ok ext w'" "D \<subseteq> orphans sms" "deletes D w1 w'"
        "no_messages (orphans sms) w1 \<longrightarrow> kw_objects w' = kw_objects w1 \<and>
          (\<forall>s st. s \<in> orphans sms \<longrightarrow> s \<notin> D \<longrightarrow> get_state w1 s = Some st \<longrightarrow> can_reap st \<longrightarrow> 0 < endpoint_count w1 s)" by blast
    have "delete_orphans (p # sms) w = Some w'" using False st w1(1) w'(1) by (simp add: p)
    moreover have "{s} \<union> D \<subseteq> orphans (p # sms)" using w'(3) z(1) by (auto simp: p)
    moreover have "deletes ({s} \<union> D) w w'" by (rule deletes_trans [OF w1(3) w'(4)])
    moreover have "kw_objects w' = kw_objects w \<and>
        (\<forall>t x. t \<in> orphans (p # sms) \<longrightarrow> t \<notin> {s} \<union> D \<longrightarrow> get_state w t = Some x \<longrightarrow> can_reap x \<longrightarrow> 0 < endpoint_count w t)"
      if nm: "no_messages (orphans (p # sms)) w"
    proof -
      have "no_messages (orphans sms) w1"
        using no_messages_deletes [OF nm w1(3)] by (simp add: no_messages_def)
      then have obj: "kw_objects w' = kw_objects w1"
        and rest: "\<And>t x. t \<in> orphans sms \<Longrightarrow> t \<notin> D \<Longrightarrow> get_state w1 t = Some x \<Longrightarrow> can_reap x \<Longrightarrow> 0 < endpoint_count w1 t"
        using w'(5) by blast+
      have obj1: "kw_objects w1 = kw_objects w" using nm z(1) st w1(4) by (simp add: no_messages_def p)
      have "0 < endpoint_count w t"
        if t: "t \<in> orphans (p # sms)" "t \<notin> {s} \<union> D" and x: "get_state w t = Some x" "can_reap x" for t x
      proof (rule deletes_state [OF w1(3) x(1)])
        show "t \<notin> {s}" using t(2) by simp
        fix x'
        assume x': "get_state w1 t = Some x'" "reap_same x x'"
        then have "can_reap x'" using x(2) reap_same_can_reap by blast
        with rest [of t x'] x'(1) t have "0 < endpoint_count w1 t" by (auto simp: p)
        then show "0 < endpoint_count w t" by (simp add: endpoint_count_def obj1)
      qed
      with obj obj1 show ?thesis by simp
    qed
    ultimately show ?thesis using w'(2) by blast
  qed
qed

section \<open>The collector\<close>

text \<open>What the collector owes to a channel that is still needed.\<close>

definition channel_intact :: "kworld \<Rightarrow> kworld \<Rightarrow> sptr \<Rightarrow> bool" where
  "channel_intact w w' s \<longleftrightarrow>
     (\<forall>st. get_state w s = Some st \<longrightarrow>
        (\<exists>st'. get_state w' s = Some st' \<and> reap_same st st' \<and> cs_core st' = cs_core st \<and>
           (\<forall>m \<in># st_messages st. get_message w' m = get_message w m)))"

lemma channel_intact_refl: "channel_intact w w s"
  by (simp add: channel_intact_def reap_same_def)

lemma not_kept_can_reap:
  assumes "s \<in> set (kw_registry w)" "get_state w s = Some st" "\<not> kept w s"
  shows "can_reap st"
  using assms kept_root by blast

lemma collect_orphaned_channels_ok:
  assumes "chan_ok ext w"
  shows "\<exists>w'. collect_orphaned_channels mem w = Some w' \<and> chan_ok ext w' \<and> kinds_sub w w' \<and>
    (\<forall>s. kept w s \<longrightarrow> channel_intact w w' s) \<and> (\<forall>s. get_state w s = None \<longrightarrow> get_state w' s = None) \<and>
    (mem A_marked \<and> mem A_discarded \<longrightarrow>
      (\<forall>s st'. get_state w' s = Some st' \<longrightarrow> \<not> kept w s \<longrightarrow> st_messages st' = {#} \<and> 0 < endpoint_count w' s))"
proof (cases "kw_registry w = [] \<or> \<not> mem A_marked")
  case True
  have "get_state w s = None" if "kw_registry w = []" for s
    using assms that by (auto simp: chan_ok_def registry_ok_def dest: spec [of _ s])
  with True assms show ?thesis
    by (auto simp: collect_orphaned_channels_def Let_def channel_intact_refl)
next
  case False
  let ?ss = "kw_registry w"
  have reg: "distinct ?ss" "\<And>s. s \<in> set ?ss \<longleftrightarrow> get_state w s \<noteq> None"
    using assms by (simp_all add: chan_ok_def registry_ok_def)
  obtain marked0 work marked where mk: "gc_roots w ?ss = Some (marked0, work)"
      "mark_loop w ?ss marked0 work = Some marked" "length marked = length ?ss"
      "\<And>i. i < length ?ss \<Longrightarrow> marked ! i \<longleftrightarrow> kept w (?ss ! i)"
    using marking_correct [OF assms] by blast
  let ?sms = "zip ?ss marked"
  have in_sms: "(s, k) \<in> set ?sms \<longleftrightarrow> s \<in> set ?ss \<and> (k \<longleftrightarrow> kept w s)" for s k
    using mk(3,4) by (auto simp: set_zip in_set_conv_nth)
  have dist: "distinct (map fst ?sms)" using reg(1) mk(3) by simp
  have orph: "orphans ?sms = {s \<in> set ?ss. \<not> kept w s}" using in_sms by auto
  obtain w1 where w1: "discard_orphans mem ?sms w = Some w1" "chan_ok ext w1" "discards mem (orphans ?sms) w w1"
    using discard_orphans_ok [OF assms, of ?sms mem] in_sms reg(2) not_kept_can_reap by metis
  have pres: "get_state w1 s = None \<longleftrightarrow> get_state w s = None" for s using w1(3) by (simp add: discards_def)
  obtain w' D where w': "delete_orphans ?sms w1 = Some w'" "chan_ok ext w'" "D \<subseteq> orphans ?sms" "deletes D w1 w'"
      "no_messages (orphans ?sms) w1 \<longrightarrow> kw_objects w' = kw_objects w1 \<and>
        (\<forall>s st. s \<in> orphans ?sms \<longrightarrow> s \<notin> D \<longrightarrow> get_state w1 s = Some st \<longrightarrow> can_reap st \<longrightarrow> 0 < endpoint_count w1 s)"
    using delete_orphans_ok [OF w1(2) dist] in_sms reg(2) pres by metis
  have col: "collect_orphaned_channels mem w = Some w'"
    using False mk(1,2) w1(1) w'(1) by (simp add: collect_orphaned_channels_def Let_def)
  have intact: "channel_intact w w' s" if k: "kept w s" for s
    unfolding channel_intact_def
  proof (intro allI impI)
    fix st
    assume st: "get_state w s = Some st"
    have no: "s \<notin> orphans ?sms" using k orph by simp
    show "\<exists>st'. get_state w' s = Some st' \<and> reap_same st st' \<and> cs_core st' = cs_core st \<and>
        (\<forall>m \<in># st_messages st. get_message w' m = get_message w m)"
    proof (rule discards_state [OF w1(3) st])
      fix y
      assume y: "get_state w1 s = Some y" "reap_same st y" "s \<notin> orphans ?sms \<Longrightarrow> cs_core y = cs_core st"
        "\<And>m. s \<notin> orphans ?sms \<Longrightarrow> m \<in># st_messages st \<Longrightarrow> get_message w1 m = get_message w m"
      have sm: "st_messages y = st_messages st" using y(3) [OF no] by (metis core_simps(9))
      have "s \<notin> D" using no w'(3) by blast
      then show ?thesis
      proof (rule deletes_state [OF w'(4) y(1)])
        fix z
        assume z: "get_state w' s = Some z" "reap_same y z" "cs_core z = cs_core y"
          "\<And>m. m \<in># st_messages y \<Longrightarrow> get_message w' m = get_message w1 m"
        have "reap_same st z" by (rule reap_same_trans [OF y(2) z(2)])
        with y(3,4) [OF no] z sm show ?thesis by auto
      qed
    qed
  qed
  have fin: "st_messages st' = {#} \<and> 0 < endpoint_count w' s"
    if m: "mem A_discarded" and st': "get_state w' s = Some st'" and nk: "\<not> kept w s" for s st'
  proof -
    have sD: "s \<notin> D" and s1: "get_state w1 s \<noteq> None" using deletes_none [OF w'(4), of s] st' by auto
    then have "s \<in> set ?ss" using pres [of s] reg(2) [of s] by simp
    with nk orph have so: "s \<in> orphans ?sms" by simp
    obtain y where y: "get_state w1 s = Some y" using s1 by blast
    obtain x where x: "get_state w s = Some x" using s1 pres [of s] by auto
    have nm: "no_messages (orphans ?sms) w1"
      unfolding no_messages_def
    proof (intro ballI allI impI)
      fix t z
      assume t: "t \<in> orphans ?sms" "get_state w1 t = Some z"
      then obtain u where "get_state w t = Some u" using pres [of t] by fastforce
      with t w1(3) m show "queue_list z 0 = [] \<and> queue_list z 1 = []" unfolding discards_def by blast
    qed
    have "can_reap x" using not_kept_can_reap [OF \<open>s \<in> set ?ss\<close> x nk] .
    moreover have "reap_same x y" using w1(3) x y unfolding discards_def by blast
    ultimately have "can_reap y" using reap_same_can_reap by blast
    with w'(5) nm so sD y have "kw_objects w' = kw_objects w1" "0 < endpoint_count w1 s" by blast+
    moreover have "no_messages (orphans ?sms) w'" by (rule no_messages_deletes [OF nm w'(4)])
    then have "st_messages st' = {#}" using so st' by (simp add: no_messages_def st_messages_def)
    ultimately show ?thesis by (simp add: endpoint_count_def)
  qed
  have "kinds_sub w w'" using w1(3) w'(4) kinds_sub_trans unfolding discards_def deletes_def by blast
  moreover have "get_state w' s = None" if "get_state w s = None" for s
    using that pres [of s] deletes_none [OF w'(4), of s] by simp
  ultimately show ?thesis using col w'(2) intact fin by blast
qed

end
