(* ===== verification/Event_Flow.thy ===== *)
theory Event_Flow
  imports Channel_Ops
begin

text \<open>
  The flow of references through events: \<open>ev_moves es H H'\<close> says that the events \<open>es\<close> turn a
  holding \<open>H\<close> of references into \<open>H'\<close>, whatever other references exist, and touch only
  objects that are held at that moment. Operations on handles, resources and records are
  described once in these terms; with \<open>chan_ok_moves\<close> every such list of events runs on the
  kernel heap without touching freed memory and keeps the invariant of the channels.
\<close>

definition ev_moves :: "cap_event list \<Rightarrow> (oid \<Rightarrow> nat) \<Rightarrow> (oid \<Rightarrow> nat) \<Rightarrow> bool" where
  "ev_moves es H H' \<longleftrightarrow> (\<forall>e. ext_events es (\<lambda>ob. H ob + e ob) = Some (\<lambda>ob. H' ob + e ob))"

definition hnum :: "khandle \<Rightarrow> oid \<Rightarrow> nat" where
  "hnum h ob = (if h = Some ob then 1 else 0)"

lemma hnum_simps [simp]: "hnum None ob = 0" "hnum (Some p) ob = (if p = ob then 1 else 0)"
  by (simp_all add: hnum_def)

lemma chan_ok_moves:
  assumes "chan_ok (\<lambda>ob. H ob + e ob) w" "ev_moves es H H'"
  obtains w' where "apply_events es w = Some w'" "chan_ok (\<lambda>ob. H' ob + e ob) w'" "same_core w w'"
  using chan_ok_events [OF assms(1), of es] assms(2) by (auto simp: ev_moves_def)

lemma ev_moves_Nil [simp]: "ev_moves [] H H"
  by (simp add: ev_moves_def)

lemma ev_moves_append:
  assumes "ev_moves es H H1" "ev_moves es' H1 H2"
  shows "ev_moves (es @ es') H H2"
  using assms by (simp add: ev_moves_def ext_events_append)

lemma ev_moves_frame:
  assumes "ev_moves es H H'"
  shows "ev_moves es (\<lambda>ob. H ob + F ob) (\<lambda>ob. H' ob + F ob)" "ev_moves es (\<lambda>ob. F ob + H ob) (\<lambda>ob. F ob + H' ob)"
proof -
  have a: "(\<lambda>ob. G ob + F ob + e ob) = (\<lambda>ob. G ob + (F ob + e ob))"
      "(\<lambda>ob. F ob + G ob + e ob) = (\<lambda>ob. G ob + (F ob + e ob))" for G e by auto
  have s: "ext_events es (\<lambda>ob. H ob + (F ob + e ob)) = Some (\<lambda>ob. H' ob + (F ob + e ob))" for e
    using assms [unfolded ev_moves_def, THEN spec, of "\<lambda>ob. F ob + e ob"] .
  show "ev_moves es (\<lambda>ob. H ob + F ob) (\<lambda>ob. H' ob + F ob)" "ev_moves es (\<lambda>ob. F ob + H ob) (\<lambda>ob. F ob + H' ob)"
    unfolding ev_moves_def a by (rule allI, rule s)+
qed

text \<open>A step on part of the holding: the rest \<open>F\<close> stays.\<close>

lemma ev_moves_part:
  assumes "ev_moves es A A'" "\<And>ob. H ob = A ob + F ob" "\<And>ob. H' ob = A' ob + F ob"
  shows "ev_moves es H H'"
proof -
  have "H = (\<lambda>ob. A ob + F ob)" "H' = (\<lambda>ob. A' ob + F ob)" using assms(2,3) by auto
  with ev_moves_frame(1) [OF assms(1), of F] show ?thesis by simp
qed

lemma ev_moves_concat:
  assumes "\<And>x. x \<in> set xs \<Longrightarrow> ev_moves (f x) (H x) (H' x)"
  shows "ev_moves (concat (map f xs)) (\<lambda>ob. \<Sum>x\<leftarrow>xs. H x ob) (\<lambda>ob. \<Sum>x\<leftarrow>xs. H' x ob)"
  using assms
proof (induction xs)
  case (Cons x xs)
  have 1: "ev_moves (f x) (\<lambda>ob. H x ob + (\<Sum>x\<leftarrow>xs. H x ob)) (\<lambda>ob. H' x ob + (\<Sum>x\<leftarrow>xs. H x ob))"
    using Cons.prems by (intro ev_moves_frame) simp
  have 2: "ev_moves (concat (map f xs)) (\<lambda>ob. H' x ob + (\<Sum>x\<leftarrow>xs. H x ob)) (\<lambda>ob. H' x ob + (\<Sum>x\<leftarrow>xs. H' x ob))"
    using Cons.IH Cons.prems by (intro ev_moves_frame(2)) simp
  show ?case using ev_moves_append [OF 1 2] by simp
qed simp

section \<open>Handles and resources\<close>

lemma ev_moves_hook:
  "ev_moves [Ev_acquire ob wh] (hnum (Some ob)) (hnum (Some ob))"
  "ev_moves [Ev_release ob wh] (hnum (Some ob)) (hnum (Some ob))"
  "ev_moves [Ev_handoff ob wh wh'] (hnum (Some ob)) (hnum (Some ob))"
  by (simp_all add: ev_moves_def)

lemma ev_moves_drop: "ev_moves (snd (h_drop h)) (hnum h) (\<lambda>_. 0)"
  by (cases h) (auto simp: ev_moves_def h_drop_def)

lemma ev_moves_copy: "ev_moves (snd (h_copy h)) (hnum h) (\<lambda>ob. hnum h ob + hnum h ob)"
  by (cases h) (auto simp: ev_moves_def h_copy_def)

lemma ev_moves_acquire: "ev_moves (tr_acquire_transit r) (hnum (tr_object r)) (hnum (tr_object r))"
  by (cases "tr_object r") (auto simp: tr_acquire_transit_def ev_moves_hook)

lemma ev_moves_release_transit:
  "ev_moves (snd (tr_release_transit r)) (hnum (tr_object r)) (hnum (tr_object r))"
  "tr_object (fst (tr_release_transit r)) = tr_object r"
  by (cases "tr_object r"; simp add: tr_release_transit_def ev_moves_hook)+

lemma ev_moves_make:
  "ev_moves (snd (tr_make h meta)) (hnum h) (hnum h)" "tr_object (fst (tr_make h meta)) = h"
  "tr_meta (fst (tr_make h meta)) = meta"
  using ev_moves_acquire [of "fst (tr_make h meta)"] by (simp_all add: tr_make_def Let_def)

lemma ev_moves_destroy: "ev_moves (tr_destroy r) (hnum (tr_object r)) (\<lambda>_. 0)"
proof -
  have "ev_moves (snd (tr_release_transit r) @ snd (h_drop (tr_object r))) (hnum (tr_object r)) (\<lambda>_. 0)"
    by (rule ev_moves_append [OF ev_moves_release_transit(1) ev_moves_drop])
  then show ?thesis using ev_moves_release_transit(2) [of r] by (simp add: tr_destroy_def split_beta)
qed

text \<open>
  Move assignment of a handle: the old value is dropped. If both sides are the same object
  nothing happens, and both keep their reference.
\<close>

lemma ev_moves_h_assign:
  assumes "h_assign_move this rhs = (this', rhs', es)"
  shows "ev_moves es (\<lambda>ob. hnum this ob + hnum rhs ob) (\<lambda>ob. hnum this' ob + hnum rhs' ob)" "this' = rhs"
proof -
  show "this' = rhs" using assms by (auto simp: h_assign_move_def split_beta split: if_splits)
  show "ev_moves es (\<lambda>ob. hnum this ob + hnum rhs ob) (\<lambda>ob. hnum this' ob + hnum rhs' ob)"
  proof (cases "this = rhs")
    case False
    then have "this' = rhs" "rhs' = None" "es = snd (h_drop this)" using assms by (auto simp: h_assign_move_def split_beta)
    with ev_moves_frame(1) [OF ev_moves_drop [of this], of "hnum rhs"] show ?thesis by simp
  qed (use assms in \<open>auto simp: h_assign_move_def\<close>)
qed

lemma ev_moves_tr_assign:
  assumes "tr_assign_move this other = (this', other', es)"
  shows "ev_moves es (\<lambda>ob. hnum (tr_object this) ob + hnum (tr_object other) ob)
      (\<lambda>ob. hnum (tr_object this') ob + hnum (tr_object other') ob)"
    "tr_object this' = tr_object other" "tr_meta this' = tr_meta other" "tr_in_transit this' = tr_in_transit other"
proof -
  obtain t es1 where t: "tr_release_transit this = (t, es1)" by force
  obtain a b es2 where ab: "h_assign_move (tr_object t) (tr_object other) = (a, b, es2)" by (metis prod.collapse)
  have eq: "this' = \<lparr>tr_object = a, tr_meta = tr_meta other, tr_in_transit = tr_in_transit other\<rparr>"
      "other' = other\<lparr>tr_object := b, tr_in_transit := False\<rparr>" "es = es1 @ es2"
    using assms t ab by (auto simp: tr_assign_move_def)
  have tt: "tr_object t = tr_object this" "ev_moves es1 (hnum (tr_object this)) (hnum (tr_object this))"
    using ev_moves_release_transit [of this] t by simp_all
  note h = ev_moves_h_assign [OF ab]
  show "ev_moves es (\<lambda>ob. hnum (tr_object this) ob + hnum (tr_object other) ob)
      (\<lambda>ob. hnum (tr_object this') ob + hnum (tr_object other') ob)"
    unfolding eq using ev_moves_append [OF ev_moves_frame(1) [OF tt(2)] h(1) [unfolded tt(1)]] by simp
  show "tr_object this' = tr_object other" "tr_meta this' = tr_meta other" "tr_in_transit this' = tr_in_transit other"
    using eq h(2) by simp_all
qed

lemma ev_moves_to_table:
  assumes "tr_take_object_to_table r = (h, r', es)"
  shows "ev_moves es (hnum (tr_object r)) (hnum h)" "h = tr_object r" "tr_object r' = None"
proof -
  show h: "h = tr_object r" "tr_object r' = None" using assms by (auto simp: tr_take_object_to_table_def split: option.splits)
  show "ev_moves es (hnum (tr_object r)) (hnum h)"
  proof (cases "tr_object r")
    case (Some ob)
    then have "es = [Ev_acquire ob table_root] @ [Ev_release ob in_transit]" "h = Some ob"
      using assms by (auto simp: tr_take_object_to_table_def)
    with Some show ?thesis using ev_moves_append [OF ev_moves_hook(1) ev_moves_hook(2)] by metis
  qed (use assms in \<open>auto simp: tr_take_object_to_table_def\<close>)
qed

section \<open>Records\<close>

definition token_refs :: "transfer_restore_token \<Rightarrow> oid \<Rightarrow> nat" where
  "token_refs t ob =
     (case tk_slot t of None \<Rightarrow> 0 | Some node \<Rightarrow> hnum (ce_object (snd node)) ob) + hnum (tk_callback_object t) ob"

definition rec_refs :: "transfer_record \<Rightarrow> oid \<Rightarrow> nat" where
  "rec_refs r ob = hnum (tr_object (rec_resource r)) ob + token_refs (rec_token r) ob"

lemma token_refs_default [simp]: "token_refs tk_default ob = 0"
  by (simp add: token_refs_def tk_default_def)

lemma ev_moves_token_reset: "ev_moves (snd (tk_reset t)) (token_refs t) (\<lambda>_. 0)"
proof -
  let ?s = "\<lambda>ob. case tk_slot t of None \<Rightarrow> 0 | Some node \<Rightarrow> hnum (ce_object (snd node)) ob"
  have 1: "ev_moves (case tk_slot t of Some node \<Rightarrow> node_destroy node | None \<Rightarrow> []) ?s (\<lambda>_. 0)"
    by (cases "tk_slot t") (simp_all add: node_destroy_def ev_moves_drop)
  have 2: "ev_moves (case tk_slot t of Some node \<Rightarrow> node_destroy node | None \<Rightarrow> []) (token_refs t) (hnum (tk_callback_object t))"
    by (rule ev_moves_part [OF 1]) (simp_all add: token_refs_def)
  show ?thesis using ev_moves_append [OF 2 ev_moves_drop] by (simp add: tk_reset_def)
qed

lemma ev_moves_rec_destroy: "ev_moves (rec_destroy r) (rec_refs r) (\<lambda>_. 0)"
proof -
  have "ev_moves (snd (tk_reset (rec_token r))) (rec_refs r) (hnum (tr_object (rec_resource r)))"
    by (rule ev_moves_part [OF ev_moves_token_reset]) (simp_all add: rec_refs_def)
  from ev_moves_append [OF this ev_moves_destroy] show ?thesis by (simp add: rec_destroy_def)
qed

lemma ev_moves_records_destroy:
  "ev_moves (concat (map rec_destroy rs)) (\<lambda>ob. \<Sum>r\<leftarrow>rs. rec_refs r ob) (\<lambda>_. 0)"
  using ev_moves_concat [of rs rec_destroy rec_refs "\<lambda>_ _. 0", OF ev_moves_rec_destroy] by simp

lemma res_count_sum: "res_count ob (map rec_resource rs) = (\<Sum>r\<leftarrow>rs. hnum (tr_object (rec_resource r)) ob)"
  by (induction rs) (simp_all add: res_count_def hnum_def)

end
