(* ===== verification/Channel_New.thy ===== *)
theory Channel_New
  imports Channel_Gc_Correct Event_Flow
begin

text \<open>
  Allocation keeps the invariant \<open>chan_ok\<close> of the channels: a new message, a new object, a new
  channel state and a new endpoint, each at the next free address, and with them the creation
  of a channel on every branch. Addresses are given out in order and never reused, so that
  every lemma asks that the address space of \<open>2 ^ 64\<close> is not exhausted.
\<close>

section \<open>Fresh addresses\<close>

abbreviation bump :: "kworld \<Rightarrow> kworld" where
  "bump w \<equiv> w\<lparr>kw_next := kw_next w + 1\<rparr>"

lemma fresh_address:
  assumes "heap_ok w"
  shows "get_state w (kw_next w) = None" "get_message w (kw_next w) = None" "get_object w (kw_next w) = None"
    "0 < kw_next w"
proof -
  have "\<forall>x. get_state w x \<noteq> None \<or> get_message w x \<noteq> None \<or> get_object w x \<noteq> None \<longrightarrow> x < kw_next w"
    using assms by (simp add: heap_ok_def keys_ok_get)
  from this [THEN spec, of "kw_next w"]
  show "get_state w (kw_next w) = None" "get_message w (kw_next w) = None" "get_object w (kw_next w) = None" by auto
  show "0 < kw_next w" using assms by (simp add: heap_ok_def keys_ok_def)
qed

lemma distinct_fresh:
  "distinct (map fst al) \<Longrightarrow> distinct (map fst (AList.update k v al))"
  by (rule distinct_update)

lemma bump_simps [simp]:
  "endpoint_count (w\<lparr>kw_next := i\<rparr>) s = endpoint_count w s" "obj_refs (w\<lparr>kw_next := i\<rparr>) ob = obj_refs w ob"
  "msg_refs (w\<lparr>kw_next := i\<rparr>) ob = msg_refs w ob" "refs_ok ext (w\<lparr>kw_next := i\<rparr>) = refs_ok ext w"
  "quota_ok (w\<lparr>kw_next := i\<rparr>) = quota_ok w" "registry_ok (w\<lparr>kw_next := i\<rparr>) = registry_ok w"
  by (simp_all add: endpoint_count_def obj_refs_def msg_refs_def refs_ok_def quota_ok_def state_ok_def queue_ok_def
      messages_ok_def globals_ok_def msg_bytes_def msg_resources_def registry_ok_def)

lemma keys_ok_bump:
  assumes "keys_ok w" "kw_next w < 2 ^ 64"
  shows "keys_ok (bump (put_message (kw_next w) msg w))" "keys_ok (bump (put_object (kw_next w) obj w))"
    "keys_ok (bump (put_state (kw_next w) st w))"
proof -
  have lt: "\<forall>x. get_state w x \<noteq> None \<or> get_message w x \<noteq> None \<or> get_object w x \<noteq> None \<longrightarrow> 0 < x \<and> x < kw_next w"
    "distinct (map fst (kw_states w))" "distinct (map fst (kw_messages w))" "distinct (map fst (kw_objects w))" "0 < kw_next w"
    using assms(1) by (simp_all add: keys_ok_get)
  then have l: "x < Suc (kw_next w) \<and> 0 < x" if "get_state w x \<noteq> None \<or> get_message w x \<noteq> None \<or> get_object w x \<noteq> None" for x
    using that less_SucI by blast
  show "keys_ok (bump (put_message (kw_next w) msg w))"
    using assms(2) lt(2-5) l by (auto simp: keys_ok_get put_message_def [of _ _ w, THEN arg_cong, of kw_messages] distinct_fresh)
  show "keys_ok (bump (put_object (kw_next w) obj w))"
    using assms(2) lt(2-5) l by (auto simp: keys_ok_get put_object_def [of _ _ w, THEN arg_cong, of kw_objects] distinct_fresh)
  show "keys_ok (bump (put_state (kw_next w) st w))"
    using assms(2) lt(2-5) l by (auto simp: keys_ok_get put_state_def [of _ _ w, THEN arg_cong, of kw_states] distinct_fresh)
qed

lemma chan_ok_bump:
  assumes "chan_ok ext w" "kw_next w < 2 ^ 64"
  shows "chan_ok ext (bump w)"
proof -
  have "keys_ok (bump w)" using assms less_SucI unfolding chan_ok_def heap_ok_def keys_ok_get by auto
  with assms(1) show ?thesis by (simp add: chan_ok_def heap_ok_def)
qed

section \<open>Messages\<close>

lemma chan_ok_new_message:
  assumes ok: "chan_ok ext w" and room: "kw_next w < 2 ^ 64" and empty: "cm_resources msg = []"
  shows "chan_ok ext (bump (put_message (kw_next w) msg w))" "kw_next w \<notin># queued w"
    "queued (bump (put_message (kw_next w) msg w)) = queued w"
proof -
  have h: "heap_ok w" using ok by (simp add: chan_ok_def)
  note f = fresh_address [OF h]
  show q: "kw_next w \<notin># queued w" using ok f(2) by (auto simp: chan_ok_def quota_ok_def)
  show "queued (bump (put_message (kw_next w) msg w)) = queued w" by simp
  let ?w = "put_message (kw_next w) msg w"
  have refs: "msg_refs ?w ob = msg_refs w ob" for ob
    using mset_alist_new [of "kw_messages w" "kw_next w" msg] f(2) empty
    by (simp add: msg_refs_def put_message_def get_message_def res_count_def)
  have objs: "obj_refs ?w ob = obj_refs w ob" for ob by (simp add: obj_refs_def)
  have "refs_ok ext ?w" using ok unfolding chan_ok_def refs_ok_def refs objs heap_get_put by blast
  moreover have "heap_ok (bump ?w)"
    using h keys_ok_bump(1) [of w msg] room by (simp add: heap_ok_def endpoint_count_def)
  moreover have "quota_ok ?w"
  proof (rule quota_ok_unqueued [of w])
    show "get_message ?w m = get_message w m" if "m \<in># queued w" for m using that q by auto
    show "messages_ok ?w" using ok empty by (auto simp: chan_ok_def quota_ok_def messages_ok_def)
  qed (use ok in \<open>simp_all add: chan_ok_def heap_ok_def\<close>)
  moreover have "registry_ok ?w" using ok by (simp add: chan_ok_def registry_ok_def)
  ultimately show "chan_ok ext (bump ?w)" by (simp add: chan_ok_def)
qed

section \<open>Objects\<close>

lemma chan_ok_unref:
  assumes "chan_ok ext w" "get_object w p = None"
  shows "ext p = 0" "msg_refs w p = 0"
proof -
  have "obj_refs w p = msg_refs w p + ext p" using assms(1) by (simp add: chan_ok_def refs_ok_def)
  then show "ext p = 0" "msg_refs w p = 0" using assms(2) by (simp_all add: obj_refs_def)
qed

lemma refs_ok_new_object:
  assumes "refs_ok ext w" "get_object w p = None"
  shows "refs_ok (\<lambda>ob. hnum (Some p) ob + ext ob) (put_object p \<lparr>ko_refs = 1, ko_kind = kind\<rparr> w)"
proof -
  have m: "msg_refs (put_object p \<lparr>ko_refs = 1, ko_kind = kind\<rparr> w) ob = msg_refs w ob" for ob by (simp add: msg_refs_def)
  have r: "obj_refs w ob = msg_refs w ob + ext ob \<and> (get_object w ob \<noteq> None \<longrightarrow> 0 < obj_refs w ob)" for ob
    using assms(1) unfolding refs_ok_def by blast
  have "obj_refs w p = 0" using assms(2) by (simp add: obj_refs_def)
  then have "msg_refs w p = 0" "ext p = 0" using r [of p] by simp_all
  moreover have "obj_refs (put_object p \<lparr>ko_refs = 1, ko_kind = kind\<rparr> w) ob = (if ob = p then 1 else obj_refs w ob)" for ob
    by (simp add: obj_refs_def)
  ultimately have "obj_refs (put_object p \<lparr>ko_refs = 1, ko_kind = kind\<rparr> w) ob = msg_refs w ob + (hnum (Some p) ob + ext ob) \<and>
      (get_object (put_object p \<lparr>ko_refs = 1, ko_kind = kind\<rparr> w) ob \<noteq> None \<longrightarrow>
        0 < obj_refs (put_object p \<lparr>ko_refs = 1, ko_kind = kind\<rparr> w) ob)" for ob
    using r [of ob] by (cases "ob = p") auto
  then show ?thesis unfolding refs_ok_def m by blast
qed

lemma endpoint_count_new:
  assumes "get_object w p = None"
  shows "endpoint_count (put_object p obj w) s = (if is_endpoint_of s (p, obj) then 1 else 0) + endpoint_count w s"
  using mset_alist_new [of "kw_objects w" p obj] assms by (simp add: endpoint_count_def put_object_def get_object_def)

lemma chan_ok_new_object:
  assumes ok: "chan_ok ext w" and room: "kw_next w < 2 ^ 64"
  shows "chan_ok (\<lambda>ob. hnum (Some (kw_next w)) ob + ext ob)
    (bump (put_object (kw_next w) \<lparr>ko_refs = 1, ko_kind = ko_other ty u sg\<rparr> w))"
proof -
  have h: "heap_ok w" using ok by (simp add: chan_ok_def)
  note f = fresh_address [OF h]
  let ?obj = "\<lparr>ko_refs = 1, ko_kind = ko_other ty u sg\<rparr>"
  let ?w = "put_object (kw_next w) ?obj w"
  have cnt: "endpoint_count ?w s = endpoint_count w s" for s
    using endpoint_count_new [OF f(3), of ?obj s] by (simp add: is_endpoint_of_def)
  have "heap_ok (bump ?w)"
    using h keys_ok_bump(2) [of w ?obj] room unfolding heap_ok_def by (auto simp: cnt [simplified])
  moreover have "quota_ok ?w" using ok quota_ok_same_core [of w ?w] by (simp add: chan_ok_def same_core_def)
  moreover have "registry_ok ?w" using ok by (simp add: chan_ok_def registry_ok_def)
  ultimately show ?thesis using refs_ok_new_object [OF _ f(3), of ext] ok by (simp add: chan_ok_def)
qed

section \<open>Channel states and endpoints\<close>

lemma quota_ok_new_state:
  assumes "quota_ok w" "get_state w s = None" "state_ok w st" "st_messages st = {#}"
  shows "quota_ok (put_state s st w)" "queued (put_state s st w) = queued w"
proof -
  let ?w = "put_state s st w"
  show q: "queued ?w = queued w"
    using mset_alist_new [of "kw_states w" s st] assms(2,4) by (simp add: queued_def put_state_def get_state_def)
  have fn: "msg_bytes ?w = msg_bytes w" "msg_resources ?w = msg_resources w"
    by (simp_all add: msg_bytes_def msg_resources_def fun_eq_iff)
  have "state_ok ?w x = state_ok w x" for x by (rule state_ok_messages) simp
  then have "state_ok ?w x" if "get_state ?w t = Some x" for t x
    using that assms(1,3) by (auto simp: quota_ok_def split: if_splits)
  moreover have "messages_ok ?w" "globals_ok ?w"
    using assms(1) by (simp_all add: quota_ok_def messages_ok_def globals_ok_def q fn)
  ultimately show "quota_ok ?w" using assms(1) unfolding quota_ok_def q by simp
qed

lemma endpoint_count_none:
  assumes "heap_ok w" "\<And>ob obj side. get_object w ob = Some obj \<Longrightarrow> ko_kind obj \<noteq> ko_endpoint s side"
  shows "endpoint_count w s = 0"
proof (rule ccontr)
  assume "endpoint_count w s \<noteq> 0"
  then obtain p where p: "p \<in># filter_mset (is_endpoint_of s) (mset (kw_objects w))"
    unfolding endpoint_count_def by (metis multiset_nonemptyE size_empty)
  obtain ob obj where ob: "p = (ob, obj)" by fastforce
  have "distinct (map fst (kw_objects w))" using assms(1) by (simp add: heap_ok_def keys_ok_def)
  then have "get_object w ob = Some obj" using p ob by (simp add: get_object_def)
  moreover obtain side where "ko_kind obj = ko_endpoint s side"
    using p ob by (auto simp: is_endpoint_of_def split: object_kind.splits)
  ultimately show False using assms(2) by blast
qed

lemma endpoint_count_fresh:
  assumes "heap_ok w" "get_state w s = None"
  shows "endpoint_count w s = 0"
  by (rule endpoint_count_none [OF assms(1)]) (use heap_ok_endpoint [OF assms(1)] assms(2) in fastforce)

lemma chan_ok_new_state:
  assumes ok: "chan_ok ext w" and room: "kw_next w < 2 ^ 64"
    and st: "state_ok w st" "st_messages st = {#}" "cs_objects st = 0"
  shows "chan_ok ext (register_state (kw_next w) (bump (put_state (kw_next w) st w)))"
    "queued (register_state (kw_next w) (bump (put_state (kw_next w) st w))) = queued w"
proof -
  have h: "heap_ok w" using ok by (simp add: chan_ok_def)
  note f = fresh_address [OF h]
  let ?s = "kw_next w" let ?w = "put_state ?s st w"
  have q: "quota_ok ?w" "queued ?w = queued w" using quota_ok_new_state [OF _ f(1) st(1,2)] ok by (simp_all add: chan_ok_def)
  have cnt: "endpoint_count ?w t = endpoint_count w t" for t by (simp add: endpoint_count_def)
  have "heap_ok (bump ?w)"
    using h keys_ok_bump(3) [of w st] room st(3) endpoint_count_fresh [OF h f(1)] unfolding heap_ok_def by (auto simp: cnt)
  moreover have "refs_ok ext ?w" using ok refs_ok_frame [of ext w ?w] by (simp add: chan_ok_def)
  moreover have "registry_ok (register_state ?s ?w)"
    using ok f(1) by (auto simp: chan_ok_def registry_ok_def register_state_def)
  ultimately show "chan_ok ext (register_state ?s (bump ?w))" using q(1)
    by (simp add: chan_ok_def register_state_def)
      (simp add: registry_ok_def heap_ok_def keys_ok_def endpoint_count_def)
  show "queued (register_state ?s (bump ?w)) = queued w" using q(2) by (simp add: register_state_def)
qed

text \<open>A new endpoint object, which holds the first reference to itself.\<close>

lemma make_endpoint_ok:
  assumes ok: "chan_ok ext w" and room: "kw_next w < 2 ^ 64" and s: "get_state w s = Some st" and side: "side \<le> 1"
  defines "w' \<equiv> bump (put_object (kw_next w) \<lparr>ko_refs = 1, ko_kind = ko_endpoint s side\<rparr>
    (put_state s (endpoint_object_created st) w))"
  shows "make_endpoint s side w = Some (kw_next w, w')"
    "chan_ok (\<lambda>ob. hnum (Some (kw_next w)) ob + ext ob) w'" "queued w' = queued w"
proof -
  have h: "heap_ok w" using ok by (simp add: chan_ok_def)
  let ?e = "endpoint_object_created st" and ?obj = "\<lparr>ko_refs = 1, ko_kind = ko_endpoint s side\<rparr>"
  let ?w1 = "put_state s ?e w"
  show "make_endpoint s side w = Some (kw_next w, w')"
    using s by (simp add: make_endpoint_def on_state_def w'_def)
  have core: "same_core w ?w1" using same_core_put [OF s] keeps_core_hooks(4) by (simp add: keeps_core_def)
  have k: "keys_ok ?w1" using h keys_ok_put_state [OF _ s] by (simp add: heap_ok_def)
  have none: "get_object ?w1 (kw_next w) = None" using fresh_address(3) [OF h] by simp
  have is_ep: "is_endpoint_of t (kw_next w, ?obj) \<longleftrightarrow> t = s" for t by (auto simp: is_endpoint_of_def)
  have cnt: "endpoint_count (put_object (kw_next w) ?obj ?w1) t = (if t = s then 1 else 0) + endpoint_count w t" for t
    using endpoint_count_new [OF none, of ?obj t] unfolding is_ep by (simp add: endpoint_count_def)
  have old: "cs_objects x = of_nat (endpoint_count w t)" if "get_state w t = Some x" for t x
    using h that unfolding heap_ok_def by blast
  have "heap_ok w'"
    unfolding heap_ok_def w'_def bump_simps cnt
  proof (intro conjI allI impI)
    show "keys_ok (bump (put_object (kw_next w) ?obj ?w1))" using keys_ok_bump(2) [of ?w1] k room by simp
    fix ob obj t i
    assume "get_object (bump (put_object (kw_next w) ?obj ?w1)) ob = Some obj" "ko_kind obj = ko_endpoint t i"
    then have "(t = s \<and> i = side) \<or> (get_object w ob = Some obj \<and> ko_kind obj = ko_endpoint t i)"
      by (auto split: if_splits)
    then show "i \<le> 1" "get_state (bump (put_object (kw_next w) ?obj ?w1)) t \<noteq> None"
      using side s heap_ok_endpoint [OF h, of ob obj t i] by auto
  next
    fix t x
    assume "get_state (bump (put_object (kw_next w) ?obj ?w1)) t = Some x"
    then show "cs_objects x = of_nat ((if t = s then 1 else 0) + endpoint_count w t)"
      using old [OF s] old [of t x] by (auto simp: endpoint_object_created_def split: if_splits)
  qed
  moreover have "refs_ok (\<lambda>ob. hnum (Some (kw_next w)) ob + ext ob) w'"
    using refs_ok_new_object [OF _ none, of ext] refs_ok_frame [of ext w ?w1] ok by (simp add: w'_def chan_ok_def)
  moreover have core': "same_core ?w1 (put_object (kw_next w) ?obj ?w1)" by (simp add: same_core_def)
  then have "same_core w (put_object (kw_next w) ?obj ?w1)" using core same_core_trans by blast
  then have "quota_ok w' \<and> registry_ok w'" "queued w' = queued w"
    using ok quota_ok_same_core registry_ok_same_core same_core_queued [OF core] by (auto simp: w'_def chan_ok_def)
  ultimately show "chan_ok (\<lambda>ob. hnum (Some (kw_next w)) ob + ext ob) w'" "queued w' = queued w"
    by (simp_all add: chan_ok_def)
qed

section \<open>Creating a channel\<close>

lemma channel_state_new_ok:
  assumes "cs_valid (channel_state_new mem mm mb mr)" "mm \<noteq> 0"
  shows "state_ok w (channel_state_new mem mm mb mr)" "st_messages (channel_state_new mem mm mb mr) = {#}"
    "cs_objects (channel_state_new mem mm mb mr) = 0" "cs_claims (channel_state_new mem mm mb mr) = 0"
  using assms by (auto simp: channel_state_new_def Let_def state_ok_def queue_ok_def claims_ok_def queue_new_def
      allocate_queue_storage_def bq_new_def bq_invar_def bq_contents_def st_messages_def queue_list_def ring_contents_def
      unat_gt_0 split: if_splits)

lemma delete_unregistered:
  assumes "get_state w s = None" "\<not> cs_valid (channel_state_new mem mm mb mr)"
  shows "delete_state s (bump (put_state s (channel_state_new mem mm mb mr) w)) = Some (bump w)"
proof -
  have "bq_empty (cq_fifo (cs_queues (channel_state_new mem mm mb mr) i))" for i
    by (simp add: channel_state_new_def queue_new_def bq_new_def bq_empty_def Let_def)
  moreover have "AList.delete s (AList.update s st (kw_states w)) = kw_states w" for st
    using assms(1) by (simp add: alist_delete_update delete_notin get_state_def map_of_eq_None_iff)
  ultimately show ?thesis by (simp add: delete_state_def destroy_queue.simps) (simp add: put_state_def)
qed

text \<open>What a creation owes to the channels that exist already.\<close>

definition channels_kept :: "kworld \<Rightarrow> kworld \<Rightarrow> bool" where
  "channels_kept w w' \<longleftrightarrow> (\<forall>s. get_state w s \<noteq> None \<longrightarrow> channel_intact w w' s)"

text \<open>The objects that exist in a world and the channels they belong to.\<close>

lemma unref_new_endpoint:
  assumes ok: "chan_ok (\<lambda>ob. hnum (Some e) ob + ext ob) w" and e: "ext e = 0" "msg_refs w e = 0"
    and only: "\<And>ob obj side. get_object w ob = Some obj \<Longrightarrow> ko_kind obj = ko_endpoint s side \<Longrightarrow> ob = e"
    and obj: "get_object w e = Some \<lparr>ko_refs = 1, ko_kind = ko_endpoint s side\<rparr>"
  shows "\<exists>w'. object_unref e w = Some w' \<and> chan_ok ext w' \<and> same_core w w' \<and> endpoint_count w' s = 0 \<and>
    kw_messages w' = kw_messages w \<and> (\<forall>t. t \<noteq> s \<longrightarrow> get_state w' t = get_state w t)"
proof -
  obtain w' where w': "apply_events (snd (h_drop (Some e))) w = Some w'" "chan_ok (\<lambda>ob. 0 + ext ob) w'" "same_core w w'"
    using chan_ok_moves [OF ok ev_moves_drop] by blast
  have unref: "object_unref e w = Some w'" using w'(1) by (auto simp: h_drop_def split: bind_splits)
  have msgs: "kw_messages w' = kw_messages w" using w'(3) by (simp add: same_core_def)
  then have "obj_refs w' e = 0" using w'(2) e by (simp add: chan_ok_def refs_ok_def msg_refs_def)
  then have gone: "get_object w' e = None" using w'(2) unfolding chan_ok_def refs_ok_def by auto
  have sub: "kinds_sub w w'" using apply_events_frames [OF w'(1)] by (simp add: h_drop_def)
  have "endpoint_count w' s = 0"
  proof (rule endpoint_count_none)
    show "heap_ok w'" using w'(2) by (simp add: chan_ok_def)
    fix ob obj side
    assume "get_object w' ob = Some obj"
    with sub gone only show "ko_kind obj \<noteq> ko_endpoint s side" unfolding kinds_sub_def by (metis option.distinct(1) option.inject)
  qed
  moreover have "\<forall>t. t \<noteq> s \<longrightarrow> get_state w' t = get_state w t"
    using unref obj by (auto simp: object_unref_def destroy_object_def endpoint_hook_def on_state_def
        split: bind_splits if_splits)
  ultimately show ?thesis using unref w'(2,3) msgs by auto
qed

abbreviation options_in_range :: "na_channel_options \<Rightarrow> bool" where
  "options_in_range opts \<equiv> \<not> (op_max_messages opts > NA_CHANNEL_MAX_MESSAGES \<or>
     op_max_bytes opts > NA_CHANNEL_MAX_MESSAGE_BYTES * 16 \<or> op_max_resources opts > NA_CHANNEL_DEFAULT_MAX_RESOURCES)"

abbreviation state_for :: "(alloc_site \<Rightarrow> bool) \<Rightarrow> na_channel_options \<Rightarrow> channel_state" where
  "state_for mem opts \<equiv> channel_state_new mem (op_max_messages opts) (op_max_bytes opts) (op_max_resources opts)"

definition create_succeeds :: "(alloc_site \<Rightarrow> bool) \<Rightarrow> na_channel_options \<Rightarrow> bool" where
  "create_succeeds mem opts \<longleftrightarrow> options_in_range opts \<and> mem A_state \<and> cs_valid (state_for mem opts) \<and>
     mem (A_endpoint 0) \<and> mem (A_endpoint 1)"

text \<open>The world with a new channel at address \<open>n\<close> and its two endpoints behind it.\<close>

definition created :: "channel_state \<Rightarrow> kworld \<Rightarrow> kworld \<Rightarrow> bool" where
  "created st w w' \<longleftrightarrow> (let n = kw_next w in
     endpoint_of w' (n + 1) = Some (n, 0) \<and> endpoint_of w' (n + 2) = Some (n, 1) \<and>
     get_state w' n = Some (st\<lparr>cs_objects := 2\<rparr>) \<and> (\<forall>t. t \<noteq> n \<longrightarrow> get_state w' t = get_state w t) \<and>
     kw_messages w' = kw_messages w \<and> kw_globals w' = kw_globals w \<and> queued w' = queued w \<and> kw_next w' = n + 3 \<and>
     (\<forall>ob. ob \<noteq> n + 1 \<longrightarrow> ob \<noteq> n + 2 \<longrightarrow> get_object w' ob = get_object w ob))"

lemma created_kept:
  assumes "created st w w'" "chan_ok ext w"
  shows "channels_kept w w'"
proof -
  have "get_state w (kw_next w) = None" using assms(2) fresh_address(1) by (simp add: chan_ok_def)
  moreover have "get_message w' m = get_message w m" for m
    using assms(1) by (simp add: created_def get_message_def Let_def)
  moreover have "get_state w' t = get_state w t" if "t \<noteq> kw_next w" for t
    using assms(1) that by (simp add: created_def Let_def)
  ultimately have "get_state w' t = Some x" if "get_state w t = Some x" for t x using that by (cases "t = kw_next w") auto
  with \<open>\<And>m. get_message w' m = get_message w m\<close> show ?thesis
    by (auto simp: channels_kept_def channel_intact_def reap_same_def)
qed

lemma register_state_simps [simp]:
  "get_state (register_state s w) t = get_state w t" "get_object (register_state s w) ob = get_object w ob"
  "get_message (register_state s w) m = get_message w m" "kw_next (register_state s w) = kw_next w"
  "kw_messages (register_state s w) = kw_messages w" "kw_globals (register_state s w) = kw_globals w"
  "msg_refs (register_state s w) ob = msg_refs w ob"
  by (simp_all add: register_state_def msg_refs_def)

lemma create_channel_success:
  assumes ok: "chan_ok ext w" and room: "kw_next w + 3 \<le> 2 ^ 64" and mm: "op_max_messages opts \<noteq> 0"
    and mem: "create_succeeds mem opts"
  shows "\<exists>w'. create_raw_channel_with_options mem opts w =
      Some (NA_STATUS_OK, Some (kw_next w + 1), Some (kw_next w + 2), w') \<and>
    chan_ok (\<lambda>ob. hnum (Some (kw_next w + 1)) ob + hnum (Some (kw_next w + 2)) ob + ext ob) w' \<and>
    created (state_for mem opts) w w'"
proof -
  let ?st = "state_for mem opts" and ?n = "kw_next w"
  have valid: "cs_valid ?st" using mem by (simp add: create_succeeds_def)
  note st = channel_state_new_ok [OF valid mm]
  define w2 where "w2 = register_state ?n (bump (put_state ?n ?st w))"
  have w2: "chan_ok ext w2" "kw_next w2 = ?n + 1" "get_state w2 ?n = Some ?st" "queued w2 = queued w"
    using chan_ok_new_state [OF ok _ st(1-3)] room by (simp_all add: w2_def)
  note e0 = make_endpoint_ok [OF w2(1) _ w2(3), of 0]
  define w3 where "w3 = bump (put_object (kw_next w2) \<lparr>ko_refs = 1, ko_kind = ko_endpoint ?n 0\<rparr>
    (put_state ?n (endpoint_object_created ?st) w2))"
  have w3: "make_endpoint ?n 0 w2 = Some (?n + 1, w3)" "chan_ok (\<lambda>ob. hnum (Some (?n + 1)) ob + ext ob) w3"
      "kw_next w3 = ?n + 2" "get_state w3 ?n = Some (endpoint_object_created ?st)" "queued w3 = queued w"
    using e0 room w2(2,4) by (simp_all add: w3_def)
  note e1 = make_endpoint_ok [OF w3(2) _ w3(4), of 1]
  define w4 where "w4 = bump (put_object (kw_next w3) \<lparr>ko_refs = 1, ko_kind = ko_endpoint ?n 1\<rparr>
    (put_state ?n (endpoint_object_created (endpoint_object_created ?st)) w3))"
  have w4: "make_endpoint ?n 1 w3 = Some (?n + 2, w4)"
      "chan_ok (\<lambda>ob. hnum (Some (?n + 2)) ob + (hnum (Some (?n + 1)) ob + ext ob)) w4" "queued w4 = queued w"
    using e1 room w3(3,5) by (simp_all add: w4_def)
  have "created ?st w w4"
    using w4(3) st(3) by (auto simp: created_def w4_def w3_def w2_def endpoint_of_def endpoint_object_created_def Let_def)
  moreover have "create_raw_channel_with_options mem opts w = Some (NA_STATUS_OK, Some (?n + 1), Some (?n + 2), w4)"
    using mem w3(1) w4(1) by (simp add: create_raw_channel_with_options_def create_succeeds_def Let_def w2_def)
  moreover have "(\<lambda>ob. hnum (Some (?n + 1)) ob + hnum (Some (?n + 2)) ob + ext ob) =
      (\<lambda>ob. hnum (Some (?n + 2)) ob + (hnum (Some (?n + 1)) ob + ext ob))" by (simp add: fun_eq_iff)
  ultimately show ?thesis using w4(2) by (simp only: exI conjI)
qed

text \<open>A creation that fails leaves no channel and no object behind.\<close>

lemma delete_failed_channel:
  assumes ok: "chan_ok ext w" and st: "get_state w s = Some st" "cs_claims st = 0" "endpoint_count w s = 0"
    and old: "\<And>t. t \<noteq> s \<Longrightarrow> get_state v t = get_state w t" "kw_messages w = kw_messages v" "get_state v s = None"
  shows "\<exists>w'. delete_state s (unregister_state s w) = Some w' \<and> chan_ok ext w' \<and> channels_kept v w' \<and>
    (\<forall>t. get_state w' t = None \<longleftrightarrow> get_state v t = None)"
proof -
  obtain w' where w': "delete_state s (unregister_state s w) = Some w'" "chan_ok ext w'" "deletes {s} w w'"
    using delete_state_ok [OF ok st] by blast
  have none: "get_state w' t = None \<longleftrightarrow> get_state v t = None" for t
    using deletes_none [OF w'(3), of t] old by (cases "t = s") auto
  have "channel_intact v w' t" if "get_state v t \<noteq> None" for t
  proof -
    from that obtain x where "get_state v t = Some x" by blast
    moreover from this none [of t] obtain y where "get_state w' t = Some y" by (cases "get_state w' t") auto
    ultimately have x: "get_state v t = Some x" "get_state w' t = Some y" by simp_all
    have "t \<noteq> s" using that old(3) by auto
    then have "get_state w t = Some x" using x(1) old(1) by simp
    then have "reap_same x y \<and> cs_core y = cs_core x \<and> (\<forall>m \<in># st_messages x. get_message w' m = get_message w m)"
      using w'(3) x(2) unfolding deletes_def by blast
    then show ?thesis using x old(2) by (simp add: channel_intact_def get_message_def)
  qed
  with w' none show ?thesis by (auto simp: channels_kept_def)
qed

lemma endpoint_failure:
  assumes ok: "chan_ok ext w" and room: "kw_next w + 3 \<le> 2 ^ 64" and mm: "op_max_messages opts \<noteq> 0"
    and valid: "cs_valid (state_for mem opts)" and side: "side \<le> 1"
  defines "w2 \<equiv> register_state (kw_next w) (bump (put_state (kw_next w) (state_for mem opts) w))"
  shows "\<exists>w'. delete_state (kw_next w) (unregister_state (kw_next w) w2) = Some w' \<and> chan_ok ext w' \<and>
      channels_kept w w' \<and> (\<forall>t. get_state w' t = None \<longleftrightarrow> get_state w t = None)"
    "\<exists>e w3 w5 w'. make_endpoint (kw_next w) side w2 = Some (e, w3) \<and> object_unref e w3 = Some w5 \<and>
      delete_state (kw_next w) (unregister_state (kw_next w) w5) = Some w' \<and> chan_ok ext w' \<and>
      channels_kept w w' \<and> (\<forall>t. get_state w' t = None \<longleftrightarrow> get_state w t = None)"
proof -
  let ?st = "state_for mem opts" and ?n = "kw_next w"
  note st = channel_state_new_ok [OF valid mm]
  have h: "heap_ok w" using ok by (simp add: chan_ok_def)
  note f = fresh_address [OF h]
  have w2: "chan_ok ext w2" "kw_next w2 = ?n + 1" "get_state w2 ?n = Some ?st"
    using chan_ok_new_state [OF ok _ st(1-3)] room by (simp_all add: w2_def)
  have cnt: "endpoint_count w2 ?n = 0" using endpoint_count_fresh [OF h f(1)] by (simp add: w2_def endpoint_count_def register_state_def)
  show "\<exists>w'. delete_state ?n (unregister_state ?n w2) = Some w' \<and> chan_ok ext w' \<and>
      channels_kept w w' \<and> (\<forall>t. get_state w' t = None \<longleftrightarrow> get_state w t = None)"
    by (rule delete_failed_channel [OF w2(1,3) st(4) cnt]) (simp_all add: w2_def f(1))
  let ?e = "?n + 1"
  define w3 where "w3 = bump (put_object (kw_next w2) \<lparr>ko_refs = 1, ko_kind = ko_endpoint ?n side\<rparr>
    (put_state ?n (endpoint_object_created ?st) w2))"
  have w3: "make_endpoint ?n side w2 = Some (?e, w3)" "chan_ok (\<lambda>ob. hnum (Some ?e) ob + ext ob) w3"
    using make_endpoint_ok [OF w2(1) _ w2(3) side] room w2(2) by (simp_all add: w3_def)
  have none: "get_object w2 ?e = None" using fresh_address(3) [of w2] w2(1,2) by (simp add: chan_ok_def)
  have e: "ext ?e = 0" "msg_refs w3 ?e = 0"
    using chan_ok_unref [OF w2(1) none] by (simp_all add: w3_def msg_refs_def)
  have only: "ob = ?e" if "get_object w3 ob = Some obj" "ko_kind obj = ko_endpoint ?n i" for ob obj i
    using that heap_ok_endpoint [OF h, of ob obj ?n i] f(1) w2(2) by (auto simp: w3_def w2_def split: if_splits)
  have obj: "get_object w3 ?e = Some \<lparr>ko_refs = 1, ko_kind = ko_endpoint ?n side\<rparr>" using w2(2) by (simp add: w3_def)
  obtain w5 where w5: "object_unref ?e w3 = Some w5" "chan_ok ext w5" "same_core w3 w5" "endpoint_count w5 ?n = 0"
      "kw_messages w5 = kw_messages w3" "\<forall>t. t \<noteq> ?n \<longrightarrow> get_state w5 t = get_state w3 t"
    using unref_new_endpoint [OF w3(2) e _ obj] only by blast
  have "get_state w3 ?n = Some (endpoint_object_created ?st)" by (simp add: w3_def)
  then obtain st5 where st5: "get_state w5 ?n = Some st5" "cs_core st5 = cs_core (endpoint_object_created ?st)"
    using same_core_get [OF w5(3), of ?n] by (cases "get_state w5 ?n") auto
  have "cs_claims st5 = 0" using arg_cong [OF st5(2), of cs_claims] st(4) by (simp add: endpoint_object_created_def)
  then have "\<exists>w'. delete_state ?n (unregister_state ?n w5) = Some w' \<and> chan_ok ext w' \<and>
      channels_kept w w' \<and> (\<forall>t. get_state w' t = None \<longleftrightarrow> get_state w t = None)"
    by (rule delete_failed_channel [OF w5(2) st5(1) _ w5(4)]) (use w5(5,6) f(1) in \<open>simp_all add: w3_def w2_def\<close>)
  with w3(1) w5(1) show "\<exists>e w3 w5 w'. make_endpoint ?n side w2 = Some (e, w3) \<and> object_unref e w3 = Some w5 \<and>
      delete_state ?n (unregister_state ?n w5) = Some w' \<and> chan_ok ext w' \<and>
      channels_kept w w' \<and> (\<forall>t. get_state w' t = None \<longleftrightarrow> get_state w t = None)" by blast
qed

lemma channels_kept_next: "channels_kept w (w\<lparr>kw_next := i\<rparr>)"
  by (simp add: channels_kept_def channel_intact_def reap_same_def)

lemma create_channel_failure:
  assumes ok: "chan_ok ext w" and room: "kw_next w + 3 \<le> 2 ^ 64" and mm: "op_max_messages opts \<noteq> 0"
    and mem: "\<not> create_succeeds mem opts"
  shows "\<exists>status w'. create_raw_channel_with_options mem opts w = Some (status, None, None, w') \<and> status \<noteq> NA_STATUS_OK \<and>
    chan_ok ext w' \<and> channels_kept w w' \<and> (\<forall>t. get_state w' t = None \<longleftrightarrow> get_state w t = None)"
proof (cases "options_in_range opts \<and> mem A_state \<and> cs_valid (state_for mem opts)")
  case False
  have h: "heap_ok w" using ok by (simp add: chan_ok_def)
  note f = fresh_address [OF h]
  have kept: "channels_kept w w" by (simp add: channels_kept_def channel_intact_refl)
  from False consider "\<not> options_in_range opts" | "options_in_range opts" "\<not> mem A_state"
    | "options_in_range opts" "mem A_state" "\<not> cs_valid (state_for mem opts)" by blast
  then show ?thesis
  proof cases
    case 3
    have "create_raw_channel_with_options mem opts w = Some (NA_STATUS_RESOURCE_EXHAUSTED, None, None, bump w)"
      using 3 delete_unregistered [OF f(1) 3(3)] by (simp add: create_raw_channel_with_options_def Let_def)
    then show ?thesis using chan_ok_bump [OF ok] room channels_kept_next [of w "kw_next w + 1"] by auto
  qed (use ok kept in \<open>auto simp: create_raw_channel_with_options_def Let_def\<close>)
next
  case True
  let ?n = "kw_next w"
  let ?w = "register_state ?n (bump (put_state ?n (state_for mem opts) w))"
  have valid: "cs_valid (state_for mem opts)" using True by simp
  note ef = endpoint_failure [OF ok room mm valid]
  obtain w' where w': "delete_state ?n (unregister_state ?n ?w) = Some w'" "chan_ok ext w'" "channels_kept w w'"
      "\<forall>t. get_state w' t = None \<longleftrightarrow> get_state w t = None"
    using ef(1) [of 0] by auto
  consider "\<not> mem (A_endpoint 0)" "\<not> mem (A_endpoint 1)" | "mem (A_endpoint 0)" "\<not> mem (A_endpoint 1)"
    | "\<not> mem (A_endpoint 0)" "mem (A_endpoint 1)" using mem True by (auto simp: create_succeeds_def)
  then show ?thesis
  proof cases
    case 1
    then show ?thesis using True w' by (simp add: create_raw_channel_with_options_def Let_def)
  next
    case 2
    obtain e w3 w5 w' where "make_endpoint ?n 0 ?w = Some (e, w3)" "object_unref e w3 = Some w5"
      "delete_state ?n (unregister_state ?n w5) = Some w'" "chan_ok ext w'" "channels_kept w w'"
      "\<forall>t. get_state w' t = None \<longleftrightarrow> get_state w t = None" using ef(2) [of 0] by auto
    then show ?thesis using True 2 by (simp add: create_raw_channel_with_options_def Let_def)
  next
    case 3
    obtain e w3 w5 w' where "make_endpoint ?n 1 ?w = Some (e, w3)" "object_unref e w3 = Some w5"
      "delete_state ?n (unregister_state ?n w5) = Some w'" "chan_ok ext w'" "channels_kept w w'"
      "\<forall>t. get_state w' t = None \<longleftrightarrow> get_state w t = None" using ef(2) [of 1] by auto
    then show ?thesis using True 3 by (simp add: create_raw_channel_with_options_def Let_def)
  qed
qed

end
