(* ===== verification/Channel_Reach.thy ===== *)
theory Channel_Reach
  imports Channel_New
begin

text \<open>
  The channels under any sequence of operations of their holders: creation of channels and
  objects, allocation and deletion of messages, hooks and reference counts of handles, sending,
  claiming, cancelling, committing and discarding, operation counters and the collector.
  \<open>chan_reach H w\<close>: the world \<open>w\<close> can arise when the holders outside the messages have \<open>H ob\<close>
  references to each object. An operation on an endpoint asks only that a reference to it is
  held; deleting or sending a message asks that it is not in a queue.
\<close>

section \<open>One operation\<close>

lemma notify_simps [simp]:
  "queued (notify_channel_waiters w) = queued w" "get_message (notify_channel_waiters w) m = get_message w m"
  "get_state (notify_channel_waiters w) s = get_state w s" "kw_messages (notify_channel_waiters w) = kw_messages w"
  "get_object (notify_channel_waiters w) ob = get_object w ob"
  by (simp_all add: notify_channel_waiters_def)

lemma claim_receive_ok:
  assumes "chan_ok ext w" "get_state w s = Some st" "side \<le> 1"
  shows "\<exists>status m w'. claim_receive s side w = Some (status, m, w') \<and> chan_ok ext w' \<and> queued w' = queued w"
proof -
  note eq = claim_receive_eq [OF chan_ok_state [OF assms(1,2)] assms(2,3)]
  show ?thesis
  proof (cases "queue_list st side = [] \<or> side_claimed st side")
    case False
    then have ok: "chan_ok ext (put_state s (set_claim True side st) w)"
      by (intro chan_ok_set_claim [OF assms]) auto
    obtain R where "queued w = st_messages st + R" "\<And>st'. queued (put_state s st' w) = st_messages st' + R"
      using queued_split [of w s st] assms(1,2) by (auto simp: chan_ok_def heap_ok_def)
    then have "queued (put_state s (set_claim True side st) w) = queued w" by (simp add: st_messages_def)
    with False ok show ?thesis unfolding eq by simp
  qed (use assms(1) in \<open>auto simp: eq\<close>)
qed

lemma cancel_receive_ok:
  assumes "chan_ok ext w" "get_state w s = Some st" "side \<le> 1"
  shows "\<exists>b w'. cancel_receive s side m w = Some (b, w') \<and> chan_ok ext w'"
proof (cases "m = 0")
  case True
  then show ?thesis using assms by (auto simp: cancel_receive_def)
next
  case False
  have sok: "state_ok w st" by (rule chan_ok_state [OF assms(1,2)])
  note eq = cancel_receive_eq [OF sok assms(2,3) False]
  show ?thesis
  proof (cases "side_claimed st side \<and> hd (queue_list st side) = m")
    case True
    then have "chan_ok ext (put_state s (set_claim False side st) w)"
      using queue_facts(3) [OF sok assms(3)] by (intro chan_ok_set_claim [OF assms]) auto
    with True show ?thesis unfolding eq by auto
  qed (use assms(1) in \<open>auto simp: eq\<close>)
qed

lemma commit_receive_ok:
  assumes "chan_ok ext w" "get_state w s = Some st" "side \<le> 1"
  shows "\<exists>b w'. commit_receive s side m w = Some (b, w') \<and> chan_ok ext w' \<and>
    (b \<longrightarrow> get_message w m \<noteq> None \<and> m \<notin># queued w' \<and> queued w' + {#m#} = queued w \<and> kw_messages w' = kw_messages w) \<and>
    (\<not> b \<longrightarrow> w' = w) \<and> (b \<longleftrightarrow> side_claimed st side \<and> hd (queue_list st side) = m)"
proof -
  have sok: "state_ok w st" by (rule chan_ok_state [OF assms(1,2)])
  have v: "cs_valid st" using sok by (simp add: state_ok_def)
  show ?thesis
  proof (cases "side_claimed st side \<and> hd (queue_list st side) = m")
    case True
    then obtain ms where q: "queue_list st side = m # ms"
      using queue_facts(3) [OF sok assms(3)] by (cases "queue_list st side") auto
    then obtain msg where msg: "get_message w m = Some msg" "m \<noteq> 0" using queued_message [OF assms] by (metis list.set_intros(1))
    let ?w = "release_message msg (put_state s (pop_state True side msg st) w)"
    have pop: "chan_ok ext ?w" "queued ?w + {#m#} = queued w"
      using pop_state_ok(1,2) [OF assms q _ msg(1), of True] True by simp_all
    have "count (queued w) m \<le> 1" using assms(1) by (simp add: chan_ok_def quota_ok_def)
    then have "m \<notin># queued ?w" using arg_cong [OF pop(2), of "\<lambda>M. count M m"] by (simp add: not_in_iff)
    then show ?thesis
      using True pop msg(1) commit_receive_eq [OF sok assms(2,3) msg(2,1)] by auto
  next
    case False
    have "commit_receive s side m w = Some (False, w)"
      using assms(2,3) v False queue_facts(3,4) [OF sok assms(3)] by (auto simp: commit_receive_def Let_def)
    with False assms(1) show ?thesis by simp
  qed
qed

lemma state_discard_ok:
  assumes "chan_ok ext w" "get_state w s = Some st" "side \<le> 1"
  shows "\<exists>b m w'. state_discard s side w = Some (b, m, w') \<and> chan_ok ext w' \<and>
    (b \<longrightarrow> get_message w' m \<noteq> None \<and> m \<notin># queued w') \<and> (\<not> b \<longrightarrow> w' = w)"
proof -
  have sok: "state_ok w st" by (rule chan_ok_state [OF assms(1,2)])
  show ?thesis
  proof (cases "queue_list st side \<noteq> [] \<and> \<not> side_claimed st side")
    case True
    then obtain m ms where q: "queue_list st side = m # ms" by (cases "queue_list st side") auto
    then obtain msg where msg: "get_message w m = Some msg" using queued_message [OF assms] by (metis list.set_intros(1))
    let ?w = "release_message msg (put_state s (pop_state False side msg st) w)"
    have pop: "chan_ok ext ?w" "queued ?w + {#m#} = queued w"
      using pop_state_ok(1,2) [OF assms q _ msg, of False] True by simp_all
    have "count (queued w) m \<le> 1" using assms(1) by (simp add: chan_ok_def quota_ok_def)
    then have "m \<notin># queued ?w" using arg_cong [OF pop(2), of "\<lambda>M. count M m"] by (simp add: not_in_iff)
    then show ?thesis
      using True q pop msg state_discard_eq [OF sok assms(2,3), of msg] by auto
  next
    case False
    then have "state_discard s side w = Some (False, 0, w)"
      using state_discard_eq [OF sok assms(2,3), of undefined] queued_message [OF assms] sok assms(2,3)
        queue_facts(2) [OF sok assms(3)]
      by (auto simp: state_discard_def Let_def bq_claim_front_def state_ok_def)
    with assms(1) show ?thesis by auto
  qed
qed

lemma res_count_move_out [simp]: "res_count ob (map (rec_resource \<circ> move_out) rs) = 0"
  by (simp add: res_count_def filter_map comp_def move_out_def tr_move_def)

lemma enqueue_kernel_ok:
  assumes ok: "chan_ok (\<lambda>ob. res_count ob (map rec_resource records) + ext ob) w"
    and st: "get_state w s = Some st" and m: "get_message w m = Some msg" "m \<notin># queued w"
    and r: "side \<le> 1" "length records < 2 ^ 64"
  shows "\<exists>status records' w'. enqueue_kernel s side m records limit w = Some (status, records', w') \<and>
    chan_ok (\<lambda>ob. res_count ob (map rec_resource records') + ext ob) w' \<and>
    (if status = NA_STATUS_OK then records' = map move_out records \<and> queued w' = queued w + {#m#}
     else records' = records \<and> w' = w)"
proof -
  note eq = enqueue_kernel_eq [OF ok st m(1) r(2,1), of limit]
  show ?thesis
  proof (cases "enqueue_refused side msg records st = None \<and> cs_owners st (1 - side) \<noteq> 0 \<and>
      \<not> (limit \<noteq> 0 \<and> of_nat (bq_count (cq_fifo (cs_queues st (1 - side)))) \<ge> limit) \<and>
      channel_room st (1 - side) (cm_byte_count msg) (length records) \<and>
      global_room (cm_byte_count msg) (record_count records) (kw_globals w)")
    case True
    then have none: "enqueue_refused side msg records st = None" by simp
    have len: "length (cm_resources msg) \<le> unat (cm_resource_capacity msg)"
      using ok m(1) by (simp add: chan_ok_def quota_ok_def messages_ok_def)
    note fit = enqueue_refused_None [OF none r(2) len]
    have "chan_ok ext (accept_message s (1 - side) m records msg st w)"
      "queued (accept_message s (1 - side) m records msg st w) = queued w + {#m#}"
      using accept_message_ok(1,2) [OF ok st m _ r(2) fit(2,3)] True by auto
    then show ?thesis unfolding eq using True by auto
  next
    case False
    then show ?thesis unfolding eq using ok by (auto split: option.splits simp: enqueue_refused_def split: if_splits)
  qed
qed

section \<open>Reachable worlds\<close>

definition kworld_empty :: kworld where
  "kworld_empty = \<lparr>kw_states = [], kw_messages = [], kw_objects = [], kw_registry = [],
     kw_globals = \<lparr>g_messages = 0, g_bytes = 0, g_resources = 0\<rparr>, kw_generation = 0, kw_next = 1\<rparr>"

text \<open>A holder has a reference to the endpoint \<open>ob\<close>, which is side \<open>side\<close> of the channel \<open>s\<close>.\<close>

definition holds_endpoint :: "(oid \<Rightarrow> nat) \<Rightarrow> kworld \<Rightarrow> oid \<Rightarrow> sptr \<Rightarrow> nat \<Rightarrow> bool" where
  "holds_endpoint H w ob s side \<longleftrightarrow> 0 < H ob \<and> endpoint_of w ob = Some (s, side)"

inductive chan_reach :: "(oid \<Rightarrow> nat) \<Rightarrow> kworld \<Rightarrow> bool" where
  reach_init: "chan_reach (\<lambda>_. 0) kworld_empty"
| reach_create: "chan_reach H w \<Longrightarrow> kw_next w + 3 \<le> 2 ^ 64 \<Longrightarrow>
    create_raw_channel_kernel mem options w = Some (status, l, r, w') \<Longrightarrow>
    chan_reach (\<lambda>ob. hnum l ob + hnum r ob + H ob) w'"
| reach_object: "chan_reach H w \<Longrightarrow> kw_next w < 2 ^ 64 \<Longrightarrow>
    chan_reach (\<lambda>ob. hnum (Some (kw_next w)) ob + H ob)
      (bump (put_object (kw_next w) \<lparr>ko_refs = 1, ko_kind = ko_other ty u sg\<rparr> w))"
| reach_message: "chan_reach H w \<Longrightarrow> kw_next w < 2 ^ 64 \<Longrightarrow>
    chan_reach H (bump (put_message (kw_next w) (message_new bytes_ok storage_ok byte_count n) w))"
| reach_delete: "chan_reach H w \<Longrightarrow> get_message w m \<noteq> None \<Longrightarrow> m \<notin># queued w \<Longrightarrow> delete_message m w = Some w' \<Longrightarrow>
    chan_reach H w'"
| reach_events: "chan_reach H w \<Longrightarrow> ext_events es H = Some H' \<Longrightarrow> apply_events es w = Some w' \<Longrightarrow> chan_reach H' w'"
| reach_send: "chan_reach (\<lambda>ob. res_count ob (map rec_resource records) + H ob) w \<Longrightarrow>
    holds_endpoint (\<lambda>ob. res_count ob (map rec_resource records) + H ob) w ob s side \<Longrightarrow>
    get_message w m \<noteq> None \<Longrightarrow> m \<notin># queued w \<Longrightarrow> length records < 2 ^ 64 \<Longrightarrow>
    enqueue_kernel s side m records limit w = Some (status, records', w') \<Longrightarrow>
    chan_reach (\<lambda>ob. res_count ob (map rec_resource records') + H ob) w'"
| reach_claim: "chan_reach H w \<Longrightarrow> holds_endpoint H w ob s side \<Longrightarrow> claim_receive s side w = Some (status, m, w') \<Longrightarrow>
    chan_reach H w'"
| reach_cancel: "chan_reach H w \<Longrightarrow> holds_endpoint H w ob s side \<Longrightarrow> cancel_receive s side m w = Some (b, w') \<Longrightarrow>
    chan_reach H w'"
| reach_commit: "chan_reach H w \<Longrightarrow> holds_endpoint H w ob s side \<Longrightarrow> commit_receive s side m w = Some (b, w') \<Longrightarrow>
    chan_reach H w'"
| reach_discard: "chan_reach H w \<Longrightarrow> holds_endpoint H w ob s side \<Longrightarrow> state_discard s side w = Some (b, m, w') \<Longrightarrow>
    chan_reach H w'"
| reach_begin: "chan_reach H w \<Longrightarrow> holds_endpoint H w ob s side \<Longrightarrow> on_state s begin_operation w = Some w' \<Longrightarrow>
    chan_reach H w'"
| reach_end: "chan_reach H w \<Longrightarrow> holds_endpoint H w ob s side \<Longrightarrow> on_state s end_operation w = Some w' \<Longrightarrow>
    chan_reach H w'"
| reach_collect: "chan_reach H w \<Longrightarrow> collect_orphaned_channels mem w = Some w' \<Longrightarrow> chan_reach H w'"

lemma chan_ok_empty: "chan_ok (\<lambda>_. 0) kworld_empty"
  by (simp add: chan_ok_def heap_ok_def keys_ok_def refs_ok_def quota_ok_def registry_ok_def kworld_empty_def
      get_object_def get_state_def get_message_def obj_refs_def msg_refs_def messages_ok_def globals_ok_def queued_def)

lemma holds_endpoint_state:
  assumes "chan_ok H w" "holds_endpoint H w ob s side"
  obtains st where "get_state w s = Some st" "side \<le> 1"
proof -
  obtain obj where "get_object w ob = Some obj" "ko_kind obj = ko_endpoint s side"
    using assms(2) by (auto simp: holds_endpoint_def endpoint_of_def split: option.splits object_kind.splits)
  with assms(1) heap_ok_endpoint [of w ob obj s side] that show ?thesis by (auto simp: chan_ok_def)
qed

lemma create_kernel_ok:
  assumes "chan_ok ext w" "kw_next w + 3 \<le> 2 ^ 64"
  shows "\<exists>status l r w'. create_raw_channel_kernel mem options w = Some (status, l, r, w') \<and>
    chan_ok (\<lambda>ob. hnum l ob + hnum r ob + ext ob) w' \<and> channels_kept w w' \<and>
    (status = NA_STATUS_OK \<longleftrightarrow> l \<noteq> None) \<and> (l = None \<longleftrightarrow> r = None)"
proof -
  have mm: "op_max_messages (fill_options x) \<noteq> 0" for x by (simp add: fill_options_def NA_CHANNEL_DEFAULT_MAX_MESSAGES_def)
  have "\<exists>status l r w'. create_raw_channel_with_options mem (fill_options x) w = Some (status, l, r, w') \<and>
    chan_ok (\<lambda>ob. hnum l ob + hnum r ob + ext ob) w' \<and> channels_kept w w' \<and>
    (status = NA_STATUS_OK \<longleftrightarrow> l \<noteq> None) \<and> (l = None \<longleftrightarrow> r = None)" for x
  proof (cases "create_succeeds mem (fill_options x)")
    case True
    from create_channel_success [OF assms mm True] obtain w' where
      "create_raw_channel_with_options mem (fill_options x) w = Some (NA_STATUS_OK, Some (kw_next w + 1), Some (kw_next w + 2), w')"
      "chan_ok (\<lambda>ob. hnum (Some (kw_next w + 1)) ob + hnum (Some (kw_next w + 2)) ob + ext ob) w'" "channels_kept w w'"
      using created_kept [OF _ assms(1)] by blast
    then show ?thesis by auto
  next
    case False
    from create_channel_failure [OF assms mm False] obtain status w' where
      "create_raw_channel_with_options mem (fill_options x) w = Some (status, None, None, w')" "status \<noteq> NA_STATUS_OK"
      "chan_ok ext w'" "channels_kept w w'" by blast
    then show ?thesis by auto
  qed
  moreover have "channels_kept w w" by (simp add: channels_kept_def channel_intact_refl)
  ultimately show ?thesis using assms(1) by (auto simp: create_raw_channel_kernel_def split: option.splits)
qed

lemma operation_counter_ok:
  assumes "chan_ok ext w" "get_state w s = Some st"
  shows "\<exists>w'. on_state s begin_operation w = Some w' \<and> chan_ok ext w'"
    "\<exists>w'. on_state s end_operation w = Some w' \<and> chan_ok ext w'"
proof -
  have ok: "state_ok w st" by (rule chan_ok_state [OF assms])
  have *: "chan_ok ext (put_state s (st\<lparr>cs_operations := n\<rparr>) w)" for n
    by (rule chan_ok_same_messages [OF assms])
      (use ok in \<open>simp_all add: st_messages_def queue_list_def state_ok_def queue_ok_def claims_ok_def\<close>)
  show "\<exists>w'. on_state s begin_operation w = Some w' \<and> chan_ok ext w'"
    "\<exists>w'. on_state s end_operation w = Some w' \<and> chan_ok ext w'"
    using assms(2) * by (simp_all add: on_state_def begin_operation_def end_operation_def)
qed

lemma chan_reach_ok: "chan_reach H w \<Longrightarrow> chan_ok H w"
proof (induction rule: chan_reach.induct)
  case reach_init
  show ?case by (rule chan_ok_empty)
next
  case (reach_create H w mem options status l r w')
  with create_kernel_ok [OF reach_create.IH reach_create.hyps(2), of mem options] show ?case by auto
next
  case (reach_object H w ty u sg)
  then show ?case using chan_ok_new_object by blast
next
  case (reach_message H w bytes_ok storage_ok byte_count n)
  then show ?case using chan_ok_new_message(1) by (simp add: message_new_def)
next
  case (reach_delete H w m w')
  with chan_ok_delete_message [OF reach_delete.IH reach_delete.hyps(2,3)] show ?case by auto
next
  case (reach_events H w es H' w')
  with chan_ok_events [OF reach_events.IH reach_events.hyps(2)] show ?case by auto
next
  case (reach_send records H w ob s side m limit status records' w')
  from holds_endpoint_state [OF reach_send.IH reach_send.hyps(2)] obtain st where st: "get_state w s = Some st" "side \<le> 1" .
  obtain msg where "get_message w m = Some msg" using reach_send.hyps(3) by blast
  from enqueue_kernel_ok [OF reach_send.IH st(1) this reach_send.hyps(4) st(2) reach_send.hyps(5), of limit]
    reach_send.hyps(6) show ?case by auto
next
  case (reach_claim H w ob s side status m w')
  from holds_endpoint_state [OF reach_claim.IH reach_claim.hyps(2)] obtain st where st: "get_state w s = Some st" "side \<le> 1" .
  with claim_receive_ok [OF reach_claim.IH st] reach_claim.hyps(3) show ?case by auto
next
  case (reach_cancel H w ob s side m b w')
  from holds_endpoint_state [OF reach_cancel.IH reach_cancel.hyps(2)] obtain st where st: "get_state w s = Some st" "side \<le> 1" .
  with cancel_receive_ok [OF reach_cancel.IH st, of m] reach_cancel.hyps(3) show ?case by auto
next
  case (reach_commit H w ob s side m b w')
  from holds_endpoint_state [OF reach_commit.IH reach_commit.hyps(2)] obtain st where st: "get_state w s = Some st" "side \<le> 1" .
  with commit_receive_ok [OF reach_commit.IH st, of m] reach_commit.hyps(3) show ?case by auto
next
  case (reach_discard H w ob s side b m w')
  from holds_endpoint_state [OF reach_discard.IH reach_discard.hyps(2)] obtain st where st: "get_state w s = Some st" "side \<le> 1" .
  with state_discard_ok [OF reach_discard.IH st] reach_discard.hyps(3) show ?case by auto
next
  case (reach_begin H w ob s side w')
  from holds_endpoint_state [OF reach_begin.IH reach_begin.hyps(2)] obtain st where "get_state w s = Some st" .
  with operation_counter_ok(1) [OF reach_begin.IH this] reach_begin.hyps(3) show ?case by auto
next
  case (reach_end H w ob s side w')
  from holds_endpoint_state [OF reach_end.IH reach_end.hyps(2)] obtain st where "get_state w s = Some st" .
  with operation_counter_ok(2) [OF reach_end.IH this] reach_end.hyps(3) show ?case by auto
next
  case (reach_collect H w mem w')
  with collect_orphaned_channels_ok [OF reach_collect.IH, of mem] show ?case by auto
qed

end
