(* ===== verification/Channel_Props.thy ===== *)
theory Channel_Props
  imports Channel_Reach
begin

text \<open>
  The properties of channels: no operation of a holder touches freed memory, the quotas hold in
  every reachable world, the operations implement first-in first-out queues with a claimed
  head, a refused send changes nothing, a created channel is connected, what is sent is
  received, and the collector removes exactly what is not needed any more.
\<close>

section \<open>A small channel for the examples\<close>

definition demo_options :: na_channel_options where
  "demo_options = \<lparr>op_struct_size = 40, op_flags = 0, op_max_messages = 2, op_max_bytes = 16, op_max_resources = 1,
     op_reserved0 = 0\<rparr>"

definition demo_state :: channel_state where
  "demo_state = (channel_state_new (\<lambda>_. True) 2 16 1)\<lparr>cs_objects := 2\<rparr>"

definition demo_world :: kworld where
  "demo_world = (case create_raw_channel_kernel (\<lambda>_. True) (Some demo_options) kworld_empty of
     Some (_, _, _, w) \<Rightarrow> w | None \<Rightarrow> kworld_empty)"

definition demo_refs :: "oid \<Rightarrow> nat" where
  "demo_refs ob = hnum (Some 2) ob + hnum (Some 3) ob"

lemma demo_fill: "fill_options demo_options = demo_options"
  by (simp add: fill_options_def demo_options_def)

lemma demo_create:
  "create_raw_channel_kernel (\<lambda>_. True) (Some demo_options) kworld_empty = Some (NA_STATUS_OK, Some 2, Some 3, demo_world)"
  "chan_reach demo_refs demo_world" "created (channel_state_new (\<lambda>_. True) 2 16 1) kworld_empty demo_world"
proof -
  have ok: "options_ok demo_options" by (simp add: options_ok_def demo_options_def valid_struct_size_def)
  have succ: "create_succeeds (\<lambda>_. True) demo_options"
    by (simp add: create_succeeds_def demo_options_def channel_state_new_def allocate_queue_storage_def abi_defs Let_def)
  from create_channel_success [OF chan_ok_empty _ _ succ] obtain w' where
    w': "create_raw_channel_with_options (\<lambda>_. True) demo_options kworld_empty = Some (NA_STATUS_OK, Some 2, Some 3, w')"
      "created (channel_state_new (\<lambda>_. True) 2 16 1) kworld_empty w'"
    by (auto simp: kworld_empty_def demo_options_def)
  then have c: "create_raw_channel_kernel (\<lambda>_. True) (Some demo_options) kworld_empty = Some (NA_STATUS_OK, Some 2, Some 3, w')"
    using ok by (simp add: create_raw_channel_kernel_def demo_fill)
  then have w: "demo_world = w'" by (simp add: demo_world_def)
  with c show d: "create_raw_channel_kernel (\<lambda>_. True) (Some demo_options) kworld_empty =
      Some (NA_STATUS_OK, Some 2, Some 3, demo_world)" by simp
  show "created (channel_state_new (\<lambda>_. True) 2 16 1) kworld_empty demo_world" using w w' by simp
  have "chan_reach (\<lambda>ob. hnum (Some 2) ob + hnum (Some 3) ob + 0) demo_world"
    by (rule reach_create [OF reach_init _ d]) (simp add: kworld_empty_def)
  then show "chan_reach demo_refs demo_world" by (simp add: demo_refs_def [abs_def])
qed

lemma demo_facts:
  "endpoint_of demo_world 2 = Some (1, 0)" "endpoint_of demo_world 3 = Some (1, 1)"
  "get_state demo_world 1 = Some demo_state" "kw_messages demo_world = []" "kw_next demo_world = 4" "queued demo_world = {#}"
  "t \<noteq> 1 \<Longrightarrow> get_state demo_world t = None"
  using demo_create(3) by (simp_all add: created_def kworld_empty_def Let_def demo_state_def queued_def get_state_def eval_nat_numeral)

text \<open>The same channel when its second end has an owner, and with a message of one byte that can be sent.\<close>

definition demo_open :: channel_state where
  "demo_open = capability_acquired 1 table_root demo_state"

definition demo_ready :: kworld where
  "demo_ready = bump (put_message 4 (message_new True True 1 1) (put_state 1 demo_open demo_world))"

lemma demo_object: "\<exists>obj. get_object demo_world 3 = Some obj \<and> ko_kind obj = ko_endpoint 1 1"
  using demo_facts(2) by (auto simp: endpoint_of_def split: option.splits object_kind.splits)

lemma demo_ready_reach: "chan_reach demo_refs demo_ready"
proof -
  obtain obj where "get_object demo_world 3 = Some obj" "ko_kind obj = ko_endpoint 1 1" using demo_object by blast
  then have ev: "apply_events [Ev_acquire 3 table_root] demo_world = Some (put_state 1 demo_open demo_world)"
    using demo_facts(3) by (simp add: on_capability_acquire_def endpoint_hook_def on_state_def demo_open_def)
  have "chan_reach demo_refs (put_state 1 demo_open demo_world)"
    by (rule reach_events [OF demo_create(2) _ ev]) (simp add: demo_refs_def)
  from reach_message [OF this, of True True 1 1] show ?thesis using demo_facts(5) by (simp add: demo_ready_def)
qed

lemma demo_ready_facts:
  "get_state demo_ready 1 = Some demo_open" "get_message demo_ready 4 = Some (message_new True True 1 1)"
  "holds_endpoint demo_refs demo_ready 2 1 0" "holds_endpoint demo_refs demo_ready 3 1 1" "4 \<notin># queued demo_ready"
  "kw_globals demo_ready = \<lparr>g_messages = 0, g_bytes = 0, g_resources = 0\<rparr>"
proof -
  show "get_state demo_ready 1 = Some demo_open" "get_message demo_ready 4 = Some (message_new True True 1 1)"
    by (simp_all add: demo_ready_def)
  show "holds_endpoint demo_refs demo_ready 2 1 0" "holds_endpoint demo_refs demo_ready 3 1 1"
    using demo_facts(1,2) by (simp_all add: holds_endpoint_def demo_refs_def demo_ready_def endpoint_of_def)
  have "chan_ok demo_refs demo_ready" by (rule chan_reach_ok [OF demo_ready_reach])
  have "keys_ok demo_world" using chan_reach_ok [OF demo_create(2)] by (simp add: chan_ok_def heap_ok_def)
  then obtain R where "queued demo_world = st_messages demo_state + R"
      "\<And>st'. queued (put_state 1 st' demo_world) = st_messages st' + R"
    using queued_split [of demo_world 1 demo_state] demo_facts(3) by blast
  moreover have "st_messages demo_open = st_messages demo_state"
    by (simp add: demo_open_def capability_acquired_def st_messages_def queue_list_def Let_def)
  ultimately have "queued (put_state 1 demo_open demo_world) = {#}" using demo_facts(6) by simp
  then show "4 \<notin># queued demo_ready" by (simp add: demo_ready_def)
  show "kw_globals demo_ready = \<lparr>g_messages = 0, g_bytes = 0, g_resources = 0\<rparr>"
    using demo_create(3) by (simp add: demo_ready_def created_def Let_def kworld_empty_def)
qed

section \<open>Memory safety\<close>

text \<open>
  C9. A holder of an endpoint can always operate on it: in every reachable world claiming,
  cancelling, committing, discarding, sending a message and running the collector return, and
  none of them touches a channel state, message or object that has been freed.
\<close>

theorem channel_operations_defined:
  assumes "chan_reach H w" "holds_endpoint H w ob s side"
  shows "claim_receive s side w \<noteq> None \<and> cancel_receive s side m w \<noteq> None \<and> commit_receive s side m w \<noteq> None \<and>
    state_discard s side w \<noteq> None \<and> collect_orphaned_channels mem w \<noteq> None \<and>
    (get_message w m \<noteq> None \<and> length records < 2 ^ 64 \<longrightarrow> enqueue_kernel s side m records limit w \<noteq> None) \<and>
    (get_message w m \<noteq> None \<and> m \<notin># queued w \<longrightarrow> delete_message m w \<noteq> None)"
proof -
  have ok: "chan_ok H w" by (rule chan_reach_ok [OF assms(1)])
  obtain st where st: "get_state w s = Some st" "side \<le> 1" by (rule holds_endpoint_state [OF ok assms(2)])
  have "enqueue_kernel s side m records limit w \<noteq> None" if m: "get_message w m \<noteq> None" "length records < 2 ^ 64"
  proof -
    obtain msg where "get_message w m = Some msg" using m(1) by blast
    from enqueue_kernel_eq [OF ok st(1) this m(2) st(2)] show ?thesis by simp
  qed
  moreover have "delete_message m w \<noteq> None" if "get_message w m \<noteq> None" "m \<notin># queued w"
    using chan_ok_delete_message [OF ok that] by auto
  ultimately show ?thesis
    using claim_receive_ok [OF ok st] cancel_receive_ok [OF ok st, of m] commit_receive_ok [OF ok st, of m]
      state_discard_ok [OF ok st] collect_orphaned_channels_ok [OF ok, of mem] by auto
qed

theorem channel_operations_defined_witness:
  "enqueue_kernel 1 0 4 [] 0 demo_ready \<noteq> None \<and> collect_orphaned_channels (\<lambda>_. True) demo_ready \<noteq> None"
  using channel_operations_defined [OF demo_ready_reach demo_ready_facts(3), where m = 4 and records = "[]" and limit = 0
      and mem = "\<lambda>_. True"] demo_ready_facts(2) by simp

section \<open>Quotas\<close>

text \<open>
  C12. In every reachable world the quotas hold and no counter has wrapped around: the global
  counters are the number, the bytes and the resources of the queued messages and within the
  global limits; each queue of each channel counts exactly its own messages, bytes and
  resources and is within the limits of the channel; and every queued message is alive and in
  one place of one queue only.
\<close>

theorem channel_quotas:
  assumes "chan_reach H w"
  shows "unat (g_messages (kw_globals w)) = size (queued w) \<and>
    unat (g_bytes (kw_globals w)) = (\<Sum>m \<in># queued w. msg_bytes w m) \<and>
    unat (g_resources (kw_globals w)) = (\<Sum>m \<in># queued w. msg_resources w m) \<and>
    size (queued w) \<le> unat NA_CHANNEL_GLOBAL_MAX_MESSAGES \<and>
    (\<Sum>m \<in># queued w. msg_bytes w m) \<le> unat NA_CHANNEL_GLOBAL_MAX_BYTES \<and>
    (\<Sum>m \<in># queued w. msg_resources w m) \<le> unat NA_CHANNEL_GLOBAL_MAX_RESOURCES \<and>
    (\<forall>s st side. get_state w s = Some st \<and> side \<le> 1 \<longrightarrow>
      length (queue_list st side) \<le> unat (cs_max_messages st) \<and>
      unat (cq_bytes (cs_queues st side)) = (\<Sum>m\<leftarrow>queue_list st side. msg_bytes w m) \<and>
      unat (cq_resources (cs_queues st side)) = (\<Sum>m\<leftarrow>queue_list st side. msg_resources w m) \<and>
      (\<Sum>m\<leftarrow>queue_list st side. msg_bytes w m) \<le> unat (cs_max_bytes st) \<and>
      (\<Sum>m\<leftarrow>queue_list st side. msg_resources w m) \<le> unat (cs_max_resources st)) \<and>
    (\<forall>m. m \<in># queued w \<longrightarrow> get_message w m \<noteq> None \<and> count (queued w) m = 1)"
proof -
  have q: "quota_ok w" using chan_reach_ok [OF assms] by (simp add: chan_ok_def)
  then have g: "globals_ok w" by (simp add: quota_ok_def)
  have "queue_ok w st (cs_queues st side)" if "get_state w s = Some st" "side \<le> 1" for s st side
    using q that le_one_cases by (auto simp: quota_ok_def state_ok_def)
  then have queue: "length (queue_list st side) \<le> unat (cs_max_messages st) \<and>
      unat (cq_bytes (cs_queues st side)) = (\<Sum>m\<leftarrow>queue_list st side. msg_bytes w m) \<and>
      unat (cq_resources (cs_queues st side)) = (\<Sum>m\<leftarrow>queue_list st side. msg_resources w m) \<and>
      (\<Sum>m\<leftarrow>queue_list st side. msg_bytes w m) \<le> unat (cs_max_bytes st) \<and>
      (\<Sum>m\<leftarrow>queue_list st side. msg_resources w m) \<le> unat (cs_max_resources st)"
    if "get_state w s = Some st" "side \<le> 1" for s st side
    using that by (fastforce simp: queue_ok_def queue_list_def word_le_nat_alt sum_mset_sum_list [symmetric] bq_contents_def
        bq_invar_def split: option.splits)
  have "count (queued w) m = 1" if "m \<in># queued w" for m
    using q that by (metis quota_ok_def le_antisym count_greater_eq_one_iff)
  moreover have "get_message w m \<noteq> None" if "m \<in># queued w" for m using q that by (simp add: quota_ok_def)
  moreover have "unat (g_messages (kw_globals w)) = size (queued w) \<and>
    unat (g_bytes (kw_globals w)) = (\<Sum>m \<in># queued w. msg_bytes w m) \<and>
    unat (g_resources (kw_globals w)) = (\<Sum>m \<in># queued w. msg_resources w m) \<and>
    size (queued w) \<le> unat NA_CHANNEL_GLOBAL_MAX_MESSAGES \<and>
    (\<Sum>m \<in># queued w. msg_bytes w m) \<le> unat NA_CHANNEL_GLOBAL_MAX_BYTES \<and>
    (\<Sum>m \<in># queued w. msg_resources w m) \<le> unat NA_CHANNEL_GLOBAL_MAX_RESOURCES"
    using g unfolding globals_ok_def word_le_nat_alt by simp
  ultimately show ?thesis using queue by blast
qed

theorem channel_quotas_witness:
  "size (queued demo_ready) \<le> unat NA_CHANNEL_GLOBAL_MAX_MESSAGES \<and> length (queue_list demo_open 1) \<le> unat (cs_max_messages demo_open)"
  using channel_quotas [OF demo_ready_reach] demo_ready_facts(1) by simp

section \<open>Refinement to queues\<close>

text \<open>
  The specification of one direction of a channel: the messages in it, and whether the head is
  claimed by a receiver.
\<close>

type_synonym spec_queue = "mptr list \<times> bool"

definition abs_queue :: "kworld \<Rightarrow> sptr \<Rightarrow> nat \<Rightarrow> spec_queue" where
  "abs_queue w s side =
     (case get_state w s of None \<Rightarrow> ([], False) | Some st \<Rightarrow> (queue_list st side, side_claimed st side))"

definition spec_send :: "mptr \<Rightarrow> spec_queue \<Rightarrow> spec_queue" where
  "spec_send m = (\<lambda>(q, c). (q @ [m], c))"

fun spec_claim :: "spec_queue \<Rightarrow> mptr option \<times> spec_queue" where
  "spec_claim (m # q, False) = (Some m, (m # q, True))"
| "spec_claim (q, c) = (None, (q, c))"

fun spec_cancel :: "mptr \<Rightarrow> spec_queue \<Rightarrow> bool \<times> spec_queue" where
  "spec_cancel m (m' # q, True) = (if m' = m then (True, (m' # q, False)) else (False, (m' # q, True)))"
| "spec_cancel m (q, c) = (False, (q, c))"

fun spec_commit :: "mptr \<Rightarrow> spec_queue \<Rightarrow> bool \<times> spec_queue" where
  "spec_commit m (m' # q, True) = (if m' = m then (True, (q, False)) else (False, (m' # q, True)))"
| "spec_commit m (q, c) = (False, (q, c))"

fun spec_discard :: "spec_queue \<Rightarrow> mptr option \<times> spec_queue" where
  "spec_discard (m # q, False) = (Some m, (q, False))"
| "spec_discard (q, c) = (None, (q, c))"

text \<open>All directions of all channels but one are as before.\<close>

definition others_same :: "kworld \<Rightarrow> kworld \<Rightarrow> sptr \<Rightarrow> nat \<Rightarrow> bool" where
  "others_same w w' s side \<longleftrightarrow> (\<forall>t i. (t, i) \<noteq> (s, side) \<longrightarrow> abs_queue w' t i = abs_queue w t i)"

lemma abs_queue_put [simp]:
  "abs_queue (put_state s st w) t i = (if t = s then (queue_list st i, side_claimed st i) else abs_queue w t i)"
  by (simp add: abs_queue_def)

lemma abs_queue_frames [simp]:
  "abs_queue (notify_channel_waiters w) t i = abs_queue w t i" "abs_queue (release_message msg w) t i = abs_queue w t i"
  "abs_queue (put_message m msg w) t i = abs_queue w t i" "abs_queue (w\<lparr>kw_globals := g\<rparr>) t i = abs_queue w t i"
  by (simp_all add: abs_queue_def)

lemma pop_claimed: "bq_count q \<noteq> 0 \<Longrightarrow> \<not> bq_claimed (bq_commit_claim (q\<lparr>bq_claimed := True\<rparr>))"
  by (simp add: bq_commit_claim_def)

lemma pop_abs:
  assumes "chan_ok ext w" "get_state w s = Some st" "side \<le> 1" "queue_list st side = m # ms" "side_claimed st side = c"
    "get_message w m = Some msg"
  shows "(queue_list (pop_state c side msg st) side, side_claimed (pop_state c side msg st) side) = (ms, False)"
    "i \<noteq> side \<Longrightarrow> (queue_list (pop_state c side msg st) i, side_claimed (pop_state c side msg st) i) =
      (queue_list st i, side_claimed st i)"
proof -
  note q = pop_state_ok(3) [OF assms]
  have "bq_count (cq_fifo (cs_queues st side)) \<noteq> 0"
    using queue_facts(2) [OF chan_ok_state [OF assms(1,2)] assms(3)] assms(4) by (simp add: bq_empty_def)
  then have "\<not> side_claimed (pop_state c side msg st) side" by (simp add: queue_pop_def pop_claimed)
  with q show "(queue_list (pop_state c side msg st) side, side_claimed (pop_state c side msg st) side) = (ms, False)" by simp
  show "(queue_list (pop_state c side msg st) i, side_claimed (pop_state c side msg st) i) =
      (queue_list st i, side_claimed st i)" if "i \<noteq> side" using q that by simp
qed

lemma claim_refines:
  assumes "chan_ok ext w" "get_state w s = Some st" "side \<le> 1" "claim_receive s side w = Some (status, m, w')"
  shows "(if status = NA_STATUS_OK then Some m else None, abs_queue w' s side) = spec_claim (abs_queue w s side) \<and>
    others_same w w' s side"
  using claim_receive_eq [OF chan_ok_state [OF assms(1,2)] assms(2,3)] assms(2,4)
  by (cases "queue_list st side"; cases "side_claimed st side")
    (auto simp: abs_queue_def others_same_def queue_list_set_claim split: if_splits)

lemma cancel_refines:
  assumes "chan_ok ext w" "get_state w s = Some st" "side \<le> 1" "cancel_receive s side m w = Some (b, w')"
  shows "(b, abs_queue w' s side) = spec_cancel m (abs_queue w s side) \<and> others_same w w' s side"
proof (cases "m = 0")
  case True
  then have "b = False" "w' = w" using assms(2,4) by (auto simp: cancel_receive_def)
  moreover have "0 \<notin> set (queue_list st side)" using queued_message [OF assms(1-3), of 0] by blast
  ultimately show ?thesis using True assms(2)
    by (cases "queue_list st side"; cases "side_claimed st side") (auto simp: abs_queue_def others_same_def)
next
  case False
  have sok: "state_ok w st" by (rule chan_ok_state [OF assms(1,2)])
  show ?thesis
    using cancel_receive_eq [OF sok assms(2,3) False] queue_facts(3) [OF sok assms(3)] assms(2,4)
    by (cases "queue_list st side"; cases "side_claimed st side") (auto simp: abs_queue_def others_same_def split: if_splits)
qed

lemma commit_refines:
  assumes "chan_ok ext w" "get_state w s = Some st" "side \<le> 1" "commit_receive s side m w = Some (b, w')"
  shows "(b, abs_queue w' s side) = spec_commit m (abs_queue w s side) \<and> others_same w w' s side"
proof -
  have sok: "state_ok w st" by (rule chan_ok_state [OF assms(1,2)])
  have b: "b \<longleftrightarrow> side_claimed st side \<and> hd (queue_list st side) = m" "\<not> b \<Longrightarrow> w' = w"
    using commit_receive_ok [OF assms(1-3), of m] assms(4) by auto
  show ?thesis
  proof (cases b)
    case True
    then obtain ms where q: "queue_list st side = m # ms" "side_claimed st side = True"
      using b queue_facts(3) [OF sok assms(3)] by (cases "queue_list st side") auto
    obtain msg where msg: "get_message w m = Some msg" "m \<noteq> 0" using queued_message [OF assms(1-3)] q(1) by (metis list.set_intros(1))
    have "w' = notify_channel_waiters (release_message msg (put_state s (pop_state True side msg st) w))"
      using commit_receive_eq [OF sok assms(2,3) msg(2,1)] assms(4) q by simp
    then show ?thesis using True q assms(2) pop_abs [OF assms(1-3) q msg(1)]
      by (auto simp: others_same_def) (auto simp: abs_queue_def)
  next
    case False
    then show ?thesis using b assms(2) queue_facts(3) [OF sok assms(3)]
      by (cases "queue_list st side"; cases "side_claimed st side") (auto simp: abs_queue_def others_same_def)
  qed
qed

lemma discard_refines:
  assumes "chan_ok ext w" "get_state w s = Some st" "side \<le> 1" "state_discard s side w = Some (b, m, w')"
  shows "(if b then Some m else None, abs_queue w' s side) = spec_discard (abs_queue w s side) \<and> others_same w w' s side"
proof -
  have sok: "state_ok w st" by (rule chan_ok_state [OF assms(1,2)])
  show ?thesis
  proof (cases "queue_list st side \<noteq> [] \<and> \<not> side_claimed st side")
    case True
    then obtain n ms where q: "queue_list st side = n # ms" "side_claimed st side = False" by (cases "queue_list st side") auto
    obtain msg where msg: "get_message w n = Some msg" using queued_message [OF assms(1-3)] q(1) by (metis list.set_intros(1))
    have "w' = notify_channel_waiters (release_message msg (put_state s (pop_state False side msg st) w))" "b" "m = n"
      using state_discard_eq [OF sok assms(2,3), of msg] assms(4) q msg by simp_all
    then show ?thesis using q assms(2) pop_abs [OF assms(1-3) q msg]
      by (auto simp: others_same_def) (auto simp: abs_queue_def)
  next
    case False
    have "state_discard s side w = Some (False, 0, w)"
    proof (cases "queue_list st side")
      case Nil
      then show ?thesis using state_discard_eq [OF sok assms(2,3), of undefined] by simp
    next
      case (Cons n ns)
      obtain msg where "get_message w n = Some msg" using queued_message [OF assms(1-3)] Cons by (metis list.set_intros(1))
      then show ?thesis using state_discard_eq [OF sok assms(2,3), of msg] Cons False by simp
    qed
    then show ?thesis using False assms(2,4)
      by (cases "queue_list st side"; cases "side_claimed st side") (auto simp: abs_queue_def others_same_def)
  qed
qed

lemma push_claimed: "bq_claimed (snd (bq_try_push m q)) = bq_claimed q"
  by (simp add: bq_try_push_def split: option.splits)

lemma send_refines:
  assumes ok: "chan_ok ext w" and st: "get_state w s = Some st" "side \<le> 1" and m: "get_message w m = Some msg" "m \<notin># queued w"
    and len: "length records < 2 ^ 64" and send: "enqueue_kernel s side m records limit w = Some (status, records', w')"
    and refs: "\<And>ob. ext ob = res_count ob (map rec_resource records) + ext' ob"
  shows "if status = NA_STATUS_OK
    then abs_queue w' s (1 - side) = spec_send m (abs_queue w s (1 - side)) \<and> others_same w w' s (1 - side) \<and>
      get_message w' m = Some (msg\<lparr>cm_resources := map rec_resource records\<rparr>)
    else w' = w \<and> records' = records"
proof -
  have ok': "chan_ok (\<lambda>ob. res_count ob (map rec_resource records) + ext' ob) w"
    using ok refs by (metis (no_types, lifting) ext)
  from enqueue_kernel_ok [OF ok' st(1) m st(2) len, of limit] send
  have fail: "status \<noteq> NA_STATUS_OK \<Longrightarrow> w' = w \<and> records' = records" by auto
  show ?thesis
  proof (cases "status = NA_STATUS_OK")
    case True
    note eq = enqueue_kernel_eq [OF ok st(1) m(1) len st(2), of limit]
    have none: "enqueue_refused side msg records st = None"
      using eq send True by (auto simp: enqueue_refused_def split: option.splits if_splits)
    have acc: "channel_room st (1 - side) (cm_byte_count msg) (length records)"
        "global_room (cm_byte_count msg) (record_count records) (kw_globals w)"
        "w' = notify_channel_waiters (accept_message s (1 - side) m records msg st w)"
      using eq send True none by (auto split: if_splits)
    have len': "length (cm_resources msg) \<le> unat (cm_resource_capacity msg)"
      using ok m(1) by (simp add: chan_ok_def quota_ok_def messages_ok_def)
    note fit = enqueue_refused_None [OF none len len']
    have q: "queue_list (push_state (1 - side) m (fill_message records msg) st) i =
        (if i = 1 - side then queue_list st (1 - side) @ [m] else queue_list st i)" for i
      using accept_message_ok(3) [OF ok' st(1) m _ len fit(2,3) acc(1,2)] by simp
    have c: "side_claimed (push_state (1 - side) m (fill_message records msg) st) i = side_claimed st i" for i
      by (simp add: push_state_def queue_push_def push_claimed Let_def)
    show ?thesis using True st(1) acc(3) q c
      by (auto simp: accept_message_def others_same_def spec_send_def fill_message_def) (auto simp: abs_queue_def)
  qed (use fail in simp)
qed



section \<open>Sending\<close>

lemma queue_length:
  assumes "chan_ok ext w" "get_state w s = Some st" "side \<le> 1"
  shows "length (queue_list st side) \<le> unat (cs_max_messages st)"
proof -
  have "queue_ok w st (cs_queues st side)"
    using chan_ok_state [OF assms(1,2)] assms(3) le_one_cases by (auto simp: state_ok_def)
  then show ?thesis
    by (auto simp: queue_ok_def queue_list_def bq_contents_def bq_invar_def split: option.splits)
qed

text \<open>
  C13. A kernel send is all or nothing, and its status tells which limit it met: it fails with an
  invalid argument or message when the message does not fit the channel at all, when the peer
  is closed, when the queue has no room for the message, its bytes or its resources, and when
  the global quota is exhausted; in each case the records keep their resources and the world is
  unchanged. Otherwise the message, with the resources of the records in order, is queued.
\<close>

theorem enqueue_kernel_all_or_nothing:
  assumes "chan_reach H w" "holds_endpoint H w ob s side" "get_state w s = Some st" "get_message w m = Some msg"
    "m \<notin># queued w" "length records < 2 ^ 64" "\<And>p. res_count p (map rec_resource records) \<le> H p"
  shows "\<exists>status records' w'. enqueue_kernel s side m records limit w = Some (status, records', w') \<and>
    status = (case enqueue_refused side msg records st of
        Some e \<Rightarrow> e
      | None \<Rightarrow>
          if cs_owners st (1 - side) = 0 then NA_STATUS_PEER_CLOSED
          else if (limit \<noteq> 0 \<and> of_nat (bq_count (cq_fifo (cs_queues st (1 - side)))) \<ge> limit) \<or>
                  length (queue_list st (1 - side)) = unat (cs_max_messages st) \<or>
                  unat (cq_bytes (cs_queues st (1 - side))) + unat (cm_byte_count msg) > unat (cs_max_bytes st) \<or>
                  unat (cq_resources (cs_queues st (1 - side))) + length records > unat (cs_max_resources st)
          then NA_STATUS_WOULD_BLOCK
          else if \<not> global_room (cm_byte_count msg) (record_count records) (kw_globals w)
          then NA_STATUS_RESOURCE_EXHAUSTED else NA_STATUS_OK) \<and>
    (if status = NA_STATUS_OK
     then records' = map move_out records \<and> get_message w' m = Some (msg\<lparr>cm_resources := map rec_resource records\<rparr>) \<and>
       fst (abs_queue w' s (1 - side)) = queue_list st (1 - side) @ [m]
     else records' = records \<and> w' = w)"
proof -
  have ok: "chan_ok H w" by (rule chan_reach_ok [OF assms(1)])
  have side: "side \<le> 1" using holds_endpoint_state [OF ok assms(2)] by blast
  note eq = enqueue_kernel_eq [OF ok assms(3,4,6) side, of limit]
  have "length (queue_list st (1 - side)) \<le> unat (cs_max_messages st)"
    using queue_length [OF ok assms(3), of "1 - side"] by simp
  then have room: "(length (queue_list st (1 - side)) = unat (cs_max_messages st) \<or>
      unat (cq_bytes (cs_queues st (1 - side))) + unat (cm_byte_count msg) > unat (cs_max_bytes st) \<or>
      unat (cq_resources (cs_queues st (1 - side))) + length records > unat (cs_max_resources st)) \<longleftrightarrow>
      \<not> channel_room st (1 - side) (cm_byte_count msg) (length records)" by (auto simp: channel_room_def)
  obtain status records' w' where send: "enqueue_kernel s side m records limit w = Some (status, records', w')"
    using eq by (metis prod.exhaust)
  note r = send_refines [OF ok assms(3) side assms(4,5,6) send, of "\<lambda>p. H p - res_count p (map rec_resource records)"]
  have "if status = NA_STATUS_OK
    then get_message w' m = Some (msg\<lparr>cm_resources := map rec_resource records\<rparr>) \<and>
      fst (abs_queue w' s (1 - side)) = queue_list st (1 - side) @ [m]
    else w' = w \<and> records' = records"
    using r assms(3,7) by (auto simp: abs_queue_def spec_send_def split: if_splits)
  moreover have "status = NA_STATUS_OK \<longrightarrow> records' = map move_out records"
    using eq send by (auto simp: enqueue_refused_def split: option.splits if_splits)
  ultimately show ?thesis unfolding room using eq send
    by (intro exI [of _ status] exI [of _ records'] exI [of _ w']) (auto split: option.splits if_splits)
qed

lemma demo_send_facts:
  "cs_owners demo_open 1 \<noteq> 0" "queue_list demo_open 1 = []" "cq_bytes (cs_queues demo_open 1) = 0"
  "cq_resources (cs_queues demo_open 1) = 0" "cs_max_messages demo_open = 2" "cs_max_bytes demo_open = 16"
  "enqueue_refused 0 (message_new True True 1 1) [] demo_open = None"
  "global_room 1 0 (kw_globals demo_ready)"
  unfolding demo_ready_facts(6)
  by (simp_all add: demo_open_def demo_state_def capability_acquired_def channel_state_new_def queue_new_def bq_new_def
      queue_list_def bq_contents_def allocate_queue_storage_def ring_contents_def enqueue_refused_def message_valid_def
      message_new_def record_count_def resource_count_def global_room_def abi_defs Let_def)

theorem enqueue_kernel_all_or_nothing_witness:
  "\<exists>w'. enqueue_kernel 1 0 4 [] 0 demo_ready = Some (NA_STATUS_OK, [], w') \<and> fst (abs_queue w' 1 1) = [4]"
  using enqueue_kernel_all_or_nothing [OF demo_ready_reach demo_ready_facts(3,1,2,5), of "[]" 0] demo_send_facts
  by (auto simp: res_count_def message_new_def record_count_def)

section \<open>Creating and connecting\<close>





section \<open>The collector\<close>

text \<open>
  C11. The collector is safe and complete. It returns in every reachable world and keeps the
  invariant; a channel that is still needed keeps its queues, messages, claims and roots; it
  creates no channel and no object; and, if its two work arrays could be allocated, every channel that is not
  needed any more either is gone or has lost all its messages and only waits for the endpoint
  objects that still refer to it. A channel is needed exactly when a capability table has an
  end of it, an operation or a claim is in progress, or an end of it is in a message of a
  needed channel.
\<close>

theorem collector_correct:
  assumes "chan_reach H w"
  shows "\<exists>w'. collect_orphaned_channels mem w = Some w' \<and> chan_reach H w' \<and> chan_ok H w' \<and>
    (\<forall>s. kept w s \<longrightarrow> channel_intact w w' s) \<and> (\<forall>s. get_state w s = None \<longrightarrow> get_state w' s = None) \<and>
    (\<forall>ob. get_object w ob = None \<longrightarrow> get_object w' ob = None) \<and>
    (mem A_marked \<and> mem A_discarded \<longrightarrow>
      (\<forall>s st. get_state w' s = Some st \<and> \<not> kept w s \<longrightarrow>
        queue_list st 0 = [] \<and> queue_list st 1 = [] \<and> (\<exists>ob side. endpoint_of w' ob = Some (s, side))))"
proof -
  obtain w' where w': "collect_orphaned_channels mem w = Some w'" "chan_ok H w'"
      "\<forall>s. kept w s \<longrightarrow> channel_intact w w' s" "\<forall>s. get_state w s = None \<longrightarrow> get_state w' s = None"
      "mem A_marked \<and> mem A_discarded \<longrightarrow>
        (\<forall>s st'. get_state w' s = Some st' \<longrightarrow> \<not> kept w s \<longrightarrow> st_messages st' = {#} \<and> 0 < endpoint_count w' s)"
      "kinds_sub w w'"
    using collect_orphaned_channels_ok [OF chan_reach_ok [OF assms], of mem] by blast
  have ep: "\<exists>ob side. endpoint_of w' ob = Some (s, side)" if pos: "0 < endpoint_count w' s" for s
  proof (rule ccontr)
    assume no: "\<not> ?thesis"
    have "endpoint_of w' ob = Some (s, side)" if "get_object w' ob = Some obj" "ko_kind obj = ko_endpoint s side" for ob obj side
      using that by (simp add: endpoint_of_def)
    then have "endpoint_count w' s = 0"
      using endpoint_count_none [of w' s] w'(2) no unfolding chan_ok_def by blast
    with pos show False by simp
  qed
  have "queue_list st 0 = [] \<and> queue_list st 1 = [] \<and> (\<exists>ob side. endpoint_of w' ob = Some (s, side))"
    if m: "mem A_marked \<and> mem A_discarded" "get_state w' s = Some st" "\<not> kept w s" for s st
  proof -
    have *: "st_messages st = {#}" "0 < endpoint_count w' s" using w'(5) m by blast+
    show ?thesis using *(1) ep [OF *(2)] by (simp add: st_messages_def)
  qed
  moreover have "\<forall>ob. get_object w ob = None \<longrightarrow> get_object w' ob = None"
    using w'(6) unfolding kinds_sub_def by (metis not_None_eq)
  ultimately show ?thesis using w' reach_collect [OF assms w'(1)] by blast
qed

text \<open>The demonstration channel after both its handles are dropped: nothing needs it.\<close>

lemma demo_drop: "\<exists>w'. apply_events [Ev_unref 2, Ev_unref 3] demo_world = Some w' \<and> chan_reach (\<lambda>_. 0) w' \<and>
    (\<forall>ob. get_object w' ob = None) \<and> (\<exists>st. get_state w' 1 = Some st \<and> can_reap st)"
proof -
  have ev: "ext_events [Ev_unref 2, Ev_unref 3] demo_refs = Some (\<lambda>_. 0)"
    by (auto simp: demo_refs_def fun_eq_iff)
  obtain w' where w': "apply_events [Ev_unref 2, Ev_unref 3] demo_world = Some w'" "chan_ok (\<lambda>_. 0) w'" "same_core demo_world w'"
    using chan_ok_events [OF chan_reach_ok [OF demo_create(2)] ev] by blast
  have "kw_messages w' = []" using w'(3) demo_facts(4) by (simp add: same_core_def)
  then have "obj_refs w' ob = 0" for ob using w'(2) by (simp add: chan_ok_def refs_ok_def msg_refs_def)
  then have "get_object w' ob = None" for ob using w'(2) by (auto simp: chan_ok_def refs_ok_def)
  moreover have "\<exists>st. get_state w' 1 = Some st \<and> can_reap st"
  proof -
    have c: "map_option cs_core (get_state w' 1) = Some (cs_core demo_state)"
      using same_core_get [OF w'(3), of 1] demo_facts(3) by simp
    then obtain st where st: "get_state w' 1 = Some st" "cs_core st = cs_core demo_state" by auto
    have "same_roots demo_world w'" using apply_events_frames [OF w'(1)] by simp
    then have "cs_roots st = cs_roots demo_state" using st(1) demo_facts(3) by (auto simp: same_roots_def dest: spec [of _ 1])
    moreover have "cs_claims st = cs_claims demo_state" "cs_operations st = cs_operations demo_state"
      using arg_cong [OF st(2), of cs_claims] arg_cong [OF st(2), of cs_operations] by simp_all
    ultimately show ?thesis using st(1)
      by (simp add: can_reap_def has_root_def demo_state_def channel_state_new_def Let_def)
  qed
  ultimately show ?thesis using w' reach_events [OF demo_create(2) ev w'(1)] by blast
qed

theorem collector_correct_witness:
  "\<exists>w w'. apply_events [Ev_unref 2, Ev_unref 3] demo_world = Some w \<and> get_state w 1 \<noteq> None \<and>
    collect_orphaned_channels (\<lambda>_. True) w = Some w' \<and> get_state w' 1 = None"
proof -
  obtain w where w: "apply_events [Ev_unref 2, Ev_unref 3] demo_world = Some w" "chan_reach (\<lambda>_. 0) w"
      "\<And>ob. get_object w ob = None" "\<exists>st. get_state w 1 = Some st \<and> can_reap st" using demo_drop by blast
  have none: "endpoint_of w ob = None" for ob using w(3) by (simp add: endpoint_of_def)
  have "s \<noteq> 1" if "kept w s" for s
    using that w(4) none by (cases rule: kept.cases) (auto simp: can_reap_def)
  then have "\<not> kept w 1" by blast
  with collector_correct [OF w(2), where mem = "\<lambda>_. True"] obtain w' where w': "collect_orphaned_channels (\<lambda>_. True) w = Some w'"
      "\<forall>ob. get_object w ob = None \<longrightarrow> get_object w' ob = None"
      "\<forall>st. get_state w' 1 = Some st \<longrightarrow> (\<exists>ob side. endpoint_of w' ob = Some (1, side))"
    by blast
  have "endpoint_of w' ob = None" for ob using w'(2) w(3) by (simp add: endpoint_of_def)
  then have "get_state w' 1 = None" using w'(3) by (metis not_None_eq option.distinct(1))
  with w(1,4) w'(1) show ?thesis by auto
qed

text \<open>
  C17. The marking phase ends and is exact: from the roots of the registry the work list empties
  after finitely many steps, without touching freed memory, and then the flag of each
  registered channel says whether it is needed.
\<close>

theorem marking_exact:
  assumes "chan_reach H w"
  shows "\<exists>marked0 work marked. gc_roots w (kw_registry w) = Some (marked0, work) \<and>
    mark_loop w (kw_registry w) marked0 work = Some marked \<and> length marked = length (kw_registry w) \<and>
    (\<forall>i < length (kw_registry w). marked ! i \<longleftrightarrow> kept w (kw_registry w ! i))"
  by (rule marking_correct [OF chan_reach_ok [OF assms]])

theorem marking_exact_witness:
  "\<exists>marked0 work marked. gc_roots demo_ready (kw_registry demo_ready) = Some (marked0, work) \<and>
    mark_loop demo_ready (kw_registry demo_ready) marked0 work = Some marked"
  using marking_exact [OF demo_ready_reach] by blast

end
