(* ===== verification/Protocol_Endpoint.thy ===== *)
theory Protocol_Endpoint
  imports Channel_Syscall
begin

text \<open>
  The part of \<^verbatim>\<open>ipc/invocation.cc\<close> that creates protocols: the validation of a protocol
  descriptor and the system calls that create descriptors and pairs of protocol endpoints. The
  protocol state behind the endpoints and the invocation handlers are not modelled; the
  endpoints are unique objects.

  The parameters: \<open>pmem\<close> says which allocations succeed, \<open>scope_ids\<close> has the scope numbers,
  which the interface compiler generates. The contents of the immutable descriptor objects are
  a function of their addresses.
\<close>

datatype protocol_site = D_frame | D_descriptor | D_protocol_state | D_protocol_queue | D_client | D_server

section \<open>Descriptors\<close>

definition NA_PROTOCOL_METHOD_BITMAP_WORDS :: nat where
  "NA_PROTOCOL_METHOD_BITMAP_WORDS = 4"

definition NA_PROTOCOL_MAX_METHOD_ID :: u64 where
  "NA_PROTOCOL_MAX_METHOD_ID = of_nat (NA_PROTOCOL_METHOD_BITMAP_WORDS * 64)"

definition NA_PROTOCOL_FLAG_ALLOW_ONEWAY :: u32 where
  "NA_PROTOCOL_FLAG_ALLOW_ONEWAY = push_bit 0 1"

record na_protocol_descriptor =
  pd_struct_size :: u32
  pd_flags :: u32
  pd_uuid :: "byte list"
  pd_scope :: u64
  pd_revision :: u64
  pd_features :: u64
  pd_protocol_rights :: u64
  pd_method_count :: u64
  pd_max_request_bytes :: u64
  pd_max_response_bytes :: u64
  pd_max_resources :: u64
  pd_reserved0 :: u64
  pd_reserved1 :: u64
  pd_method_bitmap :: "u64 list"
  pd_oneway_bitmap :: "u64 list"
  pd_method_rights :: "u64 list"

definition sizeof_protocol_descriptor :: u64 where
  "sizeof_protocol_descriptor = 2216"

definition decode_protocol_descriptor :: "byte list \<Rightarrow> na_protocol_descriptor" where
  "decode_protocol_descriptor bs =
     \<lparr>pd_struct_size = get_u32 bs 0, pd_flags = get_u32 bs 4, pd_uuid = take 16 (drop 8 bs), pd_scope = get_u64 bs 24,
      pd_revision = get_u64 bs 32, pd_features = get_u64 bs 40, pd_protocol_rights = get_u64 bs 48,
      pd_method_count = get_u64 bs 56, pd_max_request_bytes = get_u64 bs 64, pd_max_response_bytes = get_u64 bs 72,
      pd_max_resources = get_u64 bs 80, pd_reserved0 = get_u64 bs 88, pd_reserved1 = get_u64 bs 96,
      pd_method_bitmap = map (\<lambda>i. get_u64 bs (104 + 8 * i)) [0..<4],
      pd_oneway_bitmap = map (\<lambda>i. get_u64 bs (136 + 8 * i)) [0..<4],
      pd_method_rights = map (\<lambda>i. get_u64 bs (168 + 8 * i)) [0..<256]\<rparr>"

record scope_ids =
  sc_none :: u64
  sc_terminal_master :: u64
  sc_terminal_slave :: u64

text \<open>The bit of a method in a bitmap; methods are numbered from 1.\<close>

definition method_bit :: "u64 list \<Rightarrow> nat \<Rightarrow> bool" where
  "method_bit bitmap method_id \<longleftrightarrow>
     bitmap ! ((method_id - 1) div 64) AND push_bit ((method_id - 1) mod 64) 1 \<noteq> 0"

text \<open>The checks of a method id beyond the last method, and of one within the methods.\<close>

definition spare_method_bad :: "na_protocol_descriptor \<Rightarrow> nat \<Rightarrow> bool" where
  "spare_method_bad pd method_id \<longleftrightarrow>
     method_bit (pd_method_bitmap pd) method_id \<or> method_bit (pd_oneway_bitmap pd) method_id \<or>
     pd_method_rights pd ! (method_id - 1) \<noteq> 0"

definition method_bad :: "na_protocol_descriptor \<Rightarrow> nat \<Rightarrow> bool" where
  "method_bad pd method_id \<longleftrightarrow>
     (method_bit (pd_oneway_bitmap pd) method_id \<and> \<not> method_bit (pd_method_bitmap pd) method_id) \<or>
     (method_bit (pd_oneway_bitmap pd) method_id \<and> pd_flags pd AND NA_PROTOCOL_FLAG_ALLOW_ONEWAY = 0) \<or>
     (method_bit (pd_method_bitmap pd) method_id \<and>
        (pd_method_rights pd ! (method_id - 1) = 0 \<or>
         pd_method_rights pd ! (method_id - 1) AND NOT (pd_protocol_rights pd) \<noteq> 0))"

definition validate_descriptor :: "scope_ids \<Rightarrow> na_protocol_descriptor \<Rightarrow> na_status" where
  "validate_descriptor sc pd =
     (let uuid_is_zero = list_all (\<lambda>value. value = 0) (pd_uuid pd)
      in if \<not> valid_struct_size (pd_struct_size pd) sizeof_protocol_descriptor \<or>
            pd_flags pd AND NOT NA_PROTOCOL_FLAG_ALLOW_ONEWAY \<noteq> 0 \<or> pd_reserved0 pd \<noteq> 0 \<or> pd_reserved1 pd \<noteq> 0 \<or>
            uuid_is_zero \<or> pd_scope pd = sc_none sc \<or> pd_method_count pd = 0 \<or>
            pd_method_count pd > NA_PROTOCOL_MAX_METHOD_ID \<or>
            pd_max_request_bytes pd > NA_CHANNEL_MAX_MESSAGE_BYTES \<or>
            pd_max_response_bytes pd > NA_CHANNEL_MAX_MESSAGE_BYTES \<or>
            pd_max_resources pd > NA_CHANNEL_MAX_RESOURCES \<or>
            pd_protocol_rights pd AND NA_PROTOCOL_RIGHT_INVOKE = 0 \<or>
            \<not> method_bit (pd_method_bitmap pd) (unat (pd_method_count pd))
         then NA_STATUS_INVALID_ARGUMENT
         else if list_ex (spare_method_bad pd)
                   [unat (pd_method_count pd) + 1..<unat NA_PROTOCOL_MAX_METHOD_ID + 1]
         then NA_STATUS_INVALID_ARGUMENT
         else if list_ex (method_bad pd) [1..<unat (pd_method_count pd) + 1] then NA_STATUS_INVALID_ARGUMENT
         else NA_STATUS_OK)"

definition valid_user_output :: "u64 \<Rightarrow> u64 \<Rightarrow> bool" where
  "valid_user_output output sz \<longleftrightarrow> output \<noteq> 0 \<and> is_user_space_range output sz"

definition new_object :: "object_kind \<Rightarrow> kworld \<Rightarrow> oid \<times> kworld" where
  "new_object kind w =
     (kw_next w, (put_object (kw_next w) \<lparr>ko_refs = 1, ko_kind = kind\<rparr> w)\<lparr>kw_next := kw_next w + 1\<rparr>)"

text \<open>An allocation that may fail: the handle of the new object, or the null handle.\<close>

definition make_object :: "bool \<Rightarrow> object_kind \<Rightarrow> kworld \<Rightarrow> khandle \<times> kworld" where
  "make_object ok kind w = (if ok then (let (ob, w') = new_object kind w in (Some ob, w')) else (None, w))"

definition descriptor_metadata :: "na_protocol_descriptor \<Rightarrow> metadata" where
  "descriptor_metadata pd =
     metadata_default\<lparr>md_binding := NA_BINDING_NONE, md_protocol_uuid := pd_uuid pd, md_scope := pd_scope pd,
       md_revision := pd_revision pd, md_features := pd_features pd,
       md_meta_rights := NA_RIGHT_DUPLICATE OR NA_RIGHT_TRANSFER OR NA_RIGHT_INSPECT,
       md_protocol_rights := pd_protocol_rights pd\<rparr>"

text \<open>Installing and closing a handle of the caller's table, with the hooks and reference counts.\<close>

definition install_handle :: "khandle \<Rightarrow> metadata \<Rightarrow> ksys \<Rightarrow> (na_handle \<times> ksys) option" where
  "install_handle object meta k =
     (let (handle, t, es) = install_native object meta (ks_table k)
      in do { k1 \<leftarrow> run_events es (k\<lparr>ks_table := t\<rparr>); Some (handle, k1) })"

definition close_handle :: "na_handle \<Rightarrow> ksys \<Rightarrow> ksys option" where
  "close_handle handle k =
     (let (status, t, es) = close_native handle (ks_table k) in run_events es (k\<lparr>ks_table := t\<rparr>))"

definition create_protocol_descriptor ::
  "(protocol_site \<Rightarrow> bool) \<Rightarrow> scope_ids \<Rightarrow> u64 \<Rightarrow> u64 \<Rightarrow> (oid \<Rightarrow> na_protocol_descriptor) \<Rightarrow> ksys \<Rightarrow>
     (na_status \<times> (oid \<Rightarrow> na_protocol_descriptor) \<times> ksys) option" where
  "create_protocol_descriptor pmem sc input output descs k =
     (if \<not> valid_user_output output sizeof_handle then Some (NA_STATUS_FAULT, descs, k)
      else if \<not> pmem D_frame then Some (NA_STATUS_RESOURCE_EXHAUSTED, descs, k)
      else case copy_versioned (ks_mem k) sizeof_protocol_descriptor input of
        Inl status \<Rightarrow> Some (status, descs, k)
      | Inr bs \<Rightarrow>
          if ranges_overlap input sizeof_protocol_descriptor output sizeof_handle
          then Some (NA_STATUS_INVALID_ARGUMENT, descs, k)
          else let pd = decode_protocol_descriptor bs; status = validate_descriptor sc pd
               in if status \<noteq> NA_STATUS_OK then Some (status, descs, k)
                  else let (object, w1) = make_object (pmem D_descriptor) (ko_other kt_protocol_descriptor False 0) (ks_world k);
                           descs1 = (case object of Some ob \<Rightarrow> descs(ob := pd) | None \<Rightarrow> descs)
                       in do { (handle, k1) \<leftarrow> install_handle object (descriptor_metadata pd) (k\<lparr>ks_world := w1\<rparr>);
                               (if handle = NA_HANDLE_INVALID then Some (NA_STATUS_RESOURCE_EXHAUSTED, descs1, k1)
                                else let (copy_status, um) = copy_to (ks_mem k1) output (Some (put_u64 handle)) sizeof_handle;
                                         k2 = k1\<lparr>ks_mem := um\<rparr>
                                     in if copy_status \<noteq> NA_STATUS_OK
                                        then do { k3 \<leftarrow> close_handle handle k2; Some (copy_status, descs1, k3) }
                                        else Some (copy_status, descs1, k2)) })"

section \<open>Endpoints\<close>

record na_protocol_endpoint_options =
  po_struct_size :: u32
  po_flags :: u32
  po_client_meta_rights :: na_meta_rights
  po_server_meta_rights :: na_meta_rights
  po_max_messages :: u64
  po_max_bytes :: u64
  po_max_resources :: u64
  po_reserved0 :: u64
  po_client_protocol_rights :: u64
  po_server_protocol_rights :: u64

definition sizeof_endpoint_options :: u64 where
  "sizeof_endpoint_options = 72"

definition decode_endpoint_options :: "byte list \<Rightarrow> na_protocol_endpoint_options" where
  "decode_endpoint_options bs =
     \<lparr>po_struct_size = get_u32 bs 0, po_flags = get_u32 bs 4, po_client_meta_rights = get_u64 bs 8,
      po_server_meta_rights = get_u64 bs 16, po_max_messages = get_u64 bs 24, po_max_bytes = get_u64 bs 32,
      po_max_resources = get_u64 bs 40, po_reserved0 = get_u64 bs 48, po_client_protocol_rights = get_u64 bs 56,
      po_server_protocol_rights = get_u64 bs 64\<rparr>"

definition protocol_default_options :: "na_protocol_descriptor \<Rightarrow> na_protocol_endpoint_options" where
  "protocol_default_options pd =
     \<lparr>po_struct_size = ucast sizeof_endpoint_options, po_flags = 0,
      po_client_meta_rights = NA_RIGHT_DUPLICATE OR NA_RIGHT_TRANSFER OR NA_RIGHT_WAIT OR NA_RIGHT_INSPECT,
      po_server_meta_rights = NA_RIGHT_TRANSFER OR NA_RIGHT_WAIT OR NA_RIGHT_INSPECT,
      po_max_messages = 64,
      po_max_bytes = (if pd_max_request_bytes pd = 0 then NA_CHANNEL_DEFAULT_MAX_BYTES
                      else pd_max_request_bytes pd * 4),
      po_max_resources = NA_CHANNEL_MAX_RESOURCES, po_reserved0 = 0,
      po_client_protocol_rights = pd_protocol_rights pd,
      po_server_protocol_rights = pd_protocol_rights pd\<rparr>"

text \<open>The options of the caller; the address 0 means that there are none.\<close>

definition read_endpoint_options ::
  "umem \<Rightarrow> u64 \<Rightarrow> na_protocol_descriptor \<Rightarrow> na_status + na_protocol_endpoint_options" where
  "read_endpoint_options um options pd =
     (if options = 0 then Inr (protocol_default_options pd)
      else case copy_versioned um sizeof_endpoint_options options of
        Inl status \<Rightarrow> Inl status
      | Inr bs \<Rightarrow>
          (let v = decode_endpoint_options bs
           in if \<not> valid_struct_size (po_struct_size v) sizeof_endpoint_options \<or> po_flags v \<noteq> 0 \<or> po_reserved0 v \<noteq> 0
              then Inl NA_STATUS_INVALID_ARGUMENT
              else Inr (v\<lparr>po_max_messages := if po_max_messages v = 0 then 64 else po_max_messages v,
                          po_max_bytes := if po_max_bytes v = 0 then NA_CHANNEL_DEFAULT_MAX_BYTES else po_max_bytes v,
                          po_max_resources := if po_max_resources v = 0 then NA_CHANNEL_MAX_RESOURCES
                                              else po_max_resources v\<rparr>)))"

definition adjust_endpoint_options ::
  "scope_ids \<Rightarrow> na_protocol_descriptor \<Rightarrow> na_protocol_endpoint_options \<Rightarrow> na_protocol_endpoint_options" where
  "adjust_endpoint_options sc pd v =
     (let v1 = (if pd_scope pd = sc_terminal_master sc \<or> pd_scope pd = sc_terminal_slave sc
                then v\<lparr>po_client_meta_rights := po_client_meta_rights v AND NOT NA_RIGHT_DUPLICATE\<rparr> else v)
      in v1\<lparr>po_client_protocol_rights := if po_client_protocol_rights v1 = 0 then pd_protocol_rights pd
                                         else po_client_protocol_rights v1,
            po_server_protocol_rights := if po_server_protocol_rights v1 = 0 then pd_protocol_rights pd
                                         else po_server_protocol_rights v1\<rparr>)"

definition endpoint_options_error :: "na_protocol_descriptor \<Rightarrow> na_protocol_endpoint_options \<Rightarrow> na_status option" where
  "endpoint_options_error pd v =
     (if po_client_protocol_rights v AND NOT (pd_protocol_rights pd) \<noteq> 0 \<or>
         po_server_protocol_rights v AND NOT (pd_protocol_rights pd) \<noteq> 0 then Some NA_STATUS_ACCESS_DENIED
      else if po_max_messages v > NA_CHANNEL_MAX_MESSAGES \<or>
              po_max_bytes v > NA_CHANNEL_MAX_MESSAGE_BYTES * 16 \<or>
              po_max_resources v > NA_CHANNEL_MAX_RESOURCES \<or>
              po_client_meta_rights v AND
                NOT (NA_RIGHT_DUPLICATE OR NA_RIGHT_TRANSFER OR NA_RIGHT_WAIT OR NA_RIGHT_INSPECT) \<noteq> 0 \<or>
              po_server_meta_rights v AND NOT (NA_RIGHT_TRANSFER OR NA_RIGHT_WAIT OR NA_RIGHT_INSPECT) \<noteq> 0
      then Some NA_STATUS_INVALID_ARGUMENT else None)"

definition kernel_view_metadata ::
  "u64 \<Rightarrow> byte list \<Rightarrow> na_meta_rights \<Rightarrow> u64 \<Rightarrow> u64 \<Rightarrow> u64 \<Rightarrow> metadata" where
  "kernel_view_metadata scope uuid rights protocol_rights revision features =
     metadata_default\<lparr>md_binding := NA_BINDING_KERNEL_VIEW, md_protocol_uuid := uuid, md_scope := scope,
       md_revision := revision, md_features := features, md_meta_rights := rights,
       md_protocol_rights := protocol_rights OR NA_PROTOCOL_RIGHT_INVOKE\<rparr>"

text \<open>The metadata of the client end, and those of the server end.\<close>

definition client_metadata :: "na_protocol_descriptor \<Rightarrow> na_protocol_endpoint_options \<Rightarrow> metadata" where
  "client_metadata pd v =
     (let meta = (kernel_view_metadata (pd_scope pd) (pd_uuid pd) (po_client_meta_rights v) (po_client_protocol_rights v)
                    (pd_revision pd) (pd_features pd))\<lparr>md_binding := NA_BINDING_CLIENT_END\<rparr>
      in meta\<lparr>md_protocol_rights := md_protocol_rights meta OR NA_PROTOCOL_RIGHT_INVOKE\<rparr>)"

definition server_metadata :: "na_protocol_descriptor \<Rightarrow> na_protocol_endpoint_options \<Rightarrow> metadata" where
  "server_metadata pd v =
     (client_metadata pd v)\<lparr>md_binding := NA_BINDING_SERVER_END,
       md_protocol_rights := po_server_protocol_rights v OR NA_PROTOCOL_RIGHT_INVOKE\<rparr>"

text \<open>The objects of a pair: when one is missing, the other is dropped, the server end first.\<close>

definition make_endpoints ::
  "(protocol_site \<Rightarrow> bool) \<Rightarrow> kworld \<Rightarrow> (khandle \<times> khandle \<times> kworld) option" where
  "make_endpoints pmem w =
     (let (client, w1) = make_object (pmem D_client) (ko_other kt_protocol_client_end True 0) w;
          (server, w2) = make_object (pmem D_server) (ko_other kt_protocol_server_end True 0) w1
      in if client = None \<or> server = None
         then do { w3 \<leftarrow> apply_events (snd (h_drop server) @ snd (h_drop client)) w2; Some (None, None, w3) }
         else Some (client, server, w2))"

definition create_protocol_endpoint_objects ::
  "(protocol_site \<Rightarrow> bool) \<Rightarrow> scope_ids \<Rightarrow> umem \<Rightarrow> na_protocol_descriptor \<Rightarrow> u64 \<Rightarrow> kworld \<Rightarrow>
     (na_status \<times> khandle \<times> khandle \<times> metadata \<times> metadata \<times> kworld) option" where
  "create_protocol_endpoint_objects pmem sc um pd options w =
     (case read_endpoint_options um options pd of
        Inl status \<Rightarrow> Some (status, None, None, metadata_default, metadata_default, w)
      | Inr v0 \<Rightarrow>
          (let v = adjust_endpoint_options sc pd v0
           in case endpoint_options_error pd v of
             Some status \<Rightarrow> Some (status, None, None, metadata_default, metadata_default, w)
           | None \<Rightarrow>
               if \<not> pmem D_protocol_state \<or> \<not> pmem D_protocol_queue \<or> pd_scope pd = sc_none sc
               then Some (NA_STATUS_RESOURCE_EXHAUSTED, None, None, metadata_default, metadata_default, w)
               else do { (client, server, w1) \<leftarrow> make_endpoints pmem w;
                         Some (if client = None
                               then (NA_STATUS_RESOURCE_EXHAUSTED, None, None, metadata_default, metadata_default, w1)
                               else (NA_STATUS_OK, client, server, client_metadata pd v, server_metadata pd v, w1)) }))"

definition object_is_descriptor :: "kworld \<Rightarrow> khandle \<Rightarrow> bool" where
  "object_is_descriptor w h =
     (case h of
        None \<Rightarrow> False
      | Some ob \<Rightarrow>
          (case get_object w ob of
             Some obj \<Rightarrow> (case ko_kind obj of ko_other ty _ _ \<Rightarrow> ty = kt_protocol_descriptor | _ \<Rightarrow> False)
           | None \<Rightarrow> False))"

text \<open>The checks of the descriptor handle: the descriptor, or the status of the failure.\<close>

definition lookup_descriptor :: "na_handle \<Rightarrow> (oid \<Rightarrow> na_protocol_descriptor) \<Rightarrow> ksys \<Rightarrow> na_status + na_protocol_descriptor" where
  "lookup_descriptor descriptor_handle descs k =
     (case lookup_native descriptor_handle (ks_table k) of
        None \<Rightarrow> Inl NA_STATUS_INVALID_HANDLE
      | Some e \<Rightarrow>
          if ce_object e = None then Inl NA_STATUS_INVALID_HANDLE
          else if md_meta_rights (ce_meta e) AND NA_RIGHT_INSPECT = 0 then Inl NA_STATUS_ACCESS_DENIED
          else if \<not> object_is_descriptor (ks_world k) (ce_object e) then Inl NA_STATUS_WRONG_BINDING
          else Inr (descs (the (ce_object e))))"

text \<open>Installing the pair and writing the two handles; every failure closes what was installed.\<close>

definition install_endpoints ::
  "khandle \<Rightarrow> khandle \<Rightarrow> metadata \<Rightarrow> metadata \<Rightarrow> u64 \<Rightarrow> u64 \<Rightarrow> ksys \<Rightarrow> (na_status \<times> ksys) option" where
  "install_endpoints client_object server_object cm sm client server k =
     do { (client_handle, k1) \<leftarrow> install_handle client_object cm k;
          (if client_handle = NA_HANDLE_INVALID
           then do { k2 \<leftarrow> run_events (snd (h_drop server_object)) k1; Some (NA_STATUS_RESOURCE_EXHAUSTED, k2) }
           else do { (server_handle, k2) \<leftarrow> install_handle server_object sm k1;
             (if server_handle = NA_HANDLE_INVALID
              then do { k3 \<leftarrow> close_handle client_handle k2; Some (NA_STATUS_RESOURCE_EXHAUSTED, k3) }
              else let (status1, um1) = copy_to (ks_mem k2) client (Some (put_u64 client_handle)) sizeof_handle;
                       (status2, um2) = (if status1 = NA_STATUS_OK
                                         then copy_to um1 server (Some (put_u64 server_handle)) sizeof_handle
                                         else (status1, um1));
                       k3 = k2\<lparr>ks_mem := um2\<rparr>
                   in if status2 \<noteq> NA_STATUS_OK
                      then do { k4 \<leftarrow> close_handle client_handle k3;
                                k5 \<leftarrow> close_handle server_handle k4;
                                Some (NA_STATUS_FAULT, k5) }
                      else Some (NA_STATUS_OK, k3)) }) }"

definition create_protocol_endpoint ::
  "(protocol_site \<Rightarrow> bool) \<Rightarrow> scope_ids \<Rightarrow> na_handle \<Rightarrow> u64 \<Rightarrow> u64 \<Rightarrow> u64 \<Rightarrow> (oid \<Rightarrow> na_protocol_descriptor) \<Rightarrow>
     ksys \<Rightarrow> (na_status \<times> ksys) option" where
  "create_protocol_endpoint pmem sc descriptor_handle options client server descs k =
     (if \<not> valid_user_output client sizeof_handle \<or> \<not> valid_user_output server sizeof_handle
      then Some (NA_STATUS_FAULT, k)
      else if ranges_overlap client sizeof_handle server sizeof_handle then Some (NA_STATUS_INVALID_ARGUMENT, k)
      else case lookup_descriptor descriptor_handle descs k of
        Inl status \<Rightarrow> Some (status, k)
      | Inr pd \<Rightarrow>
          do { (status, client_object, server_object, cm, sm, w) \<leftarrow>
                 create_protocol_endpoint_objects pmem sc (ks_mem k) pd options (ks_world k);
               (if status \<noteq> NA_STATUS_OK then Some (status, k\<lparr>ks_world := w\<rparr>)
                else install_endpoints client_object server_object cm sm client server (k\<lparr>ks_world := w\<rparr>)) })"

end
