(* ===== verification/Service_Directory.thy ===== *)
theory Service_Directory
  imports Protocol_Endpoint
begin

text \<open>
  \<^verbatim>\<open>kernel/service_directory.{hpp,cc}\<close>: the registry that maps service names to
  capabilities and to listening endpoints. A vector is the list of its elements; the entries
  and listeners hold handles, whose hooks and reference counts act on the kernel heap of the
  channels, so an operation is \<open>None\<close> if it would touch freed memory. A result \<open>None\<close> of
  type \<open>errno option\<close> is the value 0. Handle copies that an operation takes and drops
  itself are left out of the reference counts. Every operation holds \<^verbatim>\<open>allocation_lock_\<close>
  while it works on the vectors, and works on handles it holds itself before and after, so an
  operation is one step.

  The parameters: \<open>dmem\<close>, \<open>pmem\<close> and \<open>mem\<close> say which allocations succeed, \<open>descs\<close> gives the
  contents of the immutable protocol descriptor objects, and \<open>scope_ids\<close> the scope
  numbers, which the interface compiler generates.
\<close>

datatype dir_site =
  D_uri | D_entries | D_listeners | D_records

record dir_entry =
  de_uri :: "byte list"
  de_object :: khandle
  de_metadata :: metadata
  de_one_shot :: bool
  de_owner :: u64

record listener_entry =
  le_uri :: "byte list"
  le_send_endpoint :: khandle
  le_descriptor :: khandle
  le_max_pending :: u64
  le_owner :: u64

record directory =
  dir_entries :: "dir_entry list"
  dir_listeners :: "listener_entry list"

definition directory_new :: directory where
  "directory_new = \<lparr>dir_entries = [], dir_listeners = []\<rparr>"

section \<open>Names\<close>

definition uri_prefix :: "byte list" where
  "uri_prefix = [110, 97, 111, 115, 58, 47, 47]"

text \<open>The characters a segment may have: letters, digits and \<^verbatim>\<open>- _ . ~\<close>.\<close>

definition uri_char :: "byte \<Rightarrow> bool" where
  "uri_char value \<longleftrightarrow>
     (97 \<le> value \<and> value \<le> 122) \<or> (65 \<le> value \<and> value \<le> 90) \<or> (48 \<le> value \<and> value \<le> 57) \<or>
     value = 45 \<or> value = 95 \<or> value = 46 \<or> value = 126"

fun uri_loop :: "byte list \<Rightarrow> bool \<Rightarrow> bool \<Rightarrow> nat \<Rightarrow> bool" where
  "uri_loop [] segment_has_value segment_is_dot segment_size \<longleftrightarrow>
     segment_has_value \<and> \<not> segment_is_dot \<and> segment_size \<noteq> 2"
| "uri_loop (value # bs) segment_has_value segment_is_dot segment_size \<longleftrightarrow>
     (if value = 47
      then \<not> (\<not> segment_has_value \<or> segment_is_dot \<or> segment_size = 2) \<and> uri_loop bs False True 0
      else uri_char value \<and>
           uri_loop bs True (segment_is_dot \<and> \<not> (segment_size + 1 > 2 \<or> value \<noteq> 46)) (segment_size + 1))"

text \<open>\<open>None\<close> is the null pointer.\<close>

definition valid_uri :: "byte list option \<Rightarrow> bool" where
  "valid_uri uri \<longleftrightarrow>
     (case uri of
        None \<Rightarrow> False
      | Some bs \<Rightarrow> length uri_prefix < length bs \<and> length bs \<le> 255 \<and>
          take (length uri_prefix) bs = uri_prefix \<and>
          uri_loop (drop (length uri_prefix) bs) False True 0)"

section \<open>Lookup and release\<close>

fun find_uri :: "('e \<Rightarrow> byte list) \<Rightarrow> byte list \<Rightarrow> 'e list \<Rightarrow> nat \<Rightarrow> nat option" where
  "find_uri key uri [] i = None"
| "find_uri key uri (e # es) i =
     (if length (key e) = length uri \<and> key e = uri then Some i else find_uri key uri es (i + 1))"

definition find_locked :: "byte list \<Rightarrow> directory \<Rightarrow> nat option" where
  "find_locked uri d = find_uri de_uri uri (dir_entries d) 0"

definition find_listener_locked :: "byte list \<Rightarrow> directory \<Rightarrow> nat option" where
  "find_listener_locked uri d = find_uri le_uri uri (dir_listeners d) 0"

definition remove_at :: "nat \<Rightarrow> 'e list \<Rightarrow> 'e list" where
  "remove_at i xs = take i xs @ drop (Suc i) xs"

definition release_table_root :: "khandle \<Rightarrow> cap_event list" where
  "release_table_root value =
     (case value of Some ob \<Rightarrow> [Ev_release ob table_root] | None \<Rightarrow> []) @ snd (h_drop value)"

definition release_entry :: "dir_entry \<Rightarrow> cap_event list" where
  "release_entry e = release_table_root (de_object e)"

definition release_listener :: "listener_entry \<Rightarrow> cap_event list" where
  "release_listener l = release_table_root (le_send_endpoint l) @ release_table_root (le_descriptor l)"

text \<open>The destructor releases the entries, then the listeners.\<close>

definition directory_destroy :: "directory \<Rightarrow> kworld \<Rightarrow> kworld option" where
  "directory_destroy d =
     apply_events (concat (map (\<lambda>e. release_table_root (de_object e)) (dir_entries d)) @
       concat (map release_listener (dir_listeners d)))"

section \<open>Services\<close>

definition register_service ::
  "(dir_site \<Rightarrow> bool) \<Rightarrow> byte list option \<Rightarrow> transfer_record \<Rightarrow> bool \<Rightarrow> u64 \<Rightarrow> directory \<Rightarrow> kworld \<Rightarrow>
     (errno option \<times> transfer_record \<times> directory \<times> kworld) option" where
  "register_service dmem uri rec one_shot owner d w =
     (if \<not> valid_uri uri \<or> \<not> rec_moved rec \<or> \<not> tr_valid (rec_resource rec) then Some (Some EINVAL, rec, d, w)
      else if \<not> dmem D_uri \<or> \<not> dmem D_entries then Some (Some ENOMEM, rec, d, w)
      else if find_locked (the uri) d \<noteq> None then Some (Some EEXIST, rec, d, w)
      else let (object, resource, es) = tr_take_object_to_table (rec_resource rec);
               rec1 = rec\<lparr>rec_resource := resource\<rparr>
           in do { w1 \<leftarrow> apply_events es w;
                   (if object = None then Some (Some EINVAL, rec1, d, w1)
                    else if find_locked (the uri) d \<noteq> None
                    then do { w2 \<leftarrow> apply_events (release_table_root object) w1; Some (Some EEXIST, rec1, d, w2) }
                    else Some (None, rec1,
                           d\<lparr>dir_entries := dir_entries d @
                             [\<lparr>de_uri = the uri, de_object = object, de_metadata = tr_meta (rec_resource rec),
                               de_one_shot = one_shot, de_owner = owner\<rparr>]\<rparr>, w1)) })"

text \<open>
  A one-shot or unique capability leaves the directory. Its handle is first copied and then
  move-assigned from the entry: the assignment finds the same object and changes nothing, and
  the removal of the entry drops the entry's reference.
\<close>

definition resolve_service ::
  "byte list option \<Rightarrow> transferred_resource \<Rightarrow> directory \<Rightarrow> kworld \<Rightarrow>
     (errno option \<times> transferred_resource \<times> directory \<times> kworld) option" where
  "resolve_service uri res d w =
     (if \<not> valid_uri uri then Some (Some EINVAL, res, d, w)
      else case find_locked (the uri) d of
        None \<Rightarrow> Some (Some ENOENT, res, d, w)
      | Some index \<Rightarrow>
          (let value = dir_entries d ! index
           in case de_object value of
             None \<Rightarrow> Some (Some EIO, res, d, w)
           | Some ob \<Rightarrow>
               (let (object, es) = h_copy (de_object value);
                    one_shot = (de_one_shot value \<or> object_unique w ob);
                    (object1, value_object, es1) =
                      (if one_shot then h_assign_move object (de_object value) else (object, de_object value, []));
                    d1 = (if one_shot then d\<lparr>dir_entries := remove_at index (dir_entries d)\<rparr> else d);
                    es2 = (if one_shot then snd (h_drop value_object) else []);
                    (temp, es3) = tr_make object1 (de_metadata value);
                    (res1, temp1, es4) = tr_assign_move res temp
                in do { w1 \<leftarrow> apply_events (es @ es1 @ es2 @ es3 @ es4 @ tr_destroy temp1 @
                                (if one_shot then [Ev_handoff ob table_root in_transit] else [])) w;
                        Some (None, res1, d1, w1) })))"

definition unregister_service ::
  "byte list option \<Rightarrow> u64 \<Rightarrow> directory \<Rightarrow> kworld \<Rightarrow> (errno option \<times> directory \<times> kworld) option" where
  "unregister_service uri owner d w =
     (if \<not> valid_uri uri then Some (Some EINVAL, d, w)
      else case find_locked (the uri) d of
        None \<Rightarrow> Some (Some ENOENT, d, w)
      | Some index \<Rightarrow>
          if owner \<noteq> 0 \<and> de_owner (dir_entries d ! index) \<noteq> owner then Some (Some EACCES, d, w)
          else do { w1 \<leftarrow> apply_events (release_entry (dir_entries d ! index)) w;
                    Some (None, d\<lparr>dir_entries := remove_at index (dir_entries d)\<rparr>, w1) })"

text \<open>
  \<^verbatim>\<open>list_services\<close>: the loop appends whole names with a terminating 0 while they fit;
  it yields the bytes, the index after the last listed entry, and the number of entries.
\<close>

fun list_loop :: "dir_entry list \<Rightarrow> nat \<Rightarrow> nat \<Rightarrow> byte list \<Rightarrow> nat \<Rightarrow> nat \<Rightarrow> byte list \<times> nat \<times> nat" where
  "list_loop [] i requested_bytes records next n = (records, next, n)"
| "list_loop (e # es) i requested_bytes records next n =
     (if length (de_uri e) + 1 > requested_bytes - length records then (records, next, n)
      else list_loop es (i + 1) requested_bytes (records @ de_uri e @ [0]) (i + 1) (n + 1))"

definition list_services ::
  "(dir_site \<Rightarrow> bool) \<Rightarrow> nat \<Rightarrow> u64 \<Rightarrow> byte list \<times> nat \<times> nat \<Rightarrow> directory \<Rightarrow>
     errno option \<times> byte list \<times> nat \<times> nat" where
  "list_services dmem offset requested_bytes outs d =
     (if requested_bytes > NA_CHANNEL_MAX_MESSAGE_BYTES then (Some EINVAL, outs)
      else if \<not> dmem D_records then (Some ENOMEM, outs)
      else if offset > length (dir_entries d) then (Some EINVAL, outs)
      else (None, list_loop (drop offset (dir_entries d)) offset (unat requested_bytes) [] offset 0))"

section \<open>Listeners\<close>

text \<open>The endpoint behind a handle, if it is one and has a state.\<close>

definition listener_channel :: "kworld \<Rightarrow> khandle \<Rightarrow> (sptr \<times> nat) option" where
  "listener_channel w h =
     (case h of
        None \<Rightarrow> None
      | Some ob \<Rightarrow>
          (case endpoint_of w ob of
             None \<Rightarrow> None
           | Some (s, side) \<Rightarrow> if s = 0 then None else Some (s, side)))"

definition listener_open :: "kworld \<Rightarrow> khandle \<Rightarrow> bool" where
  "listener_open w h =
     (case listener_channel w h of
        None \<Rightarrow> False
      | Some (s, side) \<Rightarrow>
          (case get_state w s of
             None \<Rightarrow> False
           | Some st \<Rightarrow> state_signals st side AND NA_SIGNAL_PEER_CLOSED = 0))"

definition listen_service ::
  "(dir_site \<Rightarrow> bool) \<Rightarrow> byte list option \<Rightarrow> khandle \<Rightarrow> khandle \<Rightarrow> u64 \<Rightarrow> u64 \<Rightarrow> directory \<Rightarrow> kworld \<Rightarrow>
     (errno option \<times> directory \<times> kworld) option" where
  "listen_service dmem uri send_endpoint descriptor max_pending owner d w =
     (let fail = (\<lambda>err. do { w1 \<leftarrow> apply_events (release_table_root send_endpoint @ release_table_root descriptor) w;
                             Some (Some err, d, w1) })
      in if \<not> valid_uri uri \<or> max_pending = 0 \<or> send_endpoint = None \<or> descriptor = None then fail EINVAL
         else case listener_channel w send_endpoint of
           None \<Rightarrow> fail EINVAL
         | Some (s, side) \<Rightarrow>
             if \<not> object_is_descriptor w descriptor then fail EINVAL
             else do { st \<leftarrow> get_state w s;
               (if max_pending > cs_max_messages st then fail EINVAL
                else if \<not> dmem D_uri \<or> \<not> dmem D_listeners then fail ENOMEM
                else if find_locked (the uri) d \<noteq> None then fail EEXIST
                else let entry = \<lparr>le_uri = the uri, le_send_endpoint = send_endpoint, le_descriptor = descriptor,
                                  le_max_pending = max_pending, le_owner = owner\<rparr>
                     in case find_listener_locked (the uri) d of
                       None \<Rightarrow> Some (None, d\<lparr>dir_listeners := dir_listeners d @ [entry]\<rparr>, w)
                     | Some existing \<Rightarrow>
                         (let old = dir_listeners d ! existing
                          in if listener_open w (le_send_endpoint old) then fail EEXIST
                             else do { w1 \<leftarrow> apply_events (release_listener old) w;
                                       Some (None, d\<lparr>dir_listeners :=
                                         remove_at existing (dir_listeners d) @ [entry]\<rparr>, w1) })) })"

section \<open>Connecting\<close>

text \<open>What the search for a listener yields: nothing, a stale listener, or a live one.\<close>

datatype listener_found = No_listener | Stale_listener nat | Live_listener nat

definition find_listener :: "byte list \<Rightarrow> directory \<Rightarrow> kworld \<Rightarrow> listener_found" where
  "find_listener uri d w =
     (case find_listener_locked uri d of
        None \<Rightarrow> No_listener
      | Some index \<Rightarrow>
          (let l = dir_listeners d ! index
           in if listener_channel w (le_send_endpoint l) = None \<or> \<not> object_is_descriptor w (le_descriptor l) \<or>
                 \<not> listener_open w (le_send_endpoint l)
              then Stale_listener index else Live_listener index))"

text \<open>The checks of the requested protocol, revision, features and rights.\<close>

definition connect_error ::
  "na_protocol_descriptor \<Rightarrow> byte list \<Rightarrow> u64 \<Rightarrow> u64 \<Rightarrow> u64 \<Rightarrow> errno option" where
  "connect_error pd expected_uuid requested_rights requested_revision requested_features =
     (if pd_uuid pd \<noteq> expected_uuid then Some EINVAL
      else if requested_revision \<noteq> 0 \<and> requested_revision > pd_revision pd then Some ENOTSUP
      else if requested_features AND NOT (pd_features pd) \<noteq> 0 then Some ENOTSUP
      else if (if requested_rights = 0 then pd_protocol_rights pd else requested_rights)
                AND NOT (pd_protocol_rights pd) \<noteq> 0 then Some EACCES
      else None)"

definition connect_create_errno :: "na_status \<Rightarrow> errno" where
  "connect_create_errno status =
     (case status of
        NA_STATUS_RESOURCE_EXHAUSTED \<Rightarrow> ENOMEM
      | NA_STATUS_ACCESS_DENIED \<Rightarrow> EACCES
      | NA_STATUS_INVALID_ARGUMENT \<Rightarrow> EINVAL
      | _ \<Rightarrow> EIO)"

definition connect_enqueue_errno :: "na_status \<Rightarrow> errno" where
  "connect_enqueue_errno status =
     (case status of
        NA_STATUS_WOULD_BLOCK \<Rightarrow> EAGAIN
      | NA_STATUS_RESOURCE_EXHAUSTED \<Rightarrow> ENOMEM
      | _ \<Rightarrow> EIO)"

text \<open>
  The delivery of the server endpoint to the listener. When it fails, the message, the record
  and the client endpoint are destroyed, in this order.
\<close>

definition connect_deliver ::
  "(alloc_site \<Rightarrow> bool) \<Rightarrow> sptr \<Rightarrow> nat \<Rightarrow> u64 \<Rightarrow> khandle \<Rightarrow> khandle \<Rightarrow> metadata \<Rightarrow> kworld \<Rightarrow>
     (errno option \<times> kworld) option" where
  "connect_deliver mem s side max_pending client server server_meta w =
     (let (server_res, es) = tr_make server server_meta;
          rec = \<lparr>rec_source = NA_HANDLE_INVALID, rec_moved = True, rec_resource = server_res, rec_token = tk_default\<rparr>
      in do { w1 \<leftarrow> apply_events es w;
              (if \<not> mem A_message
               then do { w2 \<leftarrow> apply_events (rec_destroy rec @ snd (h_drop client)) w1; Some (Some ENOMEM, w2) }
               else let msg = message_new (mem A_message_bytes) (mem A_message_resources) 0 1;
                        m = kw_next w1;
                        w2 = (put_message m msg w1)\<lparr>kw_next := kw_next w1 + 1\<rparr>
                    in if \<not> message_valid msg
                       then do { w3 \<leftarrow> delete_message m w2;
                                 w4 \<leftarrow> apply_events (rec_destroy rec @ snd (h_drop client)) w3;
                                 Some (Some ENOMEM, w4) }
                       else do { (status, records, w3) \<leftarrow> enqueue_kernel s side m [rec] max_pending w2;
                                 (if status \<noteq> NA_STATUS_OK
                                  then do { w4 \<leftarrow> delete_message m w3;
                                            w5 \<leftarrow> apply_events (concat (map rec_destroy records) @
                                                     snd (h_drop client)) w4;
                                            Some (Some (connect_enqueue_errno status), w5) }
                                  else do { w4 \<leftarrow> apply_events (concat (map rec_destroy records)) w3;
                                            Some (None, w4) }) }) })"

text \<open>The connection to a live listener with the descriptor \<open>pd\<close>.\<close>

definition connect_live ::
  "(protocol_site \<Rightarrow> bool) \<Rightarrow> (alloc_site \<Rightarrow> bool) \<Rightarrow> scope_ids \<Rightarrow> umem \<Rightarrow> na_protocol_descriptor \<Rightarrow>
     listener_entry \<Rightarrow> u64 \<Rightarrow> transferred_resource \<Rightarrow> kworld \<Rightarrow>
     (errno option \<times> transferred_resource \<times> u64 \<times> u64 \<times> kworld) option" where
  "connect_live pmem mem sc um pd l requested_rights res0 w =
     do { (s, side) \<leftarrow> listener_channel w (le_send_endpoint l);
          (status, client, server, client_meta, server_meta, w1) \<leftarrow> create_protocol_endpoint_objects pmem sc um pd 0 w;
          (if status \<noteq> NA_STATUS_OK then Some (Some (connect_create_errno status), res0, 0, 0, w1)
           else do { (err, w2) \<leftarrow> connect_deliver mem s side (le_max_pending l) client server server_meta w1;
                     (case err of
                        Some x \<Rightarrow> Some (Some x, res0, 0, 0, w2)
                      | None \<Rightarrow>
                          (let rights = (if requested_rights = 0 then pd_protocol_rights pd else requested_rights);
                               (temp, es) = tr_make client (client_meta\<lparr>md_protocol_rights :=
                                              rights OR NA_PROTOCOL_RIGHT_INVOKE\<rparr>);
                               (res1, temp1, es1) = tr_assign_move res0 temp
                           in do { w3 \<leftarrow> apply_events (es @ es1 @ tr_destroy temp1) w2;
                                   Some (None, res1, pd_revision pd, pd_features pd, w3) })) }) }"

definition connect_service ::
  "(protocol_site \<Rightarrow> bool) \<Rightarrow> (alloc_site \<Rightarrow> bool) \<Rightarrow> scope_ids \<Rightarrow> umem \<Rightarrow> (oid \<Rightarrow> na_protocol_descriptor) \<Rightarrow>
     byte list option \<Rightarrow> byte list \<Rightarrow> u64 \<Rightarrow> u64 \<Rightarrow> u64 \<Rightarrow> transferred_resource \<Rightarrow> directory \<Rightarrow> kworld \<Rightarrow>
     (errno option \<times> transferred_resource \<times> u64 \<times> u64 \<times> directory \<times> kworld) option" where
  "connect_service pmem mem sc um descs uri expected_uuid requested_rights requested_revision requested_features
     client_resource d w0 =
     (let (res0, rest, es0) = tr_assign_move client_resource tr_default
      in do { w \<leftarrow> apply_events (es0 @ tr_destroy rest) w0;
        (if \<not> valid_uri uri then Some (Some EINVAL, res0, 0, 0, d, w)
         else case find_listener (the uri) d w of
           No_listener \<Rightarrow> Some (Some ENOENT, res0, 0, 0, d, w)
         | Stale_listener index \<Rightarrow>
             do { w1 \<leftarrow> apply_events (release_listener (dir_listeners d ! index)) w;
                  Some (Some ENOENT, res0, 0, 0, d\<lparr>dir_listeners := remove_at index (dir_listeners d)\<rparr>, w1) }
         | Live_listener index \<Rightarrow>
             (let l = dir_listeners d ! index; pd = descs (the (le_descriptor l))
              in case connect_error pd expected_uuid requested_rights requested_revision requested_features of
                Some err \<Rightarrow> Some (Some err, res0, 0, 0, d, w)
              | None \<Rightarrow>
                  do { (err, res, revision, features, w1) \<leftarrow>
                         connect_live pmem mem sc um pd l requested_rights res0 w;
                       Some (err, res, revision, features, d, w1) })) })"

section \<open>Departing owners\<close>

text \<open>The two loops: the handles of the owner's entries are collected and the entries removed.\<close>

fun take_owned :: "('e \<Rightarrow> u64) \<Rightarrow> u64 \<Rightarrow> 'e list \<Rightarrow> 'e list \<times> 'e list" where
  "take_owned own owner [] = ([], [])"
| "take_owned own owner (e # es) =
     (let (taken, kept) = take_owned own owner es
      in if own e \<noteq> owner then (taken, e # kept) else (e # taken, kept))"

definition cleanup_owner :: "u64 \<Rightarrow> directory \<Rightarrow> kworld \<Rightarrow> (directory \<times> kworld) option" where
  "cleanup_owner owner d w =
     (if owner = 0 then Some (d, w)
      else let (objects, entries) = take_owned de_owner owner (dir_entries d);
               (endpoints, listeners) = take_owned le_owner owner (dir_listeners d)
           in do { w1 \<leftarrow> apply_events (concat (map release_entry objects) @
                            concat (map release_listener endpoints)) w;
                   Some (d\<lparr>dir_entries := entries, dir_listeners := listeners\<rparr>, w1) })"

text \<open>
  Kernel services: the global directory, and the registration of a kernel object, whose
  handle the record takes over. A record that was not consumed is destroyed on return.
\<close>

definition register_kernel_service ::
  "(dir_site \<Rightarrow> bool) \<Rightarrow> byte list option \<Rightarrow> khandle \<Rightarrow> metadata \<Rightarrow> bool \<Rightarrow> directory option \<Rightarrow> kworld \<Rightarrow>
     (directory option \<times> kworld) option" where
  "register_kernel_service dmem uri object meta one_shot global_directory w =
     (case global_directory of
        None \<Rightarrow> do { w1 \<leftarrow> apply_events (snd (h_drop object)) w; Some (None, w1) }
      | Some d \<Rightarrow>
          (let (object1, es0) = h_copy object;
               (resource, es) = tr_make object1 meta;
               rec = \<lparr>rec_source = NA_HANDLE_INVALID, rec_moved = True, rec_resource = resource,
                      rec_token = tk_default\<rparr>
           in do { w1 \<leftarrow> apply_events (es0 @ es) w;
                   (_, rec1, d1, w2) \<leftarrow> register_service dmem uri rec one_shot 0 d w1;
                   w3 \<leftarrow> apply_events (rec_destroy rec1 @ snd (h_drop object)) w2;
                   Some (Some d1, w3) }))"

end
