(* ===== verification/Directory_Inv.thy ===== *)
theory Directory_Inv
  imports Service_Directory Event_Flow
begin

text \<open>
  The service directory on the kernel heap. \<open>dir_ok\<close>: names are valid and unique, and every
  entry has an object. \<open>dir_inv rest d w\<close>: in addition the kernel heap satisfies the
  invariant of the channels when the references of the directory are counted with \<open>rest\<close>, the
  references held elsewhere. Every operation keeps it, and none touches freed memory.
\<close>

definition dir_ok :: "directory \<Rightarrow> bool" where
  "dir_ok d \<longleftrightarrow>
     distinct (map de_uri (dir_entries d)) \<and> distinct (map le_uri (dir_listeners d)) \<and>
     (\<forall>e \<in> set (dir_entries d). valid_uri (Some (de_uri e)) \<and> de_object e \<noteq> None) \<and>
     (\<forall>l \<in> set (dir_listeners d). valid_uri (Some (le_uri l)) \<and> le_send_endpoint l \<noteq> None \<and> le_descriptor l \<noteq> None)"

definition listener_refs :: "listener_entry \<Rightarrow> oid \<Rightarrow> nat" where
  "listener_refs l ob = hnum (le_send_endpoint l) ob + hnum (le_descriptor l) ob"

definition dir_refs :: "directory \<Rightarrow> oid \<Rightarrow> nat" where
  "dir_refs d ob = (\<Sum>e\<leftarrow>dir_entries d. hnum (de_object e) ob) + (\<Sum>l\<leftarrow>dir_listeners d. listener_refs l ob)"

definition dir_inv :: "(oid \<Rightarrow> nat) \<Rightarrow> directory \<Rightarrow> kworld \<Rightarrow> bool" where
  "dir_inv rest d w \<longleftrightarrow> dir_ok d \<and> chan_ok (\<lambda>ob. dir_refs d ob + rest ob) w"

section \<open>Lookup\<close>

lemma find_uri_None: "find_uri key uri es i = None \<longleftrightarrow> uri \<notin> key ` set es"
  by (induction key uri es i rule: find_uri.induct) auto

lemma find_uri_Some:
  assumes "find_uri key uri es i = Some j"
  shows "i \<le> j \<and> j - i < length es \<and> key (es ! (j - i)) = uri"
  using assms
proof (induction key uri es i rule: find_uri.induct)
  case (2 key uri e es i)
  show ?case
  proof (cases "length (key e) = length uri \<and> key e = uri")
    case False
    with 2 have "Suc i \<le> j \<and> j - Suc i < length es \<and> key (es ! (j - Suc i)) = uri" by auto
    moreover from this obtain k where "j = Suc i + k" using le_Suc_ex by blast
    ultimately show ?thesis by simp
  qed (use "2.prems" in auto)
qed simp

lemma find_locked_None: "find_locked uri d = None \<longleftrightarrow> uri \<notin> de_uri ` set (dir_entries d)"
  by (simp add: find_locked_def find_uri_None)

lemma find_locked_Some:
  "find_locked uri d = Some i \<Longrightarrow> i < length (dir_entries d) \<and> de_uri (dir_entries d ! i) = uri"
  unfolding find_locked_def using find_uri_Some by fastforce

lemma find_listener_None: "find_listener_locked uri d = None \<longleftrightarrow> uri \<notin> le_uri ` set (dir_listeners d)"
  by (simp add: find_listener_locked_def find_uri_None)

lemma find_listener_Some:
  "find_listener_locked uri d = Some i \<Longrightarrow> i < length (dir_listeners d) \<and> le_uri (dir_listeners d ! i) = uri"
  unfolding find_listener_locked_def using find_uri_Some by fastforce

lemma sum_remove_at:
  assumes "i < length xs"
  shows "(\<Sum>x\<leftarrow>xs. f x) = (f (xs ! i) :: nat) + (\<Sum>x\<leftarrow>remove_at i xs. f x)"
proof -
  have "xs = take i xs @ xs ! i # drop (Suc i) xs" using assms by (rule id_take_nth_drop)
  then have "sum_list (map f xs) = sum_list (map f (take i xs @ xs ! i # drop (Suc i) xs))" by simp
  then show ?thesis by (simp add: remove_at_def)
qed

lemma remove_at_props:
  assumes "i < length xs"
  shows "set (remove_at i xs) \<subseteq> set xs" "distinct (map f xs) \<Longrightarrow> distinct (map f (remove_at i xs))"
    "distinct (map f xs) \<Longrightarrow> f (xs ! i) \<notin> f ` set (remove_at i xs)"
    "distinct (map f xs) \<Longrightarrow> remove_at i xs = filter (\<lambda>x. f x \<noteq> f (xs ! i)) xs"
proof -
  have xs: "xs = take i xs @ xs ! i # drop (Suc i) xs" using assms by (rule id_take_nth_drop)
  show "set (remove_at i xs) \<subseteq> set xs" by (auto simp: remove_at_def dest: in_set_takeD in_set_dropD)
  assume "distinct (map f xs)"
  then have d: "distinct (map f (take i xs @ xs ! i # drop (Suc i) xs))" using xs by simp
  then show "distinct (map f (remove_at i xs))" "f (xs ! i) \<notin> f ` set (remove_at i xs)"
    by (auto simp: remove_at_def)
  have "filter (\<lambda>x. f x \<noteq> f (xs ! i)) (take i xs @ xs ! i # drop (Suc i) xs) = remove_at i xs"
  proof -
    have "filter (\<lambda>x. f x \<noteq> f (xs ! i)) (take i xs) = take i xs"
      "filter (\<lambda>x. f x \<noteq> f (xs ! i)) (drop (Suc i) xs) = drop (Suc i) xs"
      using d by (auto intro!: filter_True) (metis imageI)+
    then show ?thesis by (simp add: remove_at_def)
  qed
  then show "remove_at i xs = filter (\<lambda>x. f x \<noteq> f (xs ! i)) xs" using xs by simp
qed

lemma dir_refs_remove_entry:
  assumes "i < length (dir_entries d)"
  shows "dir_refs d ob = hnum (de_object (dir_entries d ! i)) ob + dir_refs (d\<lparr>dir_entries := remove_at i (dir_entries d)\<rparr>) ob"
  using sum_remove_at [OF assms, of "\<lambda>e. hnum (de_object e) ob"] by (simp add: dir_refs_def)

lemma dir_refs_remove_listener:
  assumes "i < length (dir_listeners d)"
  shows "dir_refs d ob = listener_refs (dir_listeners d ! i) ob + dir_refs (d\<lparr>dir_listeners := remove_at i (dir_listeners d)\<rparr>) ob"
  using sum_remove_at [OF assms, of "\<lambda>l. listener_refs l ob"] by (simp add: dir_refs_def)

lemma dir_ok_remove:
  "dir_ok d \<Longrightarrow> i < length (dir_entries d) \<Longrightarrow> dir_ok (d\<lparr>dir_entries := remove_at i (dir_entries d)\<rparr>)"
  "dir_ok d \<Longrightarrow> i < length (dir_listeners d) \<Longrightarrow> dir_ok (d\<lparr>dir_listeners := remove_at i (dir_listeners d)\<rparr>)"
  using remove_at_props(1) [of i "dir_entries d"] remove_at_props(2) [of i "dir_entries d" de_uri]
    remove_at_props(1) [of i "dir_listeners d"] remove_at_props(2) [of i "dir_listeners d" le_uri]
  by (auto simp: dir_ok_def)

section \<open>Releases\<close>

lemma ev_moves_release_root: "ev_moves (release_table_root h) (hnum h) (\<lambda>_. 0)"
proof (cases h)
  case (Some ob)
  with ev_moves_append [OF ev_moves_hook(2) [of ob table_root] ev_moves_drop [of h, unfolded Some]] show ?thesis
    by (simp add: release_table_root_def)
qed (simp add: release_table_root_def h_drop_def hnum_def [abs_def])

lemma ev_moves_release_entry: "ev_moves (release_entry e) (hnum (de_object e)) (\<lambda>_. 0)"
  by (simp add: release_entry_def ev_moves_release_root)

lemma ev_moves_release_pair:
  "ev_moves (release_table_root a @ release_table_root b) (\<lambda>ob. hnum a ob + hnum b ob) (\<lambda>_. 0)"
  by (rule ev_moves_append [OF ev_moves_part [OF ev_moves_release_root, of _ a "hnum b" "hnum b"] ev_moves_release_root]) simp_all

lemma ev_moves_release_listener: "ev_moves (release_listener l) (listener_refs l) (\<lambda>_. 0)"
  using ev_moves_release_pair [of "le_send_endpoint l" "le_descriptor l"]
  by (simp add: release_listener_def listener_refs_def [abs_def])

text \<open>Events on part of the references, with the directory replaced.\<close>

lemma dir_events:
  assumes "chan_ok (\<lambda>ob. dir_refs d ob + rest ob) w" "ev_moves es A A'"
    "\<And>ob. dir_refs d ob + rest ob = A ob + F ob" "\<And>ob. dir_refs d' ob + rest' ob = A' ob + F ob"
  obtains w' where "apply_events es w = Some w'" "chan_ok (\<lambda>ob. dir_refs d' ob + rest' ob) w'" "same_core w w'"
proof -
  have "chan_ok (\<lambda>ob. A ob + F ob) w" using assms(1,3) by simp
  then obtain w' where w': "apply_events es w = Some w'" "chan_ok (\<lambda>ob. A' ob + F ob) w'" "same_core w w'"
    using chan_ok_moves [OF _ assms(2)] by blast
  moreover have "(\<lambda>ob. dir_refs d' ob + rest' ob) = (\<lambda>ob. A' ob + F ob)" using assms(4) by auto
  ultimately show ?thesis using that by simp
qed

section \<open>Registration\<close>

lemma dir_refs_append:
  "dir_refs (d\<lparr>dir_entries := dir_entries d @ [e]\<rparr>) ob = hnum (de_object e) ob + dir_refs d ob"
  "dir_refs (d\<lparr>dir_listeners := dir_listeners d @ [l]\<rparr>) ob = listener_refs l ob + dir_refs d ob"
  by (simp_all add: dir_refs_def)

lemma register_service_ok:
  assumes "dir_inv (\<lambda>ob. rec_refs rec ob + rest ob) d w"
  shows "\<exists>err rec' d' w'. register_service dmem uri rec one_shot owner d w = Some (err, rec', d', w') \<and>
    dir_inv (\<lambda>ob. rec_refs rec' ob + rest ob) d' w' \<and> same_core w w' \<and>
    (if valid_uri uri \<and> rec_moved rec \<and> tr_valid (rec_resource rec) \<and> dmem D_uri \<and> dmem D_entries \<and>
        the uri \<notin> de_uri ` set (dir_entries d)
     then err = None \<and> tr_object (rec_resource rec') = None \<and>
       d' = d\<lparr>dir_entries := dir_entries d @ [\<lparr>de_uri = the uri, de_object = tr_object (rec_resource rec),
         de_metadata = tr_meta (rec_resource rec), de_one_shot = one_shot, de_owner = owner\<rparr>]\<rparr>
     else err \<noteq> None \<and> rec' = rec \<and> d' = d \<and> w' = w)"
proof (cases "valid_uri uri \<and> rec_moved rec \<and> tr_valid (rec_resource rec) \<and> dmem D_uri \<and> dmem D_entries \<and>
    the uri \<notin> de_uri ` set (dir_entries d)")
  case True
  obtain h r es where take: "tr_take_object_to_table (rec_resource rec) = (h, r, es)" by (metis prod.collapse)
  note t = ev_moves_to_table [OF take]
  have h: "h \<noteq> None" using True t(2) by (simp add: tr_valid_def)
  let ?e = "\<lparr>de_uri = the uri, de_object = tr_object (rec_resource rec), de_metadata = tr_meta (rec_resource rec),
    de_one_shot = one_shot, de_owner = owner\<rparr>"
  let ?d = "d\<lparr>dir_entries := dir_entries d @ [?e]\<rparr>" and ?rec = "rec\<lparr>rec_resource := r\<rparr>"
  have ok: "dir_ok d" "chan_ok (\<lambda>ob. dir_refs d ob + (rec_refs rec ob + rest ob)) w" using assms by (simp_all add: dir_inv_def)
  obtain w' where w': "apply_events es w = Some w'" "chan_ok (\<lambda>ob. dir_refs ?d ob + (rec_refs ?rec ob + rest ob)) w'"
      "same_core w w'"
  proof (rule dir_events [OF ok(2) t(1)])
    show "dir_refs d ob + (rec_refs rec ob + rest ob) =
        hnum (tr_object (rec_resource rec)) ob + (dir_refs d ob + token_refs (rec_token rec) ob + rest ob)" for ob
      by (simp add: rec_refs_def)
    show "dir_refs ?d ob + (rec_refs ?rec ob + rest ob) = hnum h ob + (dir_refs d ob + token_refs (rec_token rec) ob + rest ob)" for ob
      using t(2,3) by (simp add: dir_refs_append rec_refs_def)
  qed
  have "\<exists>bs. uri = Some bs" using True by (cases uri) (auto simp: valid_uri_def)
  then have "dir_ok ?d" using ok(1) True h t(2) by (auto simp: dir_ok_def)
  moreover have "register_service dmem uri rec one_shot owner d w = Some (None, ?rec, ?d, w')"
    using True take w'(1) h t(2) find_locked_None [of "the uri" d] by (auto simp: register_service_def Let_def)
  ultimately show ?thesis unfolding dir_inv_def using True w'(2,3) t(3) by auto
next
  case False
  then have "\<exists>err. register_service dmem uri rec one_shot owner d w = Some (Some err, rec, d, w)"
    using find_locked_None [of "the uri" d] by (auto simp: register_service_def)
  then obtain err where "register_service dmem uri rec one_shot owner d w = Some (Some err, rec, d, w)" ..
  with assms show ?thesis unfolding if_not_P [OF False]
    by (intro exI [of _ "Some err"] exI [of _ rec] exI [of _ d] exI [of _ w]) simp
qed

section \<open>Resolution\<close>

text \<open>The events of handing out the handle of an entry.\<close>

definition resolve_events :: "bool \<Rightarrow> khandle \<Rightarrow> metadata \<Rightarrow> transferred_resource \<Rightarrow> cap_event list" where
  "resolve_events one_shot v meta res =
     (let (temp, es3) = tr_make v meta; (res1, temp1, es4) = tr_assign_move res temp
      in snd (h_copy v) @ (if one_shot then snd (h_drop v) else []) @ es3 @ es4 @ tr_destroy temp1 @
         (case v of Some ob \<Rightarrow> if one_shot then [Ev_handoff ob table_root in_transit] else [] | None \<Rightarrow> []))"

lemma resolve_events_move:
  "ev_moves (resolve_events one_shot v meta res) (\<lambda>ob. hnum v ob + hnum (tr_object res) ob)
     (\<lambda>ob. (if one_shot then 0 else hnum v ob) + hnum v ob)"
proof -
  obtain temp es3 where temp: "tr_make v meta = (temp, es3)" by force
  obtain res1 temp1 es4 where res1: "tr_assign_move res temp = (res1, temp1, es4)" by (metis prod.collapse)
  have t: "tr_object temp = v" "ev_moves es3 (hnum v) (hnum v)" using ev_moves_make [of v meta] temp by simp_all
  note a = ev_moves_tr_assign [OF res1]
  define E where "E = (\<lambda>ob. if one_shot then 0 else hnum v ob)"
  have 1: "ev_moves (snd (h_copy v)) (\<lambda>ob. hnum v ob + hnum (tr_object res) ob)
      (\<lambda>ob. hnum v ob + hnum v ob + hnum (tr_object res) ob)"
    by (rule ev_moves_part [OF ev_moves_copy, of _ v "hnum (tr_object res)"]) simp_all
  have 2: "ev_moves (if one_shot then snd (h_drop v) else []) (\<lambda>ob. hnum v ob + hnum v ob + hnum (tr_object res) ob)
      (\<lambda>ob. E ob + hnum v ob + hnum (tr_object res) ob)"
  proof (cases one_shot)
    case True
    then show ?thesis by (simp add: E_def)
        (rule ev_moves_part [OF ev_moves_drop, of _ v "\<lambda>ob. hnum v ob + hnum (tr_object res) ob"], simp_all)
  qed (simp add: E_def)
  have 3: "ev_moves es3 (\<lambda>ob. E ob + hnum v ob + hnum (tr_object res) ob) (\<lambda>ob. E ob + hnum v ob + hnum (tr_object res) ob)"
    by (rule ev_moves_part [OF t(2), of _ "\<lambda>ob. E ob + hnum (tr_object res) ob"]) simp_all
  have 4: "ev_moves es4 (\<lambda>ob. E ob + hnum v ob + hnum (tr_object res) ob) (\<lambda>ob. E ob + hnum v ob + hnum (tr_object temp1) ob)"
    by (rule ev_moves_part [OF a(1), of _ E]) (simp_all add: t(1) a(2))
  have 5: "ev_moves (tr_destroy temp1) (\<lambda>ob. E ob + hnum v ob + hnum (tr_object temp1) ob) (\<lambda>ob. E ob + hnum v ob)"
    by (rule ev_moves_part [OF ev_moves_destroy, of _ temp1 "\<lambda>ob. E ob + hnum v ob"]) simp_all
  have 6: "ev_moves (case v of Some ob \<Rightarrow> if one_shot then [Ev_handoff ob table_root in_transit] else [] | None \<Rightarrow> [])
      (\<lambda>ob. E ob + hnum v ob) (\<lambda>ob. E ob + hnum v ob)"
  proof (cases v)
    case (Some ob)
    then show ?thesis using ev_moves_frame(2) [OF ev_moves_hook(3) [of ob table_root in_transit], of E] by simp
  qed simp
  have "ev_moves (resolve_events one_shot v meta res) (\<lambda>ob. hnum v ob + hnum (tr_object res) ob) (\<lambda>ob. E ob + hnum v ob)"
    unfolding resolve_events_def Let_def temp res1 prod.case
    by (rule ev_moves_append [OF 1 ev_moves_append [OF 2 ev_moves_append [OF 3 ev_moves_append [OF 4 ev_moves_append [OF 5 6]]]]])
  then show ?thesis by (simp add: E_def)
qed

lemma resolve_service_found:
  assumes "valid_uri uri" "find_locked (the uri) d = Some i" "de_object (dir_entries d ! i) = Some ob"
    "e = dir_entries d ! i" "gone \<longleftrightarrow> de_one_shot e \<or> object_unique w ob"
  shows "resolve_service uri res d w =
    do { w1 \<leftarrow> apply_events (resolve_events gone (Some ob) (de_metadata e) res) w;
         Some (None, \<lparr>tr_object = Some ob, tr_meta = de_metadata e, tr_in_transit = True\<rparr>,
           if gone then d\<lparr>dir_entries := remove_at i (dir_entries d)\<rparr> else d, w1) }"
proof -
  obtain res1 temp1 es4 where res1:
      "tr_assign_move res (fst (tr_make (Some ob) (de_metadata e))) = (res1, temp1, es4)" by (metis prod.collapse)
  have "res1 = \<lparr>tr_object = Some ob, tr_meta = de_metadata e, tr_in_transit = True\<rparr>"
    using ev_moves_tr_assign(2-4) [OF res1] by (cases res1) (simp add: tr_make_def Let_def)
  then show ?thesis using assms(1-3) res1
    by (cases gone) (simp_all add: resolve_service_def resolve_events_def assms(4) [symmetric] assms(5) [symmetric] Let_def h_copy_def
        h_assign_move_def tr_make_def)
qed

lemma resolve_service_ok:
  assumes "dir_inv (\<lambda>ob. hnum (tr_object res) ob + rest ob) d w"
  shows "\<exists>err res' d' w'. resolve_service uri res d w = Some (err, res', d', w') \<and>
    dir_inv (\<lambda>ob. hnum (tr_object res') ob + rest ob) d' w' \<and> same_core w w' \<and>
    (if valid_uri uri \<and> the uri \<in> de_uri ` set (dir_entries d)
     then err = None \<and> (\<exists>e \<in> set (dir_entries d). de_uri e = the uri \<and>
       res' = \<lparr>tr_object = de_object e, tr_meta = de_metadata e, tr_in_transit = True\<rparr> \<and>
       d' = (if de_one_shot e \<or> object_unique w (the (de_object e))
             then d\<lparr>dir_entries := filter (\<lambda>x. de_uri x \<noteq> the uri) (dir_entries d)\<rparr> else d))
     else err = Some (if valid_uri uri then ENOENT else EINVAL) \<and> res' = res \<and> d' = d \<and> w' = w)"
proof (cases "valid_uri uri \<and> the uri \<in> de_uri ` set (dir_entries d)")
  case True
  then obtain i where i: "find_locked (the uri) d = Some i" using find_locked_None [of "the uri" d] by auto
  have ok: "dir_ok d" "chan_ok (\<lambda>ob. dir_refs d ob + (hnum (tr_object res) ob + rest ob)) w"
    using assms by (simp_all add: dir_inv_def)
  define e where "e = dir_entries d ! i"
  have e: "i < length (dir_entries d)" "de_uri e = the uri" "e \<in> set (dir_entries d)"
    using find_locked_Some [OF i] by (simp_all add: e_def)
  then obtain p where p: "de_object e = Some p" using ok(1) by (auto simp: dir_ok_def)
  define gone where "gone \<longleftrightarrow> de_one_shot e \<or> object_unique w p"
  let ?d = "if gone then d\<lparr>dir_entries := remove_at i (dir_entries d)\<rparr> else d"
  let ?res = "\<lparr>tr_object = Some p, tr_meta = de_metadata e, tr_in_transit = True\<rparr>"
  have refs: "dir_refs d ob = hnum (Some p) ob + dir_refs (d\<lparr>dir_entries := remove_at i (dir_entries d)\<rparr>) ob" for ob
    using dir_refs_remove_entry [OF e(1), of ob] p by (simp add: e_def)
  obtain w' where w': "apply_events (resolve_events gone (Some p) (de_metadata e) res) w = Some w'"
      "chan_ok (\<lambda>ob. dir_refs ?d ob + (hnum (tr_object ?res) ob + rest ob)) w'" "same_core w w'"
  proof (rule dir_events [OF ok(2) resolve_events_move])
    let ?F = "\<lambda>ob. dir_refs (d\<lparr>dir_entries := remove_at i (dir_entries d)\<rparr>) ob + rest ob"
    show "dir_refs d ob + (hnum (tr_object res) ob + rest ob) = hnum (Some p) ob + hnum (tr_object res) ob + ?F ob" for ob
      using refs [of ob] by simp
    show "dir_refs ?d ob + (hnum (tr_object ?res) ob + rest ob) =
        (if gone then 0 else hnum (Some p) ob) + hnum (Some p) ob + ?F ob" for ob
      using refs [of ob] by simp
  qed
  have eq: "resolve_service uri res d w = Some (None, ?res, ?d, w')"
    using resolve_service_found [OF conjunct1 [OF True] i, of p e gone w res] p w'(1) e_def gone_def by simp
  have "dir_ok ?d" using ok(1) dir_ok_remove(1) [OF ok(1) e(1)] by simp
  moreover have "remove_at i (dir_entries d) = filter (\<lambda>x. de_uri x \<noteq> the uri) (dir_entries d)"
    using remove_at_props(4) [OF e(1), of de_uri] ok(1) e(2) by (simp add: dir_ok_def e_def)
  ultimately show ?thesis unfolding if_P [OF True] dir_inv_def
    using eq w'(2,3) e(2,3) p
    by (intro exI [of _ None] exI [of _ ?res] exI [of _ ?d] exI [of _ w'] conjI bexI [of _ e]) (simp_all add: gone_def)
next
  case False
  then have "resolve_service uri res d w = Some (Some (if valid_uri uri then ENOENT else EINVAL), res, d, w)"
    using find_locked_None [of "the uri" d] by (auto simp: resolve_service_def)
  with assms show ?thesis unfolding if_not_P [OF False] by simp
qed

section \<open>Removal\<close>

lemma unregister_service_ok:
  assumes "dir_inv rest d w"
  shows "\<exists>err d' w'. unregister_service uri owner d w = Some (err, d', w') \<and> dir_inv rest d' w' \<and> same_core w w' \<and>
    (if valid_uri uri \<and> (\<exists>e \<in> set (dir_entries d). de_uri e = the uri \<and> (owner = 0 \<or> de_owner e = owner))
     then err = None \<and> d' = d\<lparr>dir_entries := filter (\<lambda>x. de_uri x \<noteq> the uri) (dir_entries d)\<rparr>
     else err = Some (if \<not> valid_uri uri then EINVAL
                      else if the uri \<in> de_uri ` set (dir_entries d) then EACCES else ENOENT) \<and> d' = d \<and> w' = w)"
proof (cases "valid_uri uri \<and> the uri \<in> de_uri ` set (dir_entries d)")
  case True
  then obtain i where i: "find_locked (the uri) d = Some i" using find_locked_None [of "the uri" d] by auto
  define e where "e = dir_entries d ! i"
  have e: "i < length (dir_entries d)" "de_uri e = the uri" "e \<in> set (dir_entries d)"
    using find_locked_Some [OF i] by (simp_all add: e_def)
  have ok: "dir_ok d" "chan_ok (\<lambda>ob. dir_refs d ob + rest ob) w" using assms by (simp_all add: dir_inv_def)
  then have uniq: "x = e" if "x \<in> set (dir_entries d)" "de_uri x = the uri" for x
    using that e by (auto simp: dir_ok_def distinct_map inj_on_def)
  show ?thesis
  proof (cases "owner = 0 \<or> de_owner e = owner")
    case owner: True
    let ?d = "d\<lparr>dir_entries := remove_at i (dir_entries d)\<rparr>"
    obtain w' where w': "apply_events (release_entry e) w = Some w'" "chan_ok (\<lambda>ob. dir_refs ?d ob + rest ob) w'" "same_core w w'"
      by (rule dir_events [OF ok(2) ev_moves_release_entry [of e], of "\<lambda>ob. dir_refs ?d ob + rest ob" ?d rest])
        (use dir_refs_remove_entry [OF e(1)] in \<open>simp_all add: e_def\<close>)
    have "remove_at i (dir_entries d) = filter (\<lambda>x. de_uri x \<noteq> the uri) (dir_entries d)"
      using remove_at_props(4) [OF e(1), of de_uri] ok(1) e(2) by (simp add: dir_ok_def e_def)
    moreover have "unregister_service uri owner d w = Some (None, ?d, w')"
      using True i owner w'(1) by (auto simp: unregister_service_def e_def)
    ultimately show ?thesis using True owner e w'(2,3) dir_ok_remove(1) [OF ok(1) e(1)] by (auto simp: dir_inv_def)
  next
    case False
    then have "unregister_service uri owner d w = Some (Some EACCES, d, w)"
      using True i by (auto simp: unregister_service_def e_def)
    moreover have "\<not> (\<exists>x \<in> set (dir_entries d). de_uri x = the uri \<and> (owner = 0 \<or> de_owner x = owner))"
      using False uniq by auto
    ultimately show ?thesis using True assms by auto
  qed
next
  case False
  then have "unregister_service uri owner d w = Some (Some (if valid_uri uri then ENOENT else EINVAL), d, w)"
    using find_locked_None [of "the uri" d] by (auto simp: unregister_service_def)
  moreover have "valid_uri uri \<Longrightarrow> \<forall>e \<in> set (dir_entries d). de_uri e \<noteq> the uri" using False by (metis imageI)
  ultimately show ?thesis using False assms by auto
qed

lemma take_owned_eq: "take_owned own x es = (filter (\<lambda>e. own e = x) es, filter (\<lambda>e. own e \<noteq> x) es)"
  by (induction es) auto

lemma sum_list_split: "(\<Sum>x\<leftarrow>xs. f x) = (\<Sum>x\<leftarrow>filter P xs. f x) + (\<Sum>x\<leftarrow>filter (\<lambda>x. \<not> P x) xs. (f x :: nat))"
  by (induction xs) auto

lemma ev_moves_release_all:
  "ev_moves (concat (map release_entry es) @ concat (map release_listener ls))
     (dir_refs \<lparr>dir_entries = es, dir_listeners = ls\<rparr>) (\<lambda>_. 0)"
proof (rule ev_moves_append)
  show "ev_moves (concat (map release_entry es)) (dir_refs \<lparr>dir_entries = es, dir_listeners = ls\<rparr>)
      (\<lambda>ob. \<Sum>l\<leftarrow>ls. listener_refs l ob)"
    by (rule ev_moves_part [OF ev_moves_concat [of es release_entry "\<lambda>e. hnum (de_object e)" "\<lambda>_ _. 0"]])
      (simp_all add: ev_moves_release_entry dir_refs_def)
  show "ev_moves (concat (map release_listener ls)) (\<lambda>ob. \<Sum>l\<leftarrow>ls. listener_refs l ob) (\<lambda>_. 0)"
    using ev_moves_concat [of ls release_listener listener_refs "\<lambda>_ _. 0"] by (simp add: ev_moves_release_listener)
qed

lemma cleanup_owner_ok:
  assumes "dir_inv rest d w"
  shows "\<exists>w'. cleanup_owner owner d w =
      Some (if owner = 0 then d else
        d\<lparr>dir_entries := filter (\<lambda>e. de_owner e \<noteq> owner) (dir_entries d),
          dir_listeners := filter (\<lambda>l. le_owner l \<noteq> owner) (dir_listeners d)\<rparr>, w') \<and>
    dir_inv rest (if owner = 0 then d else
        d\<lparr>dir_entries := filter (\<lambda>e. de_owner e \<noteq> owner) (dir_entries d),
          dir_listeners := filter (\<lambda>l. le_owner l \<noteq> owner) (dir_listeners d)\<rparr>) w' \<and> same_core w w'"
proof (cases "owner = 0")
  case False
  let ?d = "d\<lparr>dir_entries := filter (\<lambda>e. de_owner e \<noteq> owner) (dir_entries d),
          dir_listeners := filter (\<lambda>l. le_owner l \<noteq> owner) (dir_listeners d)\<rparr>"
  have ok: "dir_ok d" "chan_ok (\<lambda>ob. dir_refs d ob + rest ob) w" using assms by (simp_all add: dir_inv_def)
  let ?es = "filter (\<lambda>e. de_owner e = owner) (dir_entries d)" and ?ls = "filter (\<lambda>l. le_owner l = owner) (dir_listeners d)"
  obtain w' where w': "apply_events (concat (map release_entry ?es) @ concat (map release_listener ?ls)) w = Some w'"
      "chan_ok (\<lambda>ob. dir_refs ?d ob + rest ob) w'" "same_core w w'"
  proof (rule dir_events [OF ok(2) ev_moves_release_all])
    show "dir_refs d ob + rest ob = dir_refs \<lparr>dir_entries = ?es, dir_listeners = ?ls\<rparr> ob + (dir_refs ?d ob + rest ob)" for ob
      using sum_list_split [of "\<lambda>e. hnum (de_object e) ob" "dir_entries d" "\<lambda>e. de_owner e = owner"]
        sum_list_split [of "\<lambda>l. listener_refs l ob" "dir_listeners d" "\<lambda>l. le_owner l = owner"]
      by (simp add: dir_refs_def)
  qed simp
  moreover have "dir_ok ?d" using ok(1) by (auto simp: dir_ok_def distinct_map inj_on_def)
  ultimately show ?thesis using False by (auto simp: cleanup_owner_def take_owned_eq dir_inv_def)
qed (use assms in \<open>auto simp: cleanup_owner_def\<close>)

lemma directory_destroy_ok:
  assumes "dir_inv rest d w"
  shows "\<exists>w'. directory_destroy d w = Some w' \<and> chan_ok rest w' \<and> same_core w w'"
proof -
  have ok: "chan_ok (\<lambda>ob. dir_refs d ob + rest ob) w" using assms by (simp add: dir_inv_def)
  have mv: "ev_moves (concat (map release_entry (dir_entries d)) @ concat (map release_listener (dir_listeners d)))
      (dir_refs d) (\<lambda>_. 0)"
    using ev_moves_release_all [of "dir_entries d" "dir_listeners d"] by (cases d) simp
  obtain w' where "apply_events (concat (map release_entry (dir_entries d)) @
      concat (map release_listener (dir_listeners d))) w = Some w'" "chan_ok (\<lambda>ob. 0 + rest ob) w'" "same_core w w'"
    by (rule chan_ok_moves [OF ok mv])
  moreover have "release_entry = (\<lambda>e. release_table_root (de_object e))" by (simp add: fun_eq_iff release_entry_def)
  ultimately show ?thesis by (simp add: directory_destroy_def)
qed

section \<open>Listening\<close>

lemma listener_channel_state:
  assumes "chan_ok ext w" "listener_channel w h = Some (s, side)"
  shows "\<exists>st. get_state w s = Some st" "side \<le> 1"
proof -
  obtain ob where "endpoint_of w ob = Some (s, side)"
    using assms(2) by (auto simp: listener_channel_def split: option.splits prod.splits if_splits)
  then obtain obj where "get_object w ob = Some obj" "ko_kind obj = ko_endpoint s side"
    by (auto simp: endpoint_of_def split: option.splits object_kind.splits)
  then show "\<exists>st. get_state w s = Some st" "side \<le> 1" using assms(1) by (auto simp: chan_ok_def heap_ok_def)
qed

text \<open>When a registration is accepted, and which listeners then precede the new one.\<close>

definition listen_accepts ::
  "(dir_site \<Rightarrow> bool) \<Rightarrow> byte list option \<Rightarrow> khandle \<Rightarrow> khandle \<Rightarrow> u64 \<Rightarrow> directory \<Rightarrow> kworld \<Rightarrow> bool" where
  "listen_accepts dmem uri send descr max_pending d w \<longleftrightarrow>
     valid_uri uri \<and> max_pending \<noteq> 0 \<and> object_is_descriptor w descr \<and> dmem D_uri \<and> dmem D_listeners \<and>
     (\<exists>s side st. listener_channel w send = Some (s, side) \<and> get_state w s = Some st \<and> max_pending \<le> cs_max_messages st) \<and>
     the uri \<notin> de_uri ` set (dir_entries d) \<and>
     (\<forall>l \<in> set (dir_listeners d). le_uri l = the uri \<longrightarrow> \<not> listener_open w (le_send_endpoint l))"

lemma listen_accepts_handles:
  assumes "listen_accepts dmem uri send descr max_pending d w"
  shows "send \<noteq> None" "descr \<noteq> None"
  using assms by (auto simp: listen_accepts_def listener_channel_def object_is_descriptor_def)

lemma listen_service_accepted:
  assumes "dir_inv (\<lambda>ob. hnum send ob + hnum descr ob + rest ob) d w"
    "listen_accepts dmem uri send descr max_pending d w"
  shows "\<exists>w'. listen_service dmem uri send descr max_pending owner d w =
      Some (None, d\<lparr>dir_listeners := filter (\<lambda>l. le_uri l \<noteq> the uri) (dir_listeners d) @
        [\<lparr>le_uri = the uri, le_send_endpoint = send, le_descriptor = descr, le_max_pending = max_pending,
          le_owner = owner\<rparr>]\<rparr>, w') \<and>
    chan_ok (\<lambda>ob. dir_refs (d\<lparr>dir_listeners := filter (\<lambda>l. le_uri l \<noteq> the uri) (dir_listeners d)\<rparr>) ob +
      (hnum send ob + hnum descr ob + rest ob)) w' \<and> same_core w w'"
proof -
  obtain s side st where acc: "valid_uri uri" "max_pending \<noteq> 0" "object_is_descriptor w descr" "dmem D_uri" "dmem D_listeners"
      "listener_channel w send = Some (s, side)" "get_state w s = Some st" "\<not> max_pending > cs_max_messages st"
      "find_locked (the uri) d = None"
    using assms(2) find_locked_None [of "the uri" d] by (auto simp: listen_accepts_def not_less)
  have closed: "\<forall>l \<in> set (dir_listeners d). le_uri l = the uri \<longrightarrow> \<not> listener_open w (le_send_endpoint l)"
    using assms(2) by (simp add: listen_accepts_def)
  have ok: "dir_ok d" "chan_ok (\<lambda>ob. dir_refs d ob + (hnum send ob + hnum descr ob + rest ob)) w"
    using assms(1) by (simp_all add: dir_inv_def)
  obtain a b where h: "send = Some a" "descr = Some b" using listen_accepts_handles [OF assms(2)] by auto
  show ?thesis
  proof (cases "find_listener_locked (the uri) d")
    case None
    then have "\<forall>l \<in> set (dir_listeners d). le_uri l \<noteq> the uri" using find_listener_None [of "the uri" d] by (metis imageI)
    then have "filter (\<lambda>l. le_uri l \<noteq> the uri) (dir_listeners d) = dir_listeners d" by (rule filter_True)
    then show ?thesis using acc h None ok by (simp add: listen_service_def)
  next
    case (Some i)
    note i = find_listener_Some [OF Some]
    then have notopen: "\<not> listener_open w (le_send_endpoint (dir_listeners d ! i))" using closed by simp
    let ?d = "d\<lparr>dir_listeners := remove_at i (dir_listeners d)\<rparr>"
    let ?rest = "\<lambda>ob. hnum send ob + hnum descr ob + rest ob"
    obtain w' where w': "apply_events (release_listener (dir_listeners d ! i)) w = Some w'"
        "chan_ok (\<lambda>ob. dir_refs ?d ob + ?rest ob) w'" "same_core w w'"
      by (rule dir_events [OF ok(2) ev_moves_release_listener [of "dir_listeners d ! i"],
            of "\<lambda>ob. dir_refs ?d ob + ?rest ob" ?d ?rest])
        (use dir_refs_remove_listener [of i d] i in simp_all)
    have "remove_at i (dir_listeners d) = filter (\<lambda>l. le_uri l \<noteq> the uri) (dir_listeners d)"
      using remove_at_props(4) [of i "dir_listeners d" le_uri] i ok(1) by (simp add: dir_ok_def)
    then show ?thesis using acc h Some notopen w' by (simp add: listen_service_def Let_def)
  qed
qed

lemma listen_service_rejected:
  assumes "chan_ok ext w" "\<not> listen_accepts dmem uri send descr max_pending d w" "dir_ok d"
  shows "\<exists>err. listen_service dmem uri send descr max_pending owner d w =
    do { w1 \<leftarrow> apply_events (release_table_root send @ release_table_root descr) w; Some (Some err, d, w1) }"
proof (cases "valid_uri uri \<and> max_pending \<noteq> 0 \<and> send \<noteq> None \<and> descr \<noteq> None \<and> listener_channel w send \<noteq> None \<and>
    object_is_descriptor w descr")
  case True
  then obtain s side where ch: "listener_channel w send = Some (s, side)" by auto
  obtain st where st: "get_state w s = Some st" using listener_channel_state(1) [OF assms(1) ch] by blast
  have guard: "(\<not> valid_uri uri \<or> max_pending = 0 \<or> send = None \<or> descr = None) = False" "object_is_descriptor w descr"
    using True by simp_all
  note eq = listen_service_def Let_def guard(1) if_False ch st option.case prod.case bind.bind_lunit
  consider "max_pending > cs_max_messages st" | "\<not> max_pending > cs_max_messages st" "\<not> dmem D_uri \<or> \<not> dmem D_listeners"
    | "\<not> max_pending > cs_max_messages st" "\<not> (\<not> dmem D_uri \<or> \<not> dmem D_listeners)" "find_locked (the uri) d \<noteq> None"
    | "\<not> max_pending > cs_max_messages st" "\<not> (\<not> dmem D_uri \<or> \<not> dmem D_listeners)" "\<not> find_locked (the uri) d \<noteq> None"
    by blast
  then show ?thesis
  proof cases
    case 4
    then obtain l where l: "l \<in> set (dir_listeners d)" "le_uri l = the uri" "listener_open w (le_send_endpoint l)"
      using assms(2) True ch st find_locked_None [of "the uri" d] by (auto simp: listen_accepts_def not_less)
    then have "the uri \<in> le_uri ` set (dir_listeners d)" by force
    then obtain i where i: "find_listener_locked (the uri) d = Some i" using find_listener_None [of "the uri" d] by auto
    have "inj_on le_uri (set (dir_listeners d))" using assms(3) by (simp add: dir_ok_def distinct_map)
    then have "dir_listeners d ! i = l" using find_listener_Some [OF i] l(1,2) by (simp add: inj_on_def)
    with l have "listener_open w (le_send_endpoint (dir_listeners d ! i))" by simp
    with 4 i guard(2) show ?thesis unfolding eq by (intro exI [of _ EEXIST]) simp
  next
    case 1
    then show ?thesis unfolding eq by (intro exI [of _ EINVAL]) simp
  next
    case 2
    then show ?thesis unfolding eq by (intro exI [of _ ENOMEM]) (simp add: guard(2))
  next
    case 3
    then show ?thesis unfolding eq by (intro exI [of _ EEXIST]) (simp add: guard(2))
  qed
next
  case False
  then have "listen_service dmem uri send descr max_pending owner d w =
    do { w1 \<leftarrow> apply_events (release_table_root send @ release_table_root descr) w; Some (Some EINVAL, d, w1) }"
    unfolding listen_service_def Let_def
    by (cases "\<not> valid_uri uri \<or> max_pending = 0 \<or> send = None \<or> descr = None"; cases "listener_channel w send")
      (simp_all add: split_beta)
  then show ?thesis ..
qed

lemma dir_ok_listen:
  assumes "dir_ok d" "valid_uri uri" "send \<noteq> None" "descr \<noteq> None"
  shows "dir_ok (d\<lparr>dir_listeners := filter (\<lambda>l. le_uri l \<noteq> the uri) (dir_listeners d) @
    [\<lparr>le_uri = the uri, le_send_endpoint = send, le_descriptor = descr, le_max_pending = mp, le_owner = owner\<rparr>]\<rparr>)"
proof -
  have "\<exists>bs. uri = Some bs" using assms(2) by (cases uri) (auto simp: valid_uri_def)
  with assms show ?thesis by (auto simp: dir_ok_def distinct_map inj_on_def)
qed

lemma listen_service_ok:
  assumes "dir_inv (\<lambda>ob. hnum send ob + hnum descr ob + rest ob) d w"
  shows "\<exists>err d' w'. listen_service dmem uri send descr max_pending owner d w = Some (err, d', w') \<and>
    dir_inv rest d' w' \<and> same_core w w' \<and>
    (if listen_accepts dmem uri send descr max_pending d w
     then err = None \<and> d' = d\<lparr>dir_listeners := filter (\<lambda>l. le_uri l \<noteq> the uri) (dir_listeners d) @
        [\<lparr>le_uri = the uri, le_send_endpoint = send, le_descriptor = descr, le_max_pending = max_pending,
          le_owner = owner\<rparr>]\<rparr>
     else err \<noteq> None \<and> d' = d)"
proof (cases "listen_accepts dmem uri send descr max_pending d w")
  case True
  let ?l = "\<lparr>le_uri = the uri, le_send_endpoint = send, le_descriptor = descr, le_max_pending = max_pending,
    le_owner = owner\<rparr>" and ?base = "d\<lparr>dir_listeners := filter (\<lambda>l. le_uri l \<noteq> the uri) (dir_listeners d)\<rparr>"
  let ?d = "d\<lparr>dir_listeners := filter (\<lambda>l. le_uri l \<noteq> the uri) (dir_listeners d) @ [?l]\<rparr>"
  obtain w' where w': "listen_service dmem uri send descr max_pending owner d w = Some (None, ?d, w')"
      "chan_ok (\<lambda>ob. dir_refs ?base ob + (hnum send ob + hnum descr ob + rest ob)) w'" "same_core w w'"
    using listen_service_accepted [OF assms True, of owner] by blast
  have refs: "dir_refs ?d ob = listener_refs ?l ob + dir_refs ?base ob" for ob
    using dir_refs_append(2) [of ?base ?l ob] by simp
  have "(\<lambda>ob. dir_refs ?d ob + rest ob) = (\<lambda>ob. dir_refs ?base ob + (hnum send ob + hnum descr ob + rest ob))"
    unfolding refs by (simp add: listener_refs_def fun_eq_iff)
  then have "chan_ok (\<lambda>ob. dir_refs ?d ob + rest ob) w'" using w'(2) by simp
  moreover have "dir_ok ?d"
    by (rule dir_ok_listen) (use listen_accepts_handles [OF True] True assms in \<open>simp_all add: dir_inv_def listen_accepts_def\<close>)
  ultimately show ?thesis unfolding if_P [OF True] dir_inv_def using w'(1,3)
    by (intro exI [of _ None] exI [of _ ?d] exI [of _ w'] conjI) simp_all
next
  case False
  have ok: "dir_ok d" "chan_ok (\<lambda>ob. dir_refs d ob + (hnum send ob + hnum descr ob + rest ob)) w"
    using assms by (simp_all add: dir_inv_def)
  obtain w' where w': "apply_events (release_table_root send @ release_table_root descr) w = Some w'"
      "chan_ok (\<lambda>ob. dir_refs d ob + rest ob) w'" "same_core w w'"
    by (rule dir_events [OF ok(2) ev_moves_release_pair, of send descr "\<lambda>ob. dir_refs d ob + rest ob" d rest]) simp_all
  from listen_service_rejected [OF ok(2) False ok(1), of owner, unfolded w'(1) bind.bind_lunit] obtain err where
      err: "listen_service dmem uri send descr max_pending owner d w = Some (Some err, d, w')" ..
  then show ?thesis unfolding if_not_P [OF False] dir_inv_def using w'(2,3) ok(1)
    by (intro exI [of _ "Some err"] exI [of _ d] exI [of _ w'] conjI) simp_all
qed

lemma register_kernel_service_ok:
  assumes "dir_inv (\<lambda>ob. hnum h ob + rest ob) d w"
  shows "\<exists>d' w'. register_kernel_service dmem uri h meta one_shot (Some d) w = Some (Some d', w') \<and>
    dir_inv rest d' w' \<and> same_core w w' \<and>
    d' = (if valid_uri uri \<and> h \<noteq> None \<and> dmem D_uri \<and> dmem D_entries \<and> the uri \<notin> de_uri ` set (dir_entries d)
      then d\<lparr>dir_entries := dir_entries d @ [\<lparr>de_uri = the uri, de_object = h, de_metadata = meta,
        de_one_shot = one_shot, de_owner = 0\<rparr>]\<rparr> else d)"
proof -
  obtain res es where res: "tr_make h meta = (res, es)" by force
  have r: "tr_object res = h" "tr_meta res = meta" "ev_moves es (hnum h) (hnum h)"
    using ev_moves_make [of h meta] res by simp_all
  have cp: "fst (h_copy h) = h" by (cases h) (simp_all add: h_copy_def)
  define rec where "rec = \<lparr>rec_source = NA_HANDLE_INVALID, rec_moved = True, rec_resource = res, rec_token = tk_default\<rparr>"
  have ok: "dir_ok d" "chan_ok (\<lambda>ob. dir_refs d ob + (hnum h ob + rest ob)) w" using assms by (simp_all add: dir_inv_def)
  have mv: "ev_moves (snd (h_copy h) @ es) (hnum h) (\<lambda>ob. hnum h ob + hnum h ob)"
    by (rule ev_moves_append [OF ev_moves_copy ev_moves_frame(1) [OF r(3)]])
  obtain w1 where w1: "apply_events (snd (h_copy h) @ es) w = Some w1"
      "chan_ok (\<lambda>ob. dir_refs d ob + (rec_refs rec ob + (hnum h ob + rest ob))) w1" "same_core w w1"
    by (rule dir_events [OF ok(2) mv, of "\<lambda>ob. dir_refs d ob + rest ob" d "\<lambda>ob. rec_refs rec ob + (hnum h ob + rest ob)"])
      (simp_all add: rec_refs_def rec_def r(1))
  then have "dir_inv (\<lambda>ob. rec_refs rec ob + (hnum h ob + rest ob)) d w1" using ok(1) by (simp add: dir_inv_def)
  from register_service_ok [OF this, of dmem uri one_shot 0] obtain err rec' d' w2 where
    reg: "register_service dmem uri rec one_shot 0 d w1 = Some (err, rec', d', w2)"
      "dir_inv (\<lambda>ob. rec_refs rec' ob + (hnum h ob + rest ob)) d' w2" "same_core w1 w2" and
    d': "if valid_uri uri \<and> rec_moved rec \<and> tr_valid (rec_resource rec) \<and> dmem D_uri \<and> dmem D_entries \<and>
        the uri \<notin> de_uri ` set (dir_entries d)
     then err = None \<and> tr_object (rec_resource rec') = None \<and>
       d' = d\<lparr>dir_entries := dir_entries d @ [\<lparr>de_uri = the uri, de_object = tr_object (rec_resource rec),
         de_metadata = tr_meta (rec_resource rec), de_one_shot = one_shot, de_owner = 0\<rparr>]\<rparr>
     else err \<noteq> None \<and> rec' = rec \<and> d' = d \<and> w2 = w1"
    by (elim exE conjE) (rule that; assumption)
  have reg4: "d' = (if valid_uri uri \<and> h \<noteq> None \<and> dmem D_uri \<and> dmem D_entries \<and> the uri \<notin> de_uri ` set (dir_entries d)
      then d\<lparr>dir_entries := dir_entries d @ [\<lparr>de_uri = the uri, de_object = h, de_metadata = meta,
        de_one_shot = one_shot, de_owner = 0\<rparr>]\<rparr> else d)"
    using d' by (simp add: rec_def r(1,2) tr_valid_def split: if_split_asm)
  have ok2: "dir_ok d'" "chan_ok (\<lambda>ob. dir_refs d' ob + (rec_refs rec' ob + (hnum h ob + rest ob))) w2"
    using reg(2) by (simp_all add: dir_inv_def)
  have mv2: "ev_moves (rec_destroy rec' @ snd (h_drop h)) (\<lambda>ob. rec_refs rec' ob + hnum h ob) (\<lambda>_. 0)"
    by (rule ev_moves_append [OF ev_moves_part [OF ev_moves_rec_destroy, of _ rec' "hnum h" "hnum h"] ev_moves_drop]) simp_all
  obtain w3 where w3: "apply_events (rec_destroy rec' @ snd (h_drop h)) w2 = Some w3"
      "chan_ok (\<lambda>ob. dir_refs d' ob + rest ob) w3" "same_core w2 w3"
    by (rule dir_events [OF ok2(2) mv2, of "\<lambda>ob. dir_refs d' ob + rest ob" d' rest]) simp_all
  have "register_kernel_service dmem uri h meta one_shot (Some d) w = Some (Some d', w3)"
    using w1(1) w3(1) reg(1) by (simp add: register_kernel_service_def split_beta res rec_def [symmetric] cp)
  then show ?thesis unfolding dir_inv_def using reg4 w3(2) ok2(1) same_core_trans [OF same_core_trans [OF w1(3) reg(3)] w3(3)]
    by (intro exI [of _ d'] exI [of _ w3] conjI)
qed

end
