(* ===== verification/Protocol_Props.thy ===== *)
theory Protocol_Props
  imports Protocol_Endpoint Channel_Reach
begin

text \<open>
  The properties of protocol descriptors and endpoints: which descriptors are accepted, and how
  far the rights of the two ends of a protocol go.
\<close>

section \<open>Descriptors\<close>

text \<open>The methods a descriptor declares, and those it declares as one-way.\<close>

definition declared_methods :: "na_protocol_descriptor \<Rightarrow> nat set" where
  "declared_methods pd = {m \<in> {1..256}. method_bit (pd_method_bitmap pd) m}"

definition oneway_methods :: "na_protocol_descriptor \<Rightarrow> nat set" where
  "oneway_methods pd = {m \<in> {1..256}. method_bit (pd_oneway_bitmap pd) m}"

lemma max_method_id: "unat NA_PROTOCOL_MAX_METHOD_ID = 256"
  by (simp add: NA_PROTOCOL_MAX_METHOD_ID_def NA_PROTOCOL_METHOD_BITMAP_WORDS_def)

text \<open>The two loops over the method ids.\<close>

lemma spare_loop:
  "\<not> list_ex (spare_method_bad pd) [n + 1..<257] \<longleftrightarrow>
     (\<forall>m \<in> {1..256}. n < m \<longrightarrow> m \<notin> declared_methods pd \<and> m \<notin> oneway_methods pd \<and> pd_method_rights pd ! (m - 1) = 0)"
proof -
  have "set [n + 1..<257] = {m \<in> {1..256}. n < m}" by auto
  then show ?thesis by (auto simp: list_ex_iff spare_method_bad_def declared_methods_def oneway_methods_def simp del: set_upt)
qed

lemma method_loop:
  assumes "n \<le> 256"
  shows "\<not> list_ex (method_bad pd) [1..<n + 1] \<longleftrightarrow>
     (\<forall>m \<in> {1..256}. m \<le> n \<longrightarrow>
        (m \<in> oneway_methods pd \<longrightarrow> m \<in> declared_methods pd \<and> pd_flags pd AND NA_PROTOCOL_FLAG_ALLOW_ONEWAY \<noteq> 0) \<and>
        (m \<in> declared_methods pd \<longrightarrow>
           pd_method_rights pd ! (m - 1) \<noteq> 0 \<and> pd_method_rights pd ! (m - 1) AND NOT (pd_protocol_rights pd) = 0))"
proof -
  have "set [1..<n + 1] = {m \<in> {1..256}. m \<le> n}" using assms by auto
  then show ?thesis by (auto simp: list_ex_iff method_bad_def declared_methods_def oneway_methods_def simp del: set_upt)
qed

text \<open>The same with the largest method of the set \<open>D\<close> of declared methods.\<close>

lemma last_method:
  fixes D W :: "nat set"
  assumes "D \<subseteq> {1..256}" "W \<subseteq> {1..256}"
  shows "1 \<le> n \<and> n \<le> 256 \<and> n \<in> D \<and> (\<forall>m \<in> {1..256}. n < m \<longrightarrow> m \<notin> D \<and> m \<notin> W \<and> Z m) \<and>
      (\<forall>m \<in> {1..256}. m \<le> n \<longrightarrow> (m \<in> W \<longrightarrow> m \<in> D \<and> F) \<and> (m \<in> D \<longrightarrow> R m)) \<longleftrightarrow>
    D \<noteq> {} \<and> Max D = n \<and> W \<subseteq> D \<and> (W \<noteq> {} \<longrightarrow> F) \<and> (\<forall>m \<in> D. R m) \<and> (\<forall>m \<in> {1..256}. n < m \<longrightarrow> Z m)"
proof -
  have fin: "finite D" using assms(1) finite_subset by blast
  have max: "n \<in> D \<and> (\<forall>m \<in> {1..256}. n < m \<longrightarrow> m \<notin> D) \<longleftrightarrow> D \<noteq> {} \<and> Max D = n"
  proof
    assume l: "n \<in> D \<and> (\<forall>m \<in> {1..256}. n < m \<longrightarrow> m \<notin> D)"
    then have "m \<le> n" if "m \<in> D" for m using that assms(1) by (meson not_le subsetD)
    with l show "D \<noteq> {} \<and> Max D = n" using fin by (auto intro: Max_eqI)
  next
    assume "D \<noteq> {} \<and> Max D = n"
    then show "n \<in> D \<and> (\<forall>m \<in> {1..256}. n < m \<longrightarrow> m \<notin> D)" using fin Max_in [of D] Max_ge [of D] by (auto simp: leD)
  qed
  show ?thesis (is "?L \<longleftrightarrow> ?R")
  proof
    assume L: ?L
    have le: "m \<le> n \<and> m \<in> {1..256}" if "m \<in> D \<union> W" for m using that L assms by (meson UnE not_le subsetD)
    have "D \<noteq> {} \<and> Max D = n" using L max by blast
    moreover have "m \<in> D \<and> F" if "m \<in> W" for m using that L le by blast
    moreover have "R m" if "m \<in> D" for m using that L le by blast
    ultimately show ?R using L by blast
  next
    assume R: ?R
    then have n: "n \<in> D" "\<forall>m \<in> {1..256}. n < m \<longrightarrow> m \<notin> D" using max by blast+
    moreover have "1 \<le> n" "n \<le> 256" using n(1) assms(1) by auto
    moreover have "m \<notin> W" if "m \<notin> D" for m using that R by blast
    ultimately show ?L using R by blast
  qed
qed

lemma three_checks:
  "(if a then NA_STATUS_INVALID_ARGUMENT else if b then NA_STATUS_INVALID_ARGUMENT
    else if c then NA_STATUS_INVALID_ARGUMENT else NA_STATUS_OK) = NA_STATUS_OK \<longleftrightarrow> \<not> a \<and> \<not> b \<and> \<not> c"
  by simp

text \<open>
  C23. A protocol descriptor is accepted exactly if it is well formed: the frame and the reserved
  fields are right, it names a protocol and a scope, its sizes are within the limits of a
  channel message, it grants the right to invoke, its method count is its largest declared
  method, one-way methods are declared methods and need the flag, every declared method
  requires some right of the protocol and only such rights, and no right is given beyond the
  last method. Everything else is an invalid argument.
\<close>

theorem validate_descriptor_iff:
  "validate_descriptor sc pd = NA_STATUS_OK \<longleftrightarrow>
     valid_struct_size (pd_struct_size pd) sizeof_protocol_descriptor \<and>
     pd_flags pd AND NOT NA_PROTOCOL_FLAG_ALLOW_ONEWAY = 0 \<and> pd_reserved0 pd = 0 \<and> pd_reserved1 pd = 0 \<and>
     (\<exists>b \<in> set (pd_uuid pd). b \<noteq> 0) \<and> pd_scope pd \<noteq> sc_none sc \<and>
     pd_max_request_bytes pd \<le> NA_CHANNEL_MAX_MESSAGE_BYTES \<and> pd_max_response_bytes pd \<le> NA_CHANNEL_MAX_MESSAGE_BYTES \<and>
     pd_max_resources pd \<le> NA_CHANNEL_MAX_RESOURCES \<and> pd_protocol_rights pd AND NA_PROTOCOL_RIGHT_INVOKE \<noteq> 0 \<and>
     declared_methods pd \<noteq> {} \<and> Max (declared_methods pd) = unat (pd_method_count pd) \<and>
     oneway_methods pd \<subseteq> declared_methods pd \<and>
     (oneway_methods pd \<noteq> {} \<longrightarrow> pd_flags pd AND NA_PROTOCOL_FLAG_ALLOW_ONEWAY \<noteq> 0) \<and>
     (\<forall>m \<in> declared_methods pd. pd_method_rights pd ! (m - 1) \<noteq> 0 \<and>
        pd_method_rights pd ! (m - 1) AND NOT (pd_protocol_rights pd) = 0) \<and>
     (\<forall>m \<in> {1..256}. unat (pd_method_count pd) < m \<longrightarrow> pd_method_rights pd ! (m - 1) = 0)"
  (is "_ \<longleftrightarrow> ?frame \<and> ?flags \<and> ?r0 \<and> ?r1 \<and> ?uuid \<and> ?scope \<and> ?req \<and> ?resp \<and> ?mr \<and> ?inv \<and> ?ne \<and> ?max \<and> ?methods")
proof -
  let ?n = "unat (pd_method_count pd)"
  have sub: "declared_methods pd \<subseteq> {1..256}" "oneway_methods pd \<subseteq> {1..256}"
    by (auto simp: declared_methods_def oneway_methods_def)
  have count: "\<not> (pd_method_count pd = 0 \<or> pd_method_count pd > NA_PROTOCOL_MAX_METHOD_ID) \<longleftrightarrow> 1 \<le> ?n \<and> ?n \<le> 256"
    using max_method_id by (auto simp: word_less_nat_alt unat_gt_0 Suc_le_eq not_less)
  have uuid: "\<not> list_all (\<lambda>value. value = 0) (pd_uuid pd) \<longleftrightarrow> ?uuid" by (auto simp: list_all_iff)
  have upper: "256 + 1 = (257 :: nat)" by simp
  have bit: "1 \<le> ?n \<Longrightarrow> ?n \<le> 256 \<Longrightarrow> method_bit (pd_method_bitmap pd) ?n \<longleftrightarrow> ?n \<in> declared_methods pd"
    by (simp add: declared_methods_def)
  have "validate_descriptor sc pd = NA_STATUS_OK \<longleftrightarrow> ?frame \<and> ?flags \<and> ?r0 \<and> ?r1 \<and> ?uuid \<and> ?scope \<and> ?req \<and> ?resp \<and> ?mr \<and> ?inv \<and>
      (1 \<le> ?n \<and> ?n \<le> 256 \<and> ?n \<in> declared_methods pd \<and> \<not> list_ex (spare_method_bad pd) [?n + 1..<257] \<and>
       \<not> list_ex (method_bad pd) [1..<?n + 1])"
    unfolding validate_descriptor_def max_method_id upper Let_def three_checks de_Morgan_disj not_not not_less uuid
    using count bit unfolding de_Morgan_disj not_less by blast
  also have "\<dots> \<longleftrightarrow> ?frame \<and> ?flags \<and> ?r0 \<and> ?r1 \<and> ?uuid \<and> ?scope \<and> ?req \<and> ?resp \<and> ?mr \<and> ?inv \<and> ?ne \<and> ?max \<and> ?methods"
    unfolding last_method [OF sub, symmetric] spare_loop using method_loop [of ?n pd] by blast
  finally show ?thesis .
qed

text \<open>A protocol with one method for the examples.\<close>

definition demo_scopes :: scope_ids where
  "demo_scopes = \<lparr>sc_none = 0, sc_terminal_master = 1, sc_terminal_slave = 2\<rparr>"

definition demo_descriptor :: na_protocol_descriptor where
  "demo_descriptor =
     \<lparr>pd_struct_size = 2216, pd_flags = 0, pd_uuid = replicate 16 7, pd_scope = 3, pd_revision = 1, pd_features = 0,
      pd_protocol_rights = 3, pd_method_count = 1, pd_max_request_bytes = 64, pd_max_response_bytes = 64, pd_max_resources = 1,
      pd_reserved0 = 0, pd_reserved1 = 0, pd_method_bitmap = [1, 0, 0, 0], pd_oneway_bitmap = [0, 0, 0, 0],
      pd_method_rights = 2 # replicate 255 0\<rparr>"

lemma demo_methods: "declared_methods demo_descriptor = {1}" "oneway_methods demo_descriptor = {}"
proof -
  have index: "(m - 1) div 64 \<in> {0, 1, 2, 3}" if "m \<in> {1..256}" for m :: nat using that by auto
  have one: "(1 :: u64) AND push_bit k 1 \<noteq> 0 \<longleftrightarrow> k = 0" for k by (auto simp: push_bit_eq_mult one_and_eq mod_2_eq_odd)
  have "method_bit [1, 0, 0, 0] m \<longleftrightarrow> m = 1" if "m \<in> {1..256}" for m
  proof (cases "(m - 1) div 64 = 0")
    case True
    then have "m - 1 < 64" by simp
    then show ?thesis using that one [of "m - 1"] by (auto simp: method_bit_def)
  next
    case False
    then show ?thesis using index [OF that] by (auto simp: method_bit_def)
  qed
  then show "declared_methods demo_descriptor = {1}" by (auto simp: declared_methods_def demo_descriptor_def)
  have "\<not> method_bit [0, 0, 0, 0] m" if "m \<in> {1..256}" for m using index [OF that] by (auto simp: method_bit_def)
  then show "oneway_methods demo_descriptor = {}" by (auto simp: oneway_methods_def demo_descriptor_def)
qed

theorem validate_descriptor_iff_witness: "validate_descriptor demo_scopes demo_descriptor = NA_STATUS_OK"
proof -
  have f: "pd_method_count demo_descriptor = 1" by (simp add: demo_descriptor_def)
  have "\<forall>m \<in> {Suc 0..256}. Suc 0 < m \<longrightarrow> replicate 255 (0 :: u64) ! (m - Suc (Suc 0)) = 0" by auto
  then show ?thesis unfolding validate_descriptor_iff demo_methods f
    by (simp add: demo_descriptor_def demo_scopes_def valid_struct_size_def sizeof_protocol_descriptor_def abi_defs)
qed

section \<open>Endpoints\<close>

lemma copy_from_failure: "copy_from m t source n = Inl status \<Longrightarrow> status \<noteq> NA_STATUS_OK"
  by (auto simp: copy_from_def split: if_splits option.splits)

lemma copy_versioned_failure: "copy_versioned m sz source = Inl status \<Longrightarrow> status \<noteq> NA_STATUS_OK"
  unfolding copy_versioned_def by (auto split: if_splits sum.splits dest: copy_from_failure)

lemma read_endpoint_options_failure:
  "read_endpoint_options um options pd = Inl status \<Longrightarrow> status \<noteq> NA_STATUS_OK"
  unfolding read_endpoint_options_def Let_def by (auto split: if_splits sum.splits dest: copy_versioned_failure)

lemma endpoint_options_failure: "endpoint_options_error pd v = Some status \<Longrightarrow> status \<noteq> NA_STATUS_OK"
  by (auto simp: endpoint_options_error_def split: if_splits)

lemma created_endpoint_metadata:
  assumes "create_protocol_endpoint_objects pmem sc um pd options w = Some (NA_STATUS_OK, client, server, cm, sm, w')"
  obtains v where "read_endpoint_options um options pd = Inr v" "endpoint_options_error pd (adjust_endpoint_options sc pd v) = None"
    "cm = client_metadata pd (adjust_endpoint_options sc pd v)" "sm = server_metadata pd (adjust_endpoint_options sc pd v)"
proof (cases "read_endpoint_options um options pd")
  case (Inl status)
  then show ?thesis using assms read_endpoint_options_failure [OF Inl] by (simp add: create_protocol_endpoint_objects_def)
next
  case (Inr v)
  let ?v = "adjust_endpoint_options sc pd v"
  show ?thesis
  proof (cases "endpoint_options_error pd ?v")
    case (Some status)
    then show ?thesis using assms Inr endpoint_options_failure [OF Some] by (simp add: create_protocol_endpoint_objects_def)
  next
    case None
    then show ?thesis using assms Inr that
      by (auto simp: create_protocol_endpoint_objects_def Let_def split: if_splits bind_splits)
  qed
qed

lemma subset_rights: "(x :: u64) AND NOT p = 0 \<Longrightarrow> (x OR i) AND NOT (p OR i) = 0"
  by (simp add: bit_eq_iff bit_simps) blast

text \<open>
  C24. The two ends of a protocol never have more rights than the protocol: their protocol rights
  are among those of the descriptor and the right to invoke, their generic rights are among
  duplicate, transfer, wait and inspect, and the ends of a terminal protocol cannot be
  duplicated, whatever options the creator gives. Both carry the identity of the descriptor.
\<close>

theorem endpoint_rights_bounded:
  assumes "create_protocol_endpoint_objects pmem sc um pd options w = Some (NA_STATUS_OK, client, server, cm, sm, w')"
    "meta \<in> {cm, sm}"
  shows "md_protocol_rights meta AND NOT (pd_protocol_rights pd OR NA_PROTOCOL_RIGHT_INVOKE) = 0 \<and>
    md_meta_rights meta AND NOT (NA_RIGHT_DUPLICATE OR NA_RIGHT_TRANSFER OR NA_RIGHT_WAIT OR NA_RIGHT_INSPECT) = 0 \<and>
    (pd_scope pd \<in> {sc_terminal_master sc, sc_terminal_slave sc} \<longrightarrow> md_meta_rights meta AND NA_RIGHT_DUPLICATE = 0) \<and>
    md_protocol_uuid meta = pd_uuid pd \<and> md_scope meta = pd_scope pd"
proof -
  obtain v where v: "endpoint_options_error pd (adjust_endpoint_options sc pd v) = None"
      "cm = client_metadata pd (adjust_endpoint_options sc pd v)" "sm = server_metadata pd (adjust_endpoint_options sc pd v)"
    by (rule created_endpoint_metadata [OF assms(1)])
  let ?v = "adjust_endpoint_options sc pd v"
  have e: "po_client_protocol_rights ?v AND NOT (pd_protocol_rights pd) = 0" "po_server_protocol_rights ?v AND NOT (pd_protocol_rights pd) = 0"
      "po_client_meta_rights ?v AND NOT (NA_RIGHT_DUPLICATE OR NA_RIGHT_TRANSFER OR NA_RIGHT_WAIT OR NA_RIGHT_INSPECT) = 0"
    using v(1) unfolding endpoint_options_error_def by (auto split: if_splits)
  have dup: "po_client_meta_rights ?v AND NA_RIGHT_DUPLICATE = 0" if "pd_scope pd \<in> {sc_terminal_master sc, sc_terminal_slave sc}"
  proof -
    have "(a AND NOT b) AND b = (0 :: u64)" for a b by (simp add: bit_eq_iff bit_simps)
    then show ?thesis using that by (auto simp: adjust_endpoint_options_def Let_def)
  qed
  have "md_meta_rights meta = po_client_meta_rights ?v" "md_protocol_uuid meta = pd_uuid pd" "md_scope meta = pd_scope pd"
    using assms(2) v(2,3) by (auto simp: client_metadata_def server_metadata_def kernel_view_metadata_def Let_def)
  moreover have "md_protocol_rights cm = po_client_protocol_rights ?v OR NA_PROTOCOL_RIGHT_INVOKE"
      "md_protocol_rights sm = po_server_protocol_rights ?v OR NA_PROTOCOL_RIGHT_INVOKE"
    unfolding v(2,3) by (simp_all add: client_metadata_def server_metadata_def kernel_view_metadata_def Let_def or.assoc)
  ultimately show ?thesis using subset_rights [OF e(1)] subset_rights [OF e(2)] e(3) dup assms(2) by auto
qed

definition demo_memory :: umem where
  "demo_memory = \<lparr>um_thread = False, um_bytes = (\<lambda>_. None), um_writable = (\<lambda>_. False)\<rparr>"

lemma demo_endpoints:
  "\<exists>cm sm w'. create_protocol_endpoint_objects (\<lambda>_. True) demo_scopes demo_memory demo_descriptor 0 kworld_empty =
     Some (NA_STATUS_OK, Some 1, Some 2, cm, sm, w')"
  by (simp add: create_protocol_endpoint_objects_def read_endpoint_options_def protocol_default_options_def adjust_endpoint_options_def
      endpoint_options_error_def demo_descriptor_def demo_scopes_def make_endpoints_def make_object_def new_object_def kworld_empty_def
      abi_defs Let_def)

theorem endpoint_rights_bounded_witness:
  "\<exists>cm sm w'. create_protocol_endpoint_objects (\<lambda>_. True) demo_scopes demo_memory demo_descriptor 0 kworld_empty =
       Some (NA_STATUS_OK, Some 1, Some 2, cm, sm, w') \<and>
     md_protocol_rights cm AND NOT (3 OR NA_PROTOCOL_RIGHT_INVOKE) = 0"
proof -
  obtain cm sm w' where c: "create_protocol_endpoint_objects (\<lambda>_. True) demo_scopes demo_memory demo_descriptor 0 kworld_empty =
     Some (NA_STATUS_OK, Some 1, Some 2, cm, sm, w')" using demo_endpoints by blast
  have "pd_protocol_rights demo_descriptor = 3" by (simp add: demo_descriptor_def)
  with endpoint_rights_bounded [OF c, of cm] c show ?thesis by auto
qed

text \<open>
  C40. The generic rights that a creator asks for the server end have no effect: the server end
  always has the generic rights of the client end. With the default options of a protocol that
  is not a terminal it can be duplicated, although the default rights of a server end do not
  include that.
\<close>

theorem server_rights_ignored:
  assumes "create_protocol_endpoint_objects pmem sc um pd options w = Some (NA_STATUS_OK, client, server, cm, sm, w')"
  shows "md_meta_rights sm = md_meta_rights cm \<and>
    (options = 0 \<and> pd_scope pd \<notin> {sc_terminal_master sc, sc_terminal_slave sc} \<longrightarrow>
      md_meta_rights sm AND NA_RIGHT_DUPLICATE \<noteq> 0 \<and>
      po_server_meta_rights (protocol_default_options pd) AND NA_RIGHT_DUPLICATE = 0)"
proof -
  obtain v where v: "read_endpoint_options um options pd = Inr v"
      "cm = client_metadata pd (adjust_endpoint_options sc pd v)" "sm = server_metadata pd (adjust_endpoint_options sc pd v)"
    by (rule created_endpoint_metadata [OF assms(1)])
  have "md_meta_rights cm = po_client_meta_rights (adjust_endpoint_options sc pd v)" "md_meta_rights sm = md_meta_rights cm"
    unfolding v(2,3) by (simp_all add: client_metadata_def server_metadata_def kernel_view_metadata_def Let_def)
  moreover have "v = protocol_default_options pd" if "options = 0" using v(1) that by (simp add: read_endpoint_options_def)
  ultimately show ?thesis by (auto simp: adjust_endpoint_options_def protocol_default_options_def abi_defs Let_def)
qed

theorem server_rights_ignored_witness:
  "\<exists>cm sm w'. create_protocol_endpoint_objects (\<lambda>_. True) demo_scopes demo_memory demo_descriptor 0 kworld_empty =
       Some (NA_STATUS_OK, Some 1, Some 2, cm, sm, w') \<and> md_meta_rights sm AND NA_RIGHT_DUPLICATE \<noteq> 0"
proof -
  obtain cm sm w' where c: "create_protocol_endpoint_objects (\<lambda>_. True) demo_scopes demo_memory demo_descriptor 0 kworld_empty =
     Some (NA_STATUS_OK, Some 1, Some 2, cm, sm, w')" using demo_endpoints by blast
  have "pd_scope demo_descriptor \<notin> {sc_terminal_master demo_scopes, sc_terminal_slave demo_scopes}"
    by (simp add: demo_descriptor_def demo_scopes_def)
  with server_rights_ignored [OF c] c show ?thesis by auto
qed

end
