(* ===== verification/Directory_Connect.thy ===== *)
theory Directory_Connect
  imports Directory_Inv Channel_Props Protocol_Props
begin

text \<open>
  Connecting to a listening service: the two endpoints of a connection are created, the server
  end is delivered to the listener as a message with one resource, and the client end is handed
  to the caller with the requested rights. On every branch, failed allocations included, the
  references add up and no freed memory is touched.
\<close>

section \<open>The endpoints of a connection\<close>

text \<open>What the creation of objects leaves alone.\<close>

definition same_channels :: "kworld \<Rightarrow> kworld \<Rightarrow> bool" where
  "same_channels w w' \<longleftrightarrow>
     (\<forall>s. map_option cs_core (get_state w' s) = map_option cs_core (get_state w s)) \<and>
     kw_messages w' = kw_messages w \<and> queued w' = queued w"

lemma same_channels_refl [simp]: "same_channels w w"
  by (simp add: same_channels_def)

lemma same_channels_trans: "same_channels w w' \<Longrightarrow> same_channels w' w'' \<Longrightarrow> same_channels w w''"
  by (simp add: same_channels_def)

lemma same_core_channels: "same_core w w' \<Longrightarrow> same_channels w w'"
  unfolding same_channels_def by (intro conjI allI same_core_get same_core_queued) (simp_all add: same_core_def)

lemma same_channels_abs: "same_channels w w' \<Longrightarrow> abs_queue w' s side = abs_queue w s side"
proof -
  assume "same_channels w w'"
  then have c: "map_option cs_core (get_state w' s) = map_option cs_core (get_state w s)" by (simp add: same_channels_def)
  show "abs_queue w' s side = abs_queue w s side"
  proof (cases "get_state w s")
    case (Some st)
    with c obtain st' where st': "get_state w' s = Some st'" "cs_core st' = cs_core st" by auto
    have "cs_queues st' = cs_queues st" using arg_cong [OF st'(2), of cs_queues] by simp
    with Some st' show ?thesis by (simp add: abs_queue_def queue_list_def)
  qed (use c in \<open>simp add: abs_queue_def\<close>)
qed

lemma make_object_ok:
  assumes "chan_ok ext w" "kw_next w < 2 ^ 64" "make_object b (ko_other ty u sg) w = (h, w')"
  shows "chan_ok (\<lambda>p. hnum h p + ext p) w'" "same_channels w w'" "kw_next w' \<le> kw_next w + 1" "h \<noteq> None \<longleftrightarrow> b"
proof -
  have "chan_ok (\<lambda>p. hnum h p + ext p) w' \<and> same_channels w w' \<and> kw_next w' \<le> kw_next w + 1 \<and> (h \<noteq> None \<longleftrightarrow> b)"
  proof (cases b)
    case True
    let ?w = "bump (put_object (kw_next w) \<lparr>ko_refs = 1, ko_kind = ko_other ty u sg\<rparr> w)"
    have "h = Some (kw_next w)" "w' = ?w" using True assms(3) by (simp_all add: make_object_def new_object_def)
    moreover have "same_channels w ?w" by (simp add: same_channels_def)
    ultimately show ?thesis using True chan_ok_new_object [OF assms(1,2), of ty u sg] by simp
  next
    case False
    then have "h = None" "w' = w" using assms(3) by (simp_all add: make_object_def)
    then show ?thesis using False assms(1) by simp
  qed
  then show "chan_ok (\<lambda>p. hnum h p + ext p) w'" "same_channels w w'" "kw_next w' \<le> kw_next w + 1" "h \<noteq> None \<longleftrightarrow> b"
    by blast+
qed

lemma make_endpoints_ok:
  assumes ok: "chan_ok ext w" and room: "kw_next w + 2 \<le> 2 ^ 64"
  shows "\<exists>client server w'. make_endpoints pmem w = Some (client, server, w') \<and>
    chan_ok (\<lambda>p. hnum client p + hnum server p + ext p) w' \<and> same_channels w w' \<and> kw_next w' \<le> kw_next w + 2 \<and>
    (client \<noteq> None \<longleftrightarrow> pmem D_client \<and> pmem D_server) \<and> (client = None \<longleftrightarrow> server = None)"
proof -
  obtain a wa where a: "make_object (pmem D_client) (ko_other kt_protocol_client_end True 0) w = (a, wa)" by force
  have "kw_next w < 2 ^ 64" using room by simp
  note oa = make_object_ok [OF ok this a]
  obtain b wb where b: "make_object (pmem D_server) (ko_other kt_protocol_server_end True 0) wa = (b, wb)" by force
  have "kw_next wa < 2 ^ 64" using room oa(3) by simp
  note ob = make_object_ok [OF oa(1) this b]
  have same: "same_channels w wb" by (rule same_channels_trans [OF oa(2) ob(2)])
  show ?thesis
  proof (cases "a = None \<or> b = None")
    case True
    have mv: "ev_moves (snd (h_drop b) @ snd (h_drop a)) (\<lambda>p. hnum b p + hnum a p) (\<lambda>_. 0)"
      by (rule ev_moves_append [OF ev_moves_part [OF ev_moves_drop, of _ b "hnum a" "hnum a"] ev_moves_drop]) simp_all
    have "chan_ok (\<lambda>p. (hnum b p + hnum a p) + ext p) wb" using ob(1) by (simp add: add.assoc)
    then obtain w3 where w3: "apply_events (snd (h_drop b) @ snd (h_drop a)) wb = Some w3" "chan_ok (\<lambda>p. 0 + ext p) w3" "same_core wb w3"
      by (rule chan_ok_moves [OF _ mv])
    have "make_endpoints pmem w = Some (None, None, w3)" using True a b w3(1) by (simp add: make_endpoints_def)
    moreover have "kw_next w3 = kw_next wb" using w3(3) by (simp add: same_core_def)
    ultimately show ?thesis using w3(2) same_channels_trans [OF same same_core_channels [OF w3(3)]] oa(3,4) ob(3,4) True
      by (intro exI [of _ None] exI [of _ w3]) auto
  next
    case False
    have "(\<lambda>p. hnum a p + hnum b p + ext p) = (\<lambda>p. hnum b p + (hnum a p + ext p))" by (simp add: fun_eq_iff)
    then have "chan_ok (\<lambda>p. hnum a p + hnum b p + ext p) wb" using ob(1) by simp
    moreover have "make_endpoints pmem w = Some (a, b, wb)" using False a b by (auto simp: make_endpoints_def)
    ultimately show ?thesis using False same oa(3,4) ob(3,4)
      by (intro exI [of _ a] exI [of _ b] exI [of _ wb]) auto
  qed
qed

lemma create_endpoints_ok:
  assumes ok: "chan_ok ext w" and room: "kw_next w + 2 \<le> 2 ^ 64"
  shows "\<exists>status client server cm sm w'. create_protocol_endpoint_objects pmem sc um pd options w =
      Some (status, client, server, cm, sm, w') \<and> chan_ok (\<lambda>p. hnum client p + hnum server p + ext p) w' \<and>
    same_channels w w' \<and> kw_next w' \<le> kw_next w + 2 \<and> (status = NA_STATUS_OK \<longleftrightarrow> client \<noteq> None) \<and>
    (client = None \<longleftrightarrow> server = None)"
proof -
  let ?good = "\<lambda>status client server w'. chan_ok (\<lambda>p. hnum client p + hnum server p + ext p) w' \<and>
    same_channels w w' \<and> kw_next w' \<le> kw_next w + 2 \<and> (status = NA_STATUS_OK \<longleftrightarrow> client \<noteq> None) \<and>
    (client = None \<longleftrightarrow> server = None)"
  obtain a b w' where e: "make_endpoints pmem w = Some (a, b, w')"
      "chan_ok (\<lambda>p. hnum a p + hnum b p + ext p) w'" "same_channels w w'" "kw_next w' \<le> kw_next w + 2" "a = None \<longleftrightarrow> b = None"
    using make_endpoints_ok [OF assms, of pmem] by (elim exE conjE) (rule that; assumption)
  have fail: "?good status None None w" if "status \<noteq> NA_STATUS_OK" for status using ok that by simp
  consider (err) status where "status \<noteq> NA_STATUS_OK" "create_protocol_endpoint_objects pmem sc um pd options w =
      Some (status, None, None, metadata_default, metadata_default, w)"
    | (made) cm sm where "create_protocol_endpoint_objects pmem sc um pd options w =
      Some (if a = None then NA_STATUS_RESOURCE_EXHAUSTED else NA_STATUS_OK, a, b, cm, sm, w')"
  proof (cases "read_endpoint_options um options pd")
    case (Inl status)
    moreover have "status \<noteq> NA_STATUS_OK" using Inl by (rule read_endpoint_options_failure)
    ultimately show thesis using err by (simp add: create_protocol_endpoint_objects_def)
  next
    case (Inr v)
    let ?v = "adjust_endpoint_options sc pd v"
    show thesis
    proof (cases "endpoint_options_error pd ?v")
      case (Some status)
      moreover have "status \<noteq> NA_STATUS_OK" using Some by (rule endpoint_options_failure)
      ultimately show thesis using Inr err by (simp add: create_protocol_endpoint_objects_def)
    next
      case None
      show thesis
      proof (cases "\<not> pmem D_protocol_state \<or> \<not> pmem D_protocol_queue \<or> pd_scope pd = sc_none sc")
        case True
        then show thesis using Inr None err [of NA_STATUS_RESOURCE_EXHAUSTED] by (simp add: create_protocol_endpoint_objects_def)
      next
        case False
        note eq = create_protocol_endpoint_objects_def Let_def Inr sum.case None option.case e(1)
        show thesis
        proof (cases "a = None")
          case True
          show thesis by (rule made [of metadata_default metadata_default]) (use True False e(5) in \<open>simp add: eq\<close>)
        next
          case a: False
          show thesis
            by (rule made [of "client_metadata pd ?v" "server_metadata pd ?v"]) (use a False in \<open>auto simp: eq\<close>)
        qed
      qed
    qed
  qed
  then show ?thesis
  proof cases
    case (err status)
    from fail [OF err(1)] show ?thesis unfolding err(2) by simp
  next
    case (made cm sm)
    from e show ?thesis unfolding made by auto
  qed
qed

section \<open>Delivery\<close>

lemma delete_message_abs:
  assumes "chan_ok ext w" "get_message w m \<noteq> None" "m \<notin># queued w"
  shows "\<exists>w'. delete_message m w = Some w' \<and> chan_ok ext w' \<and> (\<forall>t i. abs_queue w' t i = abs_queue w t i)"
proof -
  obtain msg where msg: "get_message w m = Some msg" using assms(2) by blast
  obtain w' where w': "delete_message m w = Some w'" "chan_ok ext w'" using chan_ok_delete_message [OF assms] by blast
  have h: "heap_ok w" "refs_ok ext w" using assms(1) by (simp_all add: chan_ok_def)
  let ?w = "w\<lparr>kw_messages := AList.delete m (kw_messages w)\<rparr>"
  have "same_core ?w w'" using delete_message_ok [OF h msg] w'(1) by auto
  then have "abs_queue w' t i = abs_queue ?w t i" for t i by (rule same_channels_abs [OF same_core_channels])
  moreover have "abs_queue ?w t i = abs_queue w t i" for t i by (simp add: abs_queue_def get_state_def)
  ultimately show ?thesis using w' by auto
qed

text \<open>The record of the server endpoint, and its destruction together with the client handle.\<close>

definition server_record :: "khandle \<Rightarrow> metadata \<Rightarrow> transfer_record" where
  "server_record server sm =
     \<lparr>rec_source = NA_HANDLE_INVALID, rec_moved = True,
      rec_resource = \<lparr>tr_object = server, tr_meta = sm, tr_in_transit = True\<rparr>, rec_token = tk_default\<rparr>"

lemma server_record_refs:
  "rec_refs (server_record h sm) p = hnum h p" "res_count p (map rec_resource [server_record h sm]) = hnum h p"
  by (auto simp: rec_refs_def server_record_def tk_default_def token_refs_def res_count_def hnum_def)

lemma destroy_connection:
  assumes "chan_ok (\<lambda>p. hnum server p + (hnum client p + ext p)) w"
  shows "\<exists>w'. apply_events (rec_destroy (server_record server sm) @ snd (h_drop client)) w = Some w' \<and> chan_ok ext w' \<and>
    same_core w w'"
proof -
  let ?r = "server_record server sm"
  have mv: "ev_moves (rec_destroy ?r @ snd (h_drop client)) (\<lambda>p. hnum server p + hnum client p) (\<lambda>_. 0)"
    by (rule ev_moves_append [OF ev_moves_part [OF ev_moves_rec_destroy, of _ ?r "hnum client" "hnum client"] ev_moves_drop])
      (simp_all add: server_record_refs(1))
  have "chan_ok (\<lambda>p. (hnum server p + hnum client p) + ext p) w" using assms by (simp add: add.assoc)
  then show ?thesis by (rule chan_ok_moves [OF _ mv]) simp
qed

text \<open>The end of a failed delivery after the message was allocated.\<close>

lemma destroy_message_connection:
  assumes "chan_ok (\<lambda>p. hnum server p + (hnum client p + ext p)) w" "get_message w m \<noteq> None" "m \<notin># queued w"
  shows "\<exists>w1 w2. delete_message m w = Some w1 \<and>
    apply_events (rec_destroy (server_record server sm) @ snd (h_drop client)) w1 = Some w2 \<and> chan_ok ext w2 \<and>
    (\<forall>t i. abs_queue w2 t i = abs_queue w t i)"
proof -
  obtain w1 where w1: "delete_message m w = Some w1" "chan_ok (\<lambda>p. hnum server p + (hnum client p + ext p)) w1"
      "\<forall>t i. abs_queue w1 t i = abs_queue w t i"
    using delete_message_abs [OF assms] by blast
  obtain w2 where w2: "apply_events (rec_destroy (server_record server sm) @ snd (h_drop client)) w1 = Some w2"
      "chan_ok ext w2" "same_core w1 w2"
    using destroy_connection [OF w1(2), of sm] by blast
  from w1 w2 same_channels_abs [OF same_core_channels [OF w2(3)]] show ?thesis by simp
qed

text \<open>The outcome of a delivery: the message is queued and carries the server end, or nothing changed.\<close>

definition delivered ::
  "(oid \<Rightarrow> nat) \<Rightarrow> sptr \<Rightarrow> nat \<Rightarrow> khandle \<Rightarrow> khandle \<Rightarrow> metadata \<Rightarrow> mptr \<Rightarrow> errno option \<Rightarrow> kworld \<Rightarrow> kworld \<Rightarrow> bool" where
  "delivered ext s side client server sm m err w w' \<longleftrightarrow>
     (if err = None
      then chan_ok (\<lambda>p. hnum client p + ext p) w' \<and>
        abs_queue w' s (1 - side) = spec_send m (abs_queue w s (1 - side)) \<and> others_same w w' s (1 - side) \<and>
        map_option cm_resources (get_message w' m) = Some [\<lparr>tr_object = server, tr_meta = sm, tr_in_transit = True\<rparr>]
      else chan_ok ext w' \<and> (\<forall>t i. abs_queue w' t i = abs_queue w t i))"

lemma connect_enqueue_ok:
  assumes ok: "chan_ok (\<lambda>p. hnum server p + (hnum client p + ext p)) w" and st: "get_state w s = Some st" "side \<le> 1"
    and m: "get_message w m = Some msg" "m \<notin># queued w"
    and r_def: "r = server_record server sm"
  shows "\<exists>status records w1 w2 err. enqueue_kernel s side m [r] limit w = Some (status, records, w1) \<and>
    (if status = NA_STATUS_OK
     then err = None \<and> apply_events (concat (map rec_destroy records)) w1 = Some w2
     else err = Some (connect_enqueue_errno status) \<and>
       do { w4 \<leftarrow> delete_message m w1; apply_events (concat (map rec_destroy records) @ snd (h_drop client)) w4 } = Some w2) \<and>
    delivered ext s side client server sm m err w w2"
proof -
  let ?ext = "\<lambda>p. hnum client p + ext p"
  have len: "length [r] < 2 ^ 64" by simp
  have ok': "chan_ok (\<lambda>p. res_count p (map rec_resource [r]) + ?ext p) w"
    using ok unfolding r_def server_record_refs(2) .
  obtain status records w1 where send: "enqueue_kernel s side m [r] limit w = Some (status, records, w1)"
      "chan_ok (\<lambda>p. res_count p (map rec_resource records) + ?ext p) w1"
      "if status = NA_STATUS_OK then records = map move_out [r] \<and> queued w1 = queued w + {#m#} else records = [r] \<and> w1 = w"
    using enqueue_kernel_ok [OF ok' st(1) m st(2) len, of limit] by blast
  note refines = send_refines [OF ok st m len send(1), of ?ext, unfolded r_def server_record_refs(2), OF refl]
  show ?thesis
  proof (cases "status = NA_STATUS_OK")
    case True
    then have recs: "records = [move_out r]" using send(3) by simp
    have "rec_refs (move_out r) = (\<lambda>_. 0)"
      by (simp add: fun_eq_iff rec_refs_def move_out_def tr_move_def r_def server_record_def tk_default_def token_refs_def)
    then have mv: "ev_moves (concat (map rec_destroy records)) (\<lambda>_. 0) (\<lambda>_. 0)"
      using ev_moves_rec_destroy [of "move_out r"] recs by simp
    have "chan_ok (\<lambda>p. 0 + ?ext p) w1" using send(2) unfolding recs
      by (simp add: res_count_def move_out_def tr_move_def)
    then obtain w2 where w2: "apply_events (concat (map rec_destroy records)) w1 = Some w2" "chan_ok (\<lambda>p. 0 + ?ext p) w2"
        "same_core w1 w2" by (rule chan_ok_moves [OF _ mv])
    have q: "abs_queue w2 t i = abs_queue w1 t i" for t i by (rule same_channels_abs [OF same_core_channels [OF w2(3)]])
    have "delivered ext s side client server sm m None w w2"
      using refines True w2(2) same_core_message [OF w2(3), of m]
      by (simp add: delivered_def q others_same_def server_record_def)
    then show ?thesis using send(1) True w2(1)
      by (intro exI [of _ status] exI [of _ records] exI [of _ w1] exI [of _ w2] exI [of _ None]) simp
  next
    case False
    then have recs: "records = [r]" "w1 = w" using send(3) by simp_all
    obtain w3 w4 where "delete_message m w = Some w3" "apply_events (rec_destroy r @ snd (h_drop client)) w3 = Some w4"
        "chan_ok ext w4" "\<forall>t i. abs_queue w4 t i = abs_queue w t i"
      using destroy_message_connection [OF ok _ m(2), of sm] m(1) unfolding r_def by blast
    moreover from this have "delivered ext s side client server sm m (Some (connect_enqueue_errno status)) w w4"
      by (simp add: delivered_def)
    ultimately show ?thesis using send(1) False unfolding recs
      by (intro exI [of _ status] exI [of _ "[r]"] exI [of _ w] exI [of _ w4] exI [of _ "Some (connect_enqueue_errno status)"]) simp
  qed
qed

lemma connect_deliver_ok:
  assumes ok: "chan_ok (\<lambda>p. hnum client p + hnum server p + ext p) w" and st: "get_state w s = Some st" "side \<le> 1"
    and room: "kw_next w < 2 ^ 64"
  shows "\<exists>err w'. connect_deliver mem s side limit client server sm w = Some (err, w') \<and>
    delivered ext s side client server sm (kw_next w) err w w'"
proof -
  let ?ext = "\<lambda>p. hnum client p + ext p"
  obtain es where make: "tr_make server sm = (\<lparr>tr_object = server, tr_meta = sm, tr_in_transit = True\<rparr>, es)"
    by (simp add: tr_make_def Let_def)
  have "(\<lambda>p. hnum client p + hnum server p + ext p) = (\<lambda>p. hnum server p + ?ext p)" by (simp add: fun_eq_iff)
  then obtain w1 where w1: "apply_events es w = Some w1" "chan_ok (\<lambda>p. hnum server p + ?ext p) w1"
      "same_core w w1" using chan_ok_moves [OF _ ev_moves_make(1), of server ?ext w sm] ok make by auto
  have next1: "kw_next w1 = kw_next w" using w1(3) by (simp add: same_core_def)
  have q1: "abs_queue w1 = abs_queue w" using same_channels_abs [OF same_core_channels [OF w1(3)]] by (simp add: fun_eq_iff)
  obtain st1 where st1: "get_state w1 s = Some st1" using same_core_get [OF w1(3), of s] st(1) by auto
  note eq = connect_deliver_def make server_record_def [symmetric] Let_def prod.case w1(1) bind.bind_lunit
  have frame: "delivered ext s side client server sm m err w v" if "delivered ext s side client server sm m err w1 v" for m err v
    using that unfolding delivered_def others_same_def q1 .
  show ?thesis
  proof (cases "mem A_message")
    case False
    obtain w2 where "apply_events (rec_destroy (server_record server sm) @ snd (h_drop client)) w1 = Some w2" "chan_ok ext w2"
        "same_core w1 w2" using destroy_connection [OF w1(2), of sm] by blast
    moreover from this have "delivered ext s side client server sm (kw_next w) (Some ENOMEM) w1 w2"
      by (simp add: delivered_def same_channels_abs [OF same_core_channels])
    ultimately show ?thesis using False frame unfolding eq by auto
  next
    case True
    let ?msg = "message_new (mem A_message_bytes) (mem A_message_resources) 0 1" and ?m = "kw_next w1"
    let ?w = "bump (put_message ?m ?msg w1)"
    have "cm_resources ?msg = []" by (simp add: message_new_def)
    note new = chan_ok_new_message [OF w1(2) _ this]
    have ok2: "chan_ok (\<lambda>p. hnum server p + ?ext p) ?w" "?m \<notin># queued ?w" using new room next1 by simp_all
    have msg: "get_message ?w ?m = Some ?msg" "get_state ?w s = Some st1" using st1 by simp_all
    have q2: "abs_queue ?w = abs_queue w1" by (simp add: abs_queue_def fun_eq_iff)
    have frame2: "delivered ext s side client server sm m err w v" if "delivered ext s side client server sm m err ?w v" for m err v
      by (rule frame) (use that in \<open>unfold delivered_def others_same_def q2\<close>)
    show ?thesis
    proof (cases "message_valid ?msg")
      case False
      obtain w3 w4 where "delete_message ?m ?w = Some w3"
          "apply_events (rec_destroy (server_record server sm) @ snd (h_drop client)) w3 = Some w4"
          "chan_ok ext w4" "\<forall>t i. abs_queue w4 t i = abs_queue ?w t i"
        using destroy_message_connection [OF ok2(1) _ ok2(2), of sm] msg(1) by blast
      moreover from this have "delivered ext s side client server sm (kw_next w) (Some ENOMEM) ?w w4" by (simp add: delivered_def)
      ultimately show ?thesis using True False frame2 unfolding eq by auto
    next
      case valid: True
      obtain status records w3 w4 err where e: "enqueue_kernel s side ?m [server_record server sm] limit ?w = Some (status, records, w3)"
          "if status = NA_STATUS_OK
           then err = None \<and> apply_events (concat (map rec_destroy records)) w3 = Some w4
           else err = Some (connect_enqueue_errno status) \<and>
             do { v \<leftarrow> delete_message ?m w3; apply_events (concat (map rec_destroy records) @ snd (h_drop client)) v } = Some w4"
          "delivered ext s side client server sm ?m err ?w w4"
        using connect_enqueue_ok [OF ok2(1) msg(2) st(2) msg(1) ok2(2) refl, of sm limit] by blast
      have "connect_deliver mem s side limit client server sm w = Some (err, w4)"
        unfolding eq using True valid e(1,2)
        by (cases "status = NA_STATUS_OK"; cases "delete_message ?m w3") simp_all
      then show ?thesis using frame2 [OF e(3)] next1 by simp
    qed
  qed
qed

section \<open>Connecting\<close>

text \<open>Handing the client endpoint to the caller, whose resource was emptied before.\<close>

lemma hand_out_client:
  assumes "tr_make client meta = (temp, es)" "tr_assign_move res temp = (res1, temp1, es1)" "tr_object res = None"
  shows "ev_moves (es @ es1 @ tr_destroy temp1) (hnum client) (hnum client)" "tr_object res1 = client" "tr_meta res1 = meta"
proof -
  have t: "tr_object temp = client" "tr_meta temp = meta" "ev_moves es (hnum client) (hnum client)"
    using ev_moves_make [of client meta] assms(1) by simp_all
  note a = ev_moves_tr_assign [OF assms(2)]
  show "tr_object res1 = client" "tr_meta res1 = meta" using a t by simp_all
  have 1: "ev_moves es1 (hnum client) (\<lambda>p. hnum client p + hnum (tr_object temp1) p)" using a(1,2) t(1) assms(3) by simp
  have 2: "ev_moves (tr_destroy temp1) (\<lambda>p. hnum client p + hnum (tr_object temp1) p) (hnum client)"
    by (rule ev_moves_part [OF ev_moves_destroy, of _ temp1 "hnum client"]) simp_all
  show "ev_moves (es @ es1 @ tr_destroy temp1) (hnum client) (hnum client)"
    by (rule ev_moves_append [OF t(3) ev_moves_append [OF 1 2]])
qed

text \<open>
  The outcome of a connection to a listener at side \<open>side\<close> of the channel \<open>s\<close>: the caller has a
  client end with the requested rights and the listener's queue a message with a server end, or
  nothing was handed out and every queue is as before.
\<close>

definition connected ::
  "sptr \<Rightarrow> nat \<Rightarrow> na_protocol_descriptor \<Rightarrow> u64 \<Rightarrow> errno option \<Rightarrow> transferred_resource \<Rightarrow> u64 \<Rightarrow> u64 \<Rightarrow> kworld \<Rightarrow> kworld \<Rightarrow> bool" where
  "connected s side pd rights err res revision features w w' \<longleftrightarrow>
     (if err = None
      then tr_object res \<noteq> None \<and> revision = pd_revision pd \<and> features = pd_features pd \<and>
        md_protocol_rights (tr_meta res) =
          (if rights = 0 then pd_protocol_rights pd else rights) OR NA_PROTOCOL_RIGHT_INVOKE \<and>
        (\<exists>m server sm. server \<noteq> None \<and> abs_queue w' s (1 - side) = spec_send m (abs_queue w s (1 - side)) \<and>
           others_same w w' s (1 - side) \<and>
           map_option cm_resources (get_message w' m) = Some [\<lparr>tr_object = server, tr_meta = sm, tr_in_transit = True\<rparr>])
      else tr_object res = None \<and> revision = 0 \<and> features = 0 \<and> (\<forall>t i. abs_queue w' t i = abs_queue w t i))"

lemma connect_live_ok:
  assumes ok: "chan_ok ext w" and ch: "listener_channel w (le_send_endpoint l) = Some (s, side)" and res0: "tr_object res0 = None"
    and room: "kw_next w + 3 \<le> 2 ^ 64"
  shows "\<exists>err res revision features w'.
    connect_live pmem mem sc um pd l rights res0 w = Some (err, res, revision, features, w') \<and>
    chan_ok (\<lambda>p. hnum (tr_object res) p + ext p) w' \<and> connected s side pd rights err res revision features w w'"
proof -
  have "kw_next w + 2 \<le> 2 ^ 64" using room by simp
  from create_endpoints_ok [OF ok this, of pmem sc um pd 0] obtain status client server cm sm w1 where
    c: "create_protocol_endpoint_objects pmem sc um pd 0 w = Some (status, client, server, cm, sm, w1)"
      "chan_ok (\<lambda>p. hnum client p + hnum server p + ext p) w1" "same_channels w w1" "kw_next w1 \<le> kw_next w + 2"
      "status = NA_STATUS_OK \<longleftrightarrow> client \<noteq> None" "client = None \<longleftrightarrow> server = None"
    by (elim exE conjE) (rule that; assumption)
  have q1: "abs_queue w1 = abs_queue w" using same_channels_abs [OF c(3)] by (simp add: fun_eq_iff)
  note eq = connect_live_def ch c(1) bind.bind_lunit prod.case
  show ?thesis
  proof (cases "status = NA_STATUS_OK")
    case False
    then have "client = None" "server = None" using c(5,6) by simp_all
    then show ?thesis using False c(2) res0 q1 unfolding eq by (simp add: connected_def)
  next
    case True
    obtain st1 where st1: "get_state w1 s = Some st1"
      using listener_channel_state(1) [OF ok ch] c(3) by (auto simp: same_channels_def dest!: spec [of _ s])
    have "kw_next w1 < 2 ^ 64" using c(4) room by simp
    from connect_deliver_ok [OF c(2) st1 listener_channel_state(2) [OF ok ch] this] obtain err w2 where
      d: "connect_deliver mem s side (le_max_pending l) client server sm w1 = Some (err, w2)"
        "delivered ext s side client server sm (kw_next w1) err w1 w2" by blast
    show ?thesis
    proof (cases err)
      case (Some x)
      then show ?thesis using True d res0 unfolding eq by (simp add: connected_def delivered_def q1)
    next
      case None
      let ?meta = "cm\<lparr>md_protocol_rights := (if rights = 0 then pd_protocol_rights pd else rights) OR NA_PROTOCOL_RIGHT_INVOKE\<rparr>"
      obtain temp es where temp: "tr_make client ?meta = (temp, es)" by force
      obtain res1 temp1 es1 where res1: "tr_assign_move res0 temp = (res1, temp1, es1)" by (metis prod.collapse)
      note h = hand_out_client [OF temp res1 res0]
      have "chan_ok (\<lambda>p. hnum client p + ext p) w2" using d(2) None by (simp add: delivered_def)
      then obtain w3 where w3: "apply_events (es @ es1 @ tr_destroy temp1) w2 = Some w3"
          "chan_ok (\<lambda>p. hnum client p + ext p) w3" "same_core w2 w3" by (rule chan_ok_moves [OF _ h(1)])
      have q3: "abs_queue w3 = abs_queue w2" using same_channels_abs [OF same_core_channels [OF w3(3)]] by (simp add: fun_eq_iff)
      have live: "connect_live pmem mem sc um pd l rights res0 w = Some (None, res1, pd_revision pd, pd_features pd, w3)"
        unfolding eq using True None d(1) w3(1) temp res1 by (simp add: Let_def)
      have "\<exists>m server sm. server \<noteq> None \<and> abs_queue w3 s (1 - side) = spec_send m (abs_queue w s (1 - side)) \<and>
           others_same w w3 s (1 - side) \<and>
           map_option cm_resources (get_message w3 m) = Some [\<lparr>tr_object = server, tr_meta = sm, tr_in_transit = True\<rparr>]"
        using d(2) None True c(5,6) same_core_message [OF w3(3)] unfolding delivered_def others_same_def q1 q3
        by (intro exI [of _ "kw_next w1"] exI [of _ server] exI [of _ sm]) simp
      moreover have "tr_object res1 \<noteq> None" using h(2) True c(5) by simp
      ultimately have "connected s side pd rights None res1 (pd_revision pd) (pd_features pd) w w3"
        using h(3) by (simp add: connected_def)
      then show ?thesis using live w3(2) h(2) by simp
    qed
  qed
qed

text \<open>Emptying the caller's resource.\<close>

lemma clear_resource:
  assumes "tr_assign_move res tr_default = (res0, rest, es)"
  shows "ev_moves (es @ tr_destroy rest) (hnum (tr_object res)) (\<lambda>_. 0)" "tr_object res0 = None"
    "tr_object res = None \<Longrightarrow> es @ tr_destroy rest = []"
proof -
  note a = ev_moves_tr_assign [OF assms]
  show none: "tr_object res0 = None" using a(2) by (simp add: tr_default_def)
  have "ev_moves es (hnum (tr_object res)) (hnum (tr_object rest))" using a(1) none by (simp add: tr_default_def)
  then show "ev_moves (es @ tr_destroy rest) (hnum (tr_object res)) (\<lambda>_. 0)" by (rule ev_moves_append [OF _ ev_moves_destroy])
  show "es @ tr_destroy rest = []" if "tr_object res = None"
    using assms that by (auto simp: tr_assign_move_def tr_release_transit_def h_assign_move_def tr_default_def tr_destroy_def
        h_drop_def split: if_splits option.splits)
qed

definition connect_outcome ::
  "(oid \<Rightarrow> na_protocol_descriptor) \<Rightarrow> byte list option \<Rightarrow> byte list \<Rightarrow> u64 \<Rightarrow> u64 \<Rightarrow> u64 \<Rightarrow> directory \<Rightarrow> kworld \<Rightarrow>
     errno option \<Rightarrow> transferred_resource \<Rightarrow> u64 \<Rightarrow> u64 \<Rightarrow> directory \<Rightarrow> kworld \<Rightarrow> bool" where
  "connect_outcome descs uri uuid rights min_rev feats d w err res revision features d' w' \<longleftrightarrow>
     (if err = None
      then d' = d \<and> (\<exists>l \<in> set (dir_listeners d). \<exists>s side. le_uri l = the uri \<and>
        listener_channel w (le_send_endpoint l) = Some (s, side) \<and> listener_open w (le_send_endpoint l) \<and>
        connect_error (descs (the (le_descriptor l))) uuid rights min_rev feats = None \<and>
        connected s side (descs (the (le_descriptor l))) rights err res revision features w w')
      else tr_object res = None \<and> revision = 0 \<and> features = 0 \<and> (\<forall>t i. abs_queue w' t i = abs_queue w t i))"

lemma connect_listener_ok:
  assumes inv: "dir_inv rest d w" and room: "kw_next w + 3 \<le> 2 ^ 64" and res0: "tr_object res0 = None"
    and live: "find_listener (the uri) d w = Live_listener i"
  defines "l \<equiv> dir_listeners d ! i" 
  shows "\<exists>err res revision features w'.
    (case connect_error (descs (the (le_descriptor l))) uuid rights min_rev feats of
       Some err \<Rightarrow> Some (Some err, res0, 0, 0, d, w)
     | None \<Rightarrow> do { (err, res, revision, features, w1) \<leftarrow>
                      connect_live pmem mem sc um (descs (the (le_descriptor l))) l rights res0 w;
                    Some (err, res, revision, features, d, w1) }) = Some (err, res, revision, features, d, w') \<and>
    dir_inv (\<lambda>p. hnum (tr_object res) p + rest p) d w' \<and>
    connect_outcome descs uri uuid rights min_rev feats d w err res revision features d w'"
proof -
  have ok: "dir_ok d" "chan_ok (\<lambda>p. dir_refs d p + rest p) w" using inv by (simp_all add: dir_inv_def)
  from live have f: "find_listener_locked (the uri) d = Some i" "listener_channel w (le_send_endpoint l) \<noteq> None"
      "listener_open w (le_send_endpoint l)"
    by (auto simp: find_listener_def l_def Let_def split: option.splits if_splits)
  have l: "l \<in> set (dir_listeners d)" "le_uri l = the uri" using find_listener_Some [OF f(1)] by (simp_all add: l_def)
  obtain s side where ch: "listener_channel w (le_send_endpoint l) = Some (s, side)" using f(2) by auto
  show ?thesis
  proof (cases "connect_error (descs (the (le_descriptor l))) uuid rights min_rev feats")
    case (Some err)
    then show ?thesis using inv res0 by (simp add: connect_outcome_def)
  next
    case None
    obtain err res revision features w' where
      c: "connect_live pmem mem sc um (descs (the (le_descriptor l))) l rights res0 w = Some (err, res, revision, features, w')"
        "chan_ok (\<lambda>p. hnum (tr_object res) p + (dir_refs d p + rest p)) w'"
        "connected s side (descs (the (le_descriptor l))) rights err res revision features w w'"
      using connect_live_ok [OF ok(2) ch res0 room, of pmem mem sc um "descs (the (le_descriptor l))" rights] by blast
    have "(\<lambda>p. dir_refs d p + (hnum (tr_object res) p + rest p)) = (\<lambda>p. hnum (tr_object res) p + (dir_refs d p + rest p))"
      by (simp add: fun_eq_iff)
    then have "dir_inv (\<lambda>p. hnum (tr_object res) p + rest p) d w'" using ok(1) c(2) by (simp add: dir_inv_def)
    moreover have "connect_outcome descs uri uuid rights min_rev feats d w err res revision features d w'"
      using l ch f(3) c(3) None by (auto simp: connect_outcome_def connected_def)
    ultimately show ?thesis using None c(1) by simp
  qed
qed

lemma connect_service_ok:
  assumes inv: "dir_inv (\<lambda>p. hnum (tr_object res) p + rest p) d w" and room: "kw_next w + 3 \<le> 2 ^ 64"
  shows "\<exists>err res' revision features d' w'.
    connect_service pmem mem sc um descs uri uuid rights min_rev feats res d w = Some (err, res', revision, features, d', w') \<and>
    dir_inv (\<lambda>p. hnum (tr_object res') p + rest p) d' w' \<and>
    (tr_object res = None \<longrightarrow> connect_outcome descs uri uuid rights min_rev feats d w err res' revision features d' w')"
proof -
  obtain res0 rem es where a: "tr_assign_move res tr_default = (res0, rem, es)" by (metis prod.collapse)
  note cl = clear_resource [OF a]
  have ok: "dir_ok d" "chan_ok (\<lambda>p. dir_refs d p + (hnum (tr_object res) p + rest p)) w" using inv by (simp_all add: dir_inv_def)
  obtain w1 where w1: "apply_events (es @ tr_destroy rem) w = Some w1" "chan_ok (\<lambda>p. dir_refs d p + rest p) w1" "same_core w w1"
    by (rule dir_events [OF ok(2) cl(1), of "\<lambda>p. dir_refs d p + rest p" d rest]) simp_all
  have inv1: "dir_inv rest d w1" using ok(1) w1(2) by (simp add: dir_inv_def)
  have room1: "kw_next w1 + 3 \<le> 2 ^ 64" using w1(3) room by (simp add: same_core_def)
  have same: "w1 = w" if "tr_object res = None" using w1(1) cl(3) [OF that] by simp
  note eq = connect_service_def a Let_def prod.case w1(1) bind.bind_lunit
  have plain: "\<exists>err res' revision features d' w'. R = Some (err, res', revision, features, d', w') \<and>
      dir_inv (\<lambda>p. hnum (tr_object res') p + rest p) d' w' \<and>
      (tr_object res = None \<longrightarrow> connect_outcome descs uri uuid rights min_rev feats d w err res' revision features d' w')"
    if "R = Some (Some e, res0, 0, 0, d2, w2)" "dir_inv rest d2 w2" "same_core w1 w2" for R e d2 w2
    using that cl(2) same same_channels_abs [OF same_core_channels [OF that(3)]] by (auto simp: connect_outcome_def)
  show ?thesis
  proof (cases "valid_uri uri")
    case False
    then show ?thesis unfolding eq by (intro plain [OF _ inv1]) simp_all
  next
    case valid: True
    show ?thesis
    proof (cases "find_listener (the uri) d w1")
      case No_listener
      then show ?thesis using valid unfolding eq by (intro plain [OF _ inv1]) simp_all
    next
      case (Stale_listener i)
      then have i: "i < length (dir_listeners d)"
        using find_listener_Some [of "the uri" d i] by (auto simp: find_listener_def Let_def split: option.splits if_splits)
      let ?d = "d\<lparr>dir_listeners := remove_at i (dir_listeners d)\<rparr>"
      obtain w2 where w2: "apply_events (release_listener (dir_listeners d ! i)) w1 = Some w2"
          "chan_ok (\<lambda>p. dir_refs ?d p + rest p) w2" "same_core w1 w2"
        by (rule dir_events [OF w1(2) ev_moves_release_listener [of "dir_listeners d ! i"], of "\<lambda>p. dir_refs ?d p + rest p" ?d rest])
          (use dir_refs_remove_listener [OF i] in simp_all)
      have "dir_inv rest ?d w2" using w2(2) dir_ok_remove(2) [OF ok(1) i] by (simp add: dir_inv_def)
      then show ?thesis using valid Stale_listener w2(1) unfolding eq by (intro plain [OF _ _ w2(3)]) simp_all
    next
      case (Live_listener i)
      from connect_listener_ok [OF inv1 room1 cl(2) Live_listener, where descs = descs and uuid = uuid
            and rights = rights and min_rev = min_rev and feats = feats and pmem = pmem and mem = mem and sc = sc and um = um]
      show ?thesis using valid Live_listener same unfolding eq by auto
    qed
  qed
qed

section \<open>Success\<close>

text \<open>The listener can take one more connection: someone can receive, and all quotas have room.\<close>

definition listener_room :: "kworld \<Rightarrow> sptr \<Rightarrow> nat \<Rightarrow> u64 \<Rightarrow> bool" where
  "listener_room w s side limit \<longleftrightarrow>
     (case get_state w s of
        None \<Rightarrow> False
      | Some st \<Rightarrow>
          cs_valid st \<and> cs_owners st (1 - side) \<noteq> 0 \<and> channel_room st (1 - side) 0 1 \<and> global_room 0 1 (kw_globals w) \<and>
          (limit = 0 \<or> of_nat (bq_count (cq_fifo (cs_queues st (1 - side)))) < limit))"

lemma connect_deliver_succeeds:
  assumes ok: "chan_ok (\<lambda>p. hnum client p + hnum (Some n) p + ext p) w" and side: "side \<le> 1" and room: "kw_next w < 2 ^ 64"
    and obj: "get_object w n = Some obj" "ko_kind obj = ko_other ty u sg" and mem: "\<And>x. mem x" and lr: "listener_room w s side limit"
    and d: "connect_deliver mem s side limit client (Some n) sm w = Some (err, w')"
  shows "err = None"
proof -
  let ?rec = "server_record (Some n) sm" and ?msg = "message_new True True 0 1" and ?m = "kw_next w"
  let ?w = "bump (put_message ?m ?msg w)"
  have make: "tr_make (Some n) sm = (\<lparr>tr_object = Some n, tr_meta = sm, tr_in_transit = True\<rparr>, [Ev_acquire n in_transit])"
    by (simp add: tr_make_def tr_acquire_transit_def Let_def)
  have ev: "apply_events [Ev_acquire n in_transit] w = Some w" using obj by (simp add: on_capability_acquire_def endpoint_hook_def)
  have ok2: "chan_ok (\<lambda>p. hnum client p + hnum (Some n) p + ext p) ?w"
    using chan_ok_new_message(1) [OF ok room, of ?msg] by (simp add: message_new_def)
  obtain st where st: "get_state w s = Some st" "cs_valid st" "cs_owners st (1 - side) \<noteq> 0" "channel_room st (1 - side) 0 1"
      "global_room 0 1 (kw_globals w)" "limit = 0 \<or> of_nat (bq_count (cq_fifo (cs_queues st (1 - side)))) < limit"
    using lr by (auto simp: listener_room_def split: option.splits)
  have "1 \<le> unat (cs_max_resources st)" using st(4) unfolding channel_room_def by linarith
  then have "1 \<le> cs_max_resources st" by (simp add: word_le_nat_alt)
  then have "enqueue_refused side ?msg [?rec] st = None"
    using st(2) side by (auto simp: enqueue_refused_def message_valid_def message_new_def record_count_def resource_count_def not_less)
  moreover have "get_state ?w s = Some st" "get_message ?w ?m = Some ?msg" using st(1) by simp_all
  ultimately have "\<exists>v. enqueue_kernel s side ?m [?rec] limit ?w = Some (NA_STATUS_OK, map move_out [?rec], v)"
    using enqueue_kernel_eq [OF ok2 _ _ _ side, of s st ?m ?msg "[?rec]" limit] st(3-6)
    by (auto simp: message_new_def record_count_def not_le)
  then show ?thesis using d mem
    by (auto simp: connect_deliver_def make ev server_record_def [symmetric] Let_def message_valid_def message_new_def
        simp del: apply_events.simps split: bind_splits)
qed

lemma connect_live_succeeds:
  assumes ok: "chan_ok ext w" and ch: "listener_channel w (le_send_endpoint l) = Some (s, side)" and res0: "tr_object res0 = None"
    and room: "kw_next w + 3 \<le> 2 ^ 64" and pmem: "\<And>x. pmem x" and mem: "\<And>x. mem x" and scope: "pd_scope pd \<noteq> sc_none sc"
    and opts: "endpoint_options_error pd (adjust_endpoint_options sc pd (protocol_default_options pd)) = None"
    and lr: "listener_room w s side (le_max_pending l)"
    and c: "connect_live pmem mem sc um pd l rights res0 w = Some (err, res, revision, features, w')"
  shows "err = None"
proof -
  let ?n = "kw_next w" and ?v = "adjust_endpoint_options sc pd (protocol_default_options pd)"
  let ?a = "\<lparr>ko_refs = 1, ko_kind = ko_other kt_protocol_client_end True 0\<rparr>"
    and ?b = "\<lparr>ko_refs = 1, ko_kind = ko_other kt_protocol_server_end True 0\<rparr>"
  let ?w = "bump (put_object (?n + 1) ?b (bump (put_object ?n ?a w)))"
  have create: "create_protocol_endpoint_objects pmem sc um pd 0 w =
      Some (NA_STATUS_OK, Some ?n, Some (?n + 1), client_metadata pd ?v, server_metadata pd ?v, ?w)"
    unfolding create_protocol_endpoint_objects_def using pmem scope opts
    by (simp add: read_endpoint_options_def Let_def make_endpoints_def make_object_def new_object_def)
  have "?n + 2 \<le> 2 ^ 64" using room by simp
  from create_endpoints_ok [OF ok this, of pmem sc um pd 0] create
  have ok1: "chan_ok (\<lambda>p. hnum (Some ?n) p + hnum (Some (?n + 1)) p + ext p) ?w" by auto
  have lr1: "listener_room ?w s side (le_max_pending l)" using lr by (auto simp: listener_room_def put_object_def get_state_def split: option.splits)
  have st1: "side \<le> 1" by (rule listener_channel_state(2) [OF ok ch])
  have room1: "kw_next ?w < 2 ^ 64" using room by simp
  obtain st where "get_state w s = Some st" using listener_channel_state(1) [OF ok ch] by blast
  then have "get_state ?w s = Some st" by simp
  from connect_deliver_ok [OF ok1 this st1 room1, of mem "le_max_pending l" "server_metadata pd ?v"]
  obtain e w2 where d: "connect_deliver mem s side (le_max_pending l) (Some ?n) (Some (?n + 1)) (server_metadata pd ?v) ?w = Some (e, w2)"
    by blast
  have "get_object ?w (?n + 1) = Some ?b" by simp
  from connect_deliver_succeeds [OF ok1 st1 room1 this _ mem lr1 d] have "e = None" by simp
  then show ?thesis using c d unfolding connect_live_def ch create by (auto simp: Let_def split: bind_splits prod.splits)
qed

text \<open>When a connection is possible: a live listener, a fitting request, memory, and room.\<close>

definition connect_possible ::
  "scope_ids \<Rightarrow> (oid \<Rightarrow> na_protocol_descriptor) \<Rightarrow> byte list option \<Rightarrow> byte list \<Rightarrow> u64 \<Rightarrow> u64 \<Rightarrow> u64 \<Rightarrow> directory \<Rightarrow> kworld \<Rightarrow> bool" where
  "connect_possible sc descs uri uuid rights min_rev feats d w \<longleftrightarrow>
     valid_uri uri \<and> (\<exists>l \<in> set (dir_listeners d). \<exists>s side. le_uri l = the uri \<and>
       listener_channel w (le_send_endpoint l) = Some (s, side) \<and> listener_open w (le_send_endpoint l) \<and>
       object_is_descriptor w (le_descriptor l) \<and> listener_room w s side (le_max_pending l) \<and>
       (let pd = descs (the (le_descriptor l))
        in connect_error pd uuid rights min_rev feats = None \<and> pd_scope pd \<noteq> sc_none sc \<and>
           endpoint_options_error pd (adjust_endpoint_options sc pd (protocol_default_options pd)) = None))"

lemma connect_service_succeeds:
  assumes inv: "dir_inv rest d w" and res: "tr_object res = None" and room: "kw_next w + 3 \<le> 2 ^ 64"
    and mem: "\<And>x. pmem x" "\<And>x. mem x" and possible: "connect_possible sc descs uri uuid rights min_rev feats d w"
    and c: "connect_service pmem mem sc um descs uri uuid rights min_rev feats res d w = Some (err, res', revision, features, d', w')"
  shows "err = None"
proof -
  obtain l s side where l: "l \<in> set (dir_listeners d)" "le_uri l = the uri" "listener_channel w (le_send_endpoint l) = Some (s, side)"
      "listener_open w (le_send_endpoint l)" "object_is_descriptor w (le_descriptor l)" "listener_room w s side (le_max_pending l)"
      "connect_error (descs (the (le_descriptor l))) uuid rights min_rev feats = None" "pd_scope (descs (the (le_descriptor l))) \<noteq> sc_none sc"
      "endpoint_options_error (descs (the (le_descriptor l)))
         (adjust_endpoint_options sc (descs (the (le_descriptor l))) (protocol_default_options (descs (the (le_descriptor l))))) = None"
    and valid: "valid_uri uri"
    using possible by (auto simp: connect_possible_def Let_def)
  have ok: "dir_ok d" "chan_ok (\<lambda>p. dir_refs d p + rest p) w" using inv by (simp_all add: dir_inv_def)
  from l(1,2) have "the uri \<in> le_uri ` set (dir_listeners d)" by force
  then obtain i where i: "find_listener_locked (the uri) d = Some i" using find_listener_None [of "the uri" d] by auto
  have "inj_on le_uri (set (dir_listeners d))" using ok(1) by (simp add: dir_ok_def distinct_map)
  then have li: "dir_listeners d ! i = l" using find_listener_Some [OF i] l(1,2) by (simp add: inj_on_def)
  then have live: "find_listener (the uri) d w = Live_listener i" using i l(3-5) by (simp add: find_listener_def Let_def)
  obtain res0 rem es where a: "tr_assign_move res tr_default = (res0, rem, es)" by (metis prod.collapse)
  note cl = clear_resource [OF a]
  have w: "apply_events (es @ tr_destroy rem) w = Some w" using cl(3) [OF res] by simp
  obtain e r v f w2 where cl: "connect_live pmem mem sc um (descs (the (le_descriptor l))) l rights res0 w = Some (e, r, v, f, w2)"
    using connect_live_ok [OF ok(2) l(3) cl(2) room] by blast
  have "e = None" by (rule connect_live_succeeds [OF ok(2) l(3) clear_resource(2) [OF a] room mem l(8,9,6) cl])
  then show ?thesis using c cl unfolding connect_service_def a Let_def prod.case w bind.bind_lunit
    by (simp add: valid live li l(7))
qed

end
