(* ===== verification/Directory_Props.thy ===== *)
theory Directory_Props
  imports Directory_Connect
begin

text \<open>
  The properties of the service directory: which names are valid, what every operation keeps,
  registration against resolution, the pages of a listing, connections, and the departure of an
  owner.
\<close>

section \<open>Names\<close>

text \<open>The specification of a name: the segments between the slashes after the prefix.\<close>

fun uri_segments :: "byte list \<Rightarrow> byte list list" where
  "uri_segments [] = [[]]"
| "uri_segments (c # cs) =
     (if c = 47 then [] # uri_segments cs
      else case uri_segments cs of [] \<Rightarrow> [[c]] | seg # segs \<Rightarrow> (c # seg) # segs)"

definition good_segment :: "byte list \<Rightarrow> bool" where
  "good_segment seg \<longleftrightarrow> seg \<noteq> [] \<and> list_all uri_char seg \<and> seg \<noteq> [46] \<and> length seg \<noteq> 2"

lemma uri_segments_not_empty: "uri_segments bs \<noteq> []"
  by (induction bs) (auto split: list.splits)

text \<open>What the loop knows about the part \<open>p\<close> of the current segment.\<close>

definition part_is_dot :: "byte list \<Rightarrow> bool" where
  "part_is_dot p \<longleftrightarrow> length p \<le> 2 \<and> list_all (\<lambda>c. c = 46) p"

lemma part_end:
  "list_all uri_char p \<Longrightarrow> good_segment p \<longleftrightarrow> p \<noteq> [] \<and> \<not> part_is_dot p \<and> length p \<noteq> 2"
proof -
  assume c: "list_all uri_char p"
  have "p = [46] \<longleftrightarrow> part_is_dot p" if "p \<noteq> []" "length p \<noteq> 2"
    using that by (cases p; cases "tl p") (auto simp: part_is_dot_def)
  with c show ?thesis by (auto simp: good_segment_def)
qed

lemma part_step: "part_is_dot (p @ [c]) \<longleftrightarrow> part_is_dot p \<and> \<not> (length p + 1 > 2 \<or> c \<noteq> 46)"
  by (auto simp: part_is_dot_def)

lemma uri_loop_segments:
  assumes "list_all uri_char p"
  shows "uri_loop bs (p \<noteq> []) (part_is_dot p) (length p) \<longleftrightarrow>
    good_segment (p @ hd (uri_segments bs)) \<and> list_all good_segment (tl (uri_segments bs))"
  using assms
proof (induction bs arbitrary: p)
  case Nil
  then show ?case by (simp add: part_end)
next
  case (Cons c bs)
  obtain seg segs where segs: "uri_segments bs = seg # segs" using uri_segments_not_empty [of bs] by (cases "uri_segments bs") auto
  show ?case
  proof (cases "c = 47")
    case True
    have "uri_loop bs False True 0 \<longleftrightarrow> good_segment seg \<and> list_all good_segment segs"
      using Cons.IH [of "[]"] segs by (simp add: part_is_dot_def)
    then show ?thesis using True segs part_end [OF Cons.prems] by auto
  next
    case False
    show ?thesis
    proof (cases "uri_char c")
      case True
      then show ?thesis using False segs Cons.prems Cons.IH [of "p @ [c]"] part_step [of p c] by simp
    next
      case bad: False
      then have "\<not> good_segment (p @ c # seg)" by (simp add: good_segment_def)
      then show ?thesis using False bad segs by simp
    qed
  qed
qed

text \<open>
  C33. A name is valid exactly if it has at most 255 bytes and is the prefix \<^verbatim>\<open>naos://\<close> followed
  by segments separated by slashes, each of which is not empty, consists of letters, digits and
  \<^verbatim>\<open>- _ . ~\<close>, is not a single dot and does not have exactly two characters.
\<close>

theorem valid_uri_segments:
  "valid_uri uri \<longleftrightarrow>
     (\<exists>rest. uri = Some (uri_prefix @ rest) \<and> length (uri_prefix @ rest) \<le> 255 \<and>
        list_all good_segment (uri_segments rest))"
proof -
  have loop: "uri_loop rest False True 0 \<longleftrightarrow> list_all good_segment (uri_segments rest)" for rest
    using uri_loop_segments [of "[]" rest] uri_segments_not_empty [of rest]
    by (cases "uri_segments rest") (simp_all add: part_is_dot_def)
  have rest: "rest \<noteq> []" if "list_all good_segment (uri_segments rest)" for rest
    using that by (cases rest) (simp_all add: good_segment_def)
  show ?thesis
  proof (cases uri)
    case (Some bs)
    have "bs = uri_prefix @ drop (length uri_prefix) bs \<longleftrightarrow> take (length uri_prefix) bs = uri_prefix"
      by (metis append_eq_conv_conj append_take_drop_id)
    then show ?thesis unfolding Some valid_uri_def option.case loop using rest
      by (auto simp: append_eq_conv_conj intro!: exI [of _ "drop (length uri_prefix) bs"])
  qed (simp add: valid_uri_def)
qed

section \<open>The invariant\<close>

lemma dir_inv_cong: "dir_inv R d w \<Longrightarrow> (\<And>p. R p = R' p) \<Longrightarrow> dir_inv R' d w"
  by (simp add: dir_inv_def)


text \<open>A directory for the examples: the channel of the examples, one end to register, one to listen.\<close>

definition demo_name :: "byte list" where
  "demo_name = uri_prefix @ [97, 98, 99]"

definition demo_record :: transfer_record where
  "demo_record = server_record (Some 2) metadata_default"

lemma demo_name_valid: "valid_uri (Some demo_name)"
  by (simp add: valid_uri_def demo_name_def uri_prefix_def uri_char_def)

lemma demo_dir_inv: "dir_inv (\<lambda>p. rec_refs demo_record p + hnum (Some 3) p) directory_new demo_world"
  using chan_reach_ok [OF demo_create(2)]
  by (simp add: dir_inv_def dir_ok_def directory_new_def dir_refs_def demo_record_def server_record_refs demo_refs_def [abs_def])


section \<open>Registration and resolution\<close>

lemma register_service_success:
  assumes "dir_inv (\<lambda>p. rec_refs rec p + rest p) d w"
    "register_service dmem uri rec one_shot owner d w = Some (None, rec', d1, w1)"
  shows "dir_inv (\<lambda>p. rec_refs rec' p + rest p) d1 w1" "valid_uri uri" "the uri \<notin> de_uri ` set (dir_entries d)"
    "d1 = d\<lparr>dir_entries := dir_entries d @ [\<lparr>de_uri = the uri, de_object = tr_object (rec_resource rec),
       de_metadata = tr_meta (rec_resource rec), de_one_shot = one_shot, de_owner = owner\<rparr>]\<rparr>"
  using register_service_ok [OF assms(1), of dmem uri one_shot owner] unfolding assms(2) by (auto split: if_splits)

text \<open>
  C20. What is registered under a name is what resolving the name gives: the same object with the
  same metadata, in transit to the caller. A one-shot registration, or a unique object, leaves
  the directory as it was before the registration, and the name is free again; any other stays.
\<close>

theorem register_resolve:
  assumes "dir_inv (\<lambda>p. rec_refs rec p + rest p) d w" "tr_object res = None"
    "register_service dmem uri rec one_shot owner d w = Some (None, rec', d1, w1)"
  shows "\<exists>d2 w2. resolve_service uri res d1 w1 =
      Some (None, \<lparr>tr_object = tr_object (rec_resource rec), tr_meta = tr_meta (rec_resource rec), tr_in_transit = True\<rparr>, d2, w2) \<and>
    (if one_shot \<or> object_unique w1 (the (tr_object (rec_resource rec)))
     then d2 = d \<and> resolve_service uri res d2 w2 = Some (Some ENOENT, res, d2, w2)
     else d2 = d1)"
proof -
  note r = register_service_success [OF assms(1,3)]
  let ?e = "\<lparr>de_uri = the uri, de_object = tr_object (rec_resource rec), de_metadata = tr_meta (rec_resource rec),
    de_one_shot = one_shot, de_owner = owner\<rparr>"
  have set1: "set (dir_entries d1) = insert ?e (set (dir_entries d))" using r(4) by simp
  then have found: "valid_uri uri \<and> the uri \<in> de_uri ` set (dir_entries d1)" using r(2) by force
  have uniq: "e = ?e" if "e \<in> set (dir_entries d1)" "de_uri e = the uri" for e
    using that set1 r(3) by (metis imageI insertE)
  have "filter (\<lambda>x. de_uri x \<noteq> the uri) (dir_entries d) = dir_entries d" using r(3) by (intro filter_True) (metis imageI)
  then have drop: "d1\<lparr>dir_entries := filter (\<lambda>x. de_uri x \<noteq> the uri) (dir_entries d1)\<rparr> = d" using r(4) by simp
  have "dir_inv (\<lambda>p. hnum (tr_object res) p + (rec_refs rec' p + rest p)) d1 w1" using r(1) assms(2) by simp
  from resolve_service_ok [OF this, of uri] obtain res' d2 w2 where
    res: "resolve_service uri res d1 w1 = Some (None, res', d2, w2)" and
    e: "\<exists>e \<in> set (dir_entries d1). de_uri e = the uri \<and>
       res' = \<lparr>tr_object = de_object e, tr_meta = de_metadata e, tr_in_transit = True\<rparr> \<and>
       d2 = (if de_one_shot e \<or> object_unique w1 (the (de_object e))
             then d1\<lparr>dir_entries := filter (\<lambda>x. de_uri x \<noteq> the uri) (dir_entries d1)\<rparr> else d1)"
    unfolding if_P [OF found] by blast
  have "resolve_service uri res d w2 = Some (Some ENOENT, res, d, w2)"
    using r(2,3) find_locked_None [of "the uri" d] by (simp add: resolve_service_def)
  moreover have "res' = \<lparr>tr_object = tr_object (rec_resource rec), tr_meta = tr_meta (rec_resource rec), tr_in_transit = True\<rparr> \<and>
      d2 = (if one_shot \<or> object_unique w1 (the (tr_object (rec_resource rec))) then d else d1)"
    using e uniq unfolding drop by fastforce
  ultimately show ?thesis using res by simp
qed

lemma demo_register:
  "\<exists>rec' d1 w1. register_service (\<lambda>_. True) (Some demo_name) demo_record True 7 directory_new demo_world = Some (None, rec', d1, w1)"
proof -
  have "rec_moved demo_record" "tr_valid (rec_resource demo_record)" by (simp_all add: demo_record_def server_record_def tr_valid_def)
  with register_service_ok [OF demo_dir_inv, of "\<lambda>_. True" "Some demo_name" True 7] demo_name_valid
  show ?thesis by (auto simp: directory_new_def)
qed

theorem register_resolve_witness:
  "\<exists>rec' d1 w1 w2. register_service (\<lambda>_. True) (Some demo_name) demo_record True 7 directory_new demo_world =
       Some (None, rec', d1, w1) \<and>
     resolve_service (Some demo_name) tr_default d1 w1 =
       Some (None, \<lparr>tr_object = Some 2, tr_meta = metadata_default, tr_in_transit = True\<rparr>, directory_new, w2)"
proof -
  obtain rec' d1 w1 where reg: "register_service (\<lambda>_. True) (Some demo_name) demo_record True 7 directory_new demo_world =
      Some (None, rec', d1, w1)" using demo_register by blast
  from register_resolve [OF demo_dir_inv _ reg, of tr_default] show ?thesis using reg
    by (auto simp: tr_default_def demo_record_def server_record_def)
qed

section \<open>Listing\<close>

definition listed :: "dir_entry list \<Rightarrow> byte list" where
  "listed es = concat (map (\<lambda>e. de_uri e @ [0]) es)"

lemma list_loop_page:
  assumes "length records \<le> bytes"
  shows "\<exists>k \<le> length es. list_loop es i bytes records i n = (records @ listed (take k es), i + k, n + k) \<and>
    length (records @ listed (take k es)) \<le> bytes \<and>
    (k < length es \<longrightarrow> bytes < length (records @ listed (take k es)) + length (de_uri (es ! k)) + 1)"
  using assms
proof (induction es arbitrary: i records n)
  case (Cons e es)
  show ?case
  proof (cases "length (de_uri e) + 1 > bytes - length records")
    case True
    then show ?thesis using Cons.prems by (intro exI [of _ 0]) (auto simp: listed_def)
  next
    case False
    then have "length (records @ de_uri e @ [0]) \<le> bytes" using Cons.prems by simp
    from Cons.IH [OF this, of "i + 1" "n + 1"] obtain k where k: "k \<le> length es"
      "list_loop es (i + 1) bytes (records @ de_uri e @ [0]) (i + 1) (n + 1) =
        ((records @ de_uri e @ [0]) @ listed (take k es), i + 1 + k, n + 1 + k)"
      "length ((records @ de_uri e @ [0]) @ listed (take k es)) \<le> bytes"
      "k < length es \<longrightarrow> bytes < length ((records @ de_uri e @ [0]) @ listed (take k es)) + length (de_uri (es ! k)) + 1" by blast
    have l: "listed (e # take k es) = de_uri e @ 0 # listed (take k es)" by (simp add: listed_def)
    show ?thesis using False k by (intro exI [of _ "Suc k"]) (simp add: l)
  qed
qed (simp add: listed_def)

text \<open>A client that reads page after page until a page is empty.\<close>

fun list_pages :: "nat \<Rightarrow> u64 \<Rightarrow> nat \<Rightarrow> directory \<Rightarrow> byte list option" where
  "list_pages 0 bytes offset d = None"
| "list_pages (Suc fuel) bytes offset d =
     (case list_services (\<lambda>_. True) offset bytes ([], 0, 0) d of
        (Some err, _) \<Rightarrow> None
      | (None, records, next_offset, n) \<Rightarrow>
          if n = 0 then Some [] else map_option (\<lambda>rest. records @ rest) (list_pages fuel bytes next_offset d))"

lemma list_services_page:
  assumes "dir_ok d" "256 \<le> bytes" "bytes \<le> NA_CHANNEL_MAX_MESSAGE_BYTES" "dmem D_records" "offset \<le> length (dir_entries d)"
  shows "\<exists>n \<le> length (dir_entries d) - offset.
    list_services dmem offset bytes outs d = (None, listed (take n (drop offset (dir_entries d))), offset + n, n) \<and>
    length (listed (take n (drop offset (dir_entries d)))) \<le> unat bytes \<and> (offset < length (dir_entries d) \<longrightarrow> 0 < n)"
proof -
  obtain n where n: "n \<le> length (drop offset (dir_entries d))"
    "list_loop (drop offset (dir_entries d)) offset (unat bytes) [] offset 0 = ([] @ listed (take n (drop offset (dir_entries d))), offset + n, 0 + n)"
    "length ([] @ listed (take n (drop offset (dir_entries d)))) \<le> unat bytes"
    "n < length (drop offset (dir_entries d)) \<longrightarrow>
      unat bytes < length ([] @ listed (take n (drop offset (dir_entries d)))) + length (de_uri (drop offset (dir_entries d) ! n)) + 1"
    using list_loop_page [of "[]" "unat bytes" "drop offset (dir_entries d)" offset 0] by auto
  have "0 < n" if "offset < length (dir_entries d)"
  proof (rule ccontr)
    assume "\<not> 0 < n"
    then have "unat bytes < length (de_uri (dir_entries d ! offset)) + 1" using n(4) that by (simp add: listed_def)
    moreover have "valid_uri (Some (de_uri (dir_entries d ! offset)))" using assms(1) that by (auto simp: dir_ok_def)
    then have "length (de_uri (dir_entries d ! offset)) \<le> 255" by (simp add: valid_uri_def)
    moreover have "256 \<le> unat bytes" using assms(2) by (simp add: word_le_nat_alt)
    ultimately show False by simp
  qed
  then show ?thesis using n assms(3-5) by (intro exI [of _ n]) (auto simp: list_services_def not_less)
qed

text \<open>
  C21. Listing is complete and in order: with a buffer of at least 256 bytes every page fits the
  buffer, names are never cut, and a client that asks again from the returned offset until a
  page is empty receives every registered name exactly once, each followed by a zero byte. It
  asks at most once more than there are services.
\<close>

theorem list_services_complete:
  assumes "dir_ok d" "256 \<le> bytes" "bytes \<le> NA_CHANNEL_MAX_MESSAGE_BYTES"
  shows "list_pages (Suc (length (dir_entries d))) bytes 0 d = Some (concat (map (\<lambda>e. de_uri e @ [0]) (dir_entries d)))"
proof -
  have "list_pages (Suc fuel) bytes offset d = Some (listed (drop offset (dir_entries d)))"
    if "offset \<le> length (dir_entries d)" "length (dir_entries d) - offset \<le> fuel" for fuel offset
    using that
  proof (induction fuel arbitrary: offset)
    case 0
    then show ?case using list_services_page [OF assms, of "\<lambda>_. True" offset "([], 0, 0)"]
      by (auto simp: listed_def)
  next
    case (Suc fuel)
    obtain n where n: "n \<le> length (dir_entries d) - offset" "offset < length (dir_entries d) \<longrightarrow> 0 < n"
        "list_services (\<lambda>_. True) offset bytes ([], 0, 0) d = (None, listed (take n (drop offset (dir_entries d))), offset + n, n)"
      using list_services_page [OF assms, of "\<lambda>_. True" offset "([], 0, 0)"] Suc.prems(1) by auto
    show ?case
    proof (cases "n = 0")
      case True
      then show ?thesis using n Suc.prems(1) by (simp add: listed_def)
    next
      case False
      have "list_pages (Suc fuel) bytes (offset + n) d = Some (listed (drop (offset + n) (dir_entries d)))"
        by (rule Suc.IH) (use False n Suc.prems in auto)
      moreover have "listed (take n xs) @ listed (drop n xs) = listed xs" for xs
        by (metis append_take_drop_id concat_append listed_def map_append)
      from this [of "drop offset (dir_entries d)"]
      have "listed (take n (drop offset (dir_entries d))) @ listed (drop (offset + n) (dir_entries d)) =
        listed (drop offset (dir_entries d))" by (simp add: add.commute)
      ultimately show ?thesis using n(3) False by simp
    qed
  qed
  from this [of 0 "length (dir_entries d)"] show ?thesis by (simp add: listed_def)
qed

definition demo_services :: directory where
  "demo_services = \<lparr>dir_entries = [\<lparr>de_uri = demo_name, de_object = Some 2, de_metadata = metadata_default,
     de_one_shot = False, de_owner = 7\<rparr>], dir_listeners = []\<rparr>"

theorem list_services_complete_witness: "list_pages (Suc (Suc 0)) 256 0 demo_services = Some (demo_name @ [0])"
proof -
  have "dir_ok demo_services" using demo_name_valid by (simp add: dir_ok_def demo_services_def)
  moreover have "(256 :: u64) \<le> NA_CHANNEL_MAX_MESSAGE_BYTES" by (simp add: abi_defs)
  ultimately show ?thesis using list_services_complete [of demo_services 256]
    by (simp add: demo_services_def del: list_pages.simps)
qed

section \<open>Connections\<close>


definition demo_listening :: kworld where
  "demo_listening = bump (put_object 5 \<lparr>ko_refs = 1, ko_kind = ko_other kt_protocol_descriptor False 0\<rparr> demo_ready)"

definition demo_listeners :: directory where
  "demo_listeners = \<lparr>dir_entries = [], dir_listeners = [\<lparr>le_uri = demo_name, le_send_endpoint = Some 2, le_descriptor = Some 5,
     le_max_pending = 1, le_owner = 7\<rparr>]\<rparr>"

lemma demo_listening_inv: "dir_inv (hnum (Some 3)) demo_listeners demo_listening" "kw_next demo_listening = 6"
proof -
  have n: "kw_next demo_ready = 5" using demo_facts(5) by (simp add: demo_ready_def)
  then show "kw_next demo_listening = 6" by (simp add: demo_listening_def)
  have "chan_ok (\<lambda>ob. hnum (Some 5) ob + demo_refs ob) demo_listening"
    using chan_ok_new_object [OF chan_reach_ok [OF demo_ready_reach], of kt_protocol_descriptor False 0] n
    by (simp add: demo_listening_def)
  moreover have "(\<lambda>ob. hnum (Some 5) ob + demo_refs ob) = (\<lambda>ob. dir_refs demo_listeners ob + hnum (Some 3) ob)"
    by (auto simp: fun_eq_iff demo_refs_def dir_refs_def demo_listeners_def listener_refs_def)
  moreover have "dir_ok demo_listeners" using demo_name_valid by (simp add: dir_ok_def demo_listeners_def)
  ultimately show "dir_inv (hnum (Some 3)) demo_listeners demo_listening" by (simp add: dir_inv_def)
qed

lemma demo_connect_possible:
  "connect_possible demo_scopes (\<lambda>_. demo_descriptor) (Some demo_name) (replicate 16 7) 0 0 0 demo_listeners demo_listening"
proof -
  have st: "get_state demo_listening 1 = Some demo_open" using demo_ready_facts(1) by (simp add: demo_listening_def)
  have ch: "listener_channel demo_listening (Some 2) = Some (1, 0)"
    using demo_ready_facts(3) by (simp add: listener_channel_def holds_endpoint_def demo_listening_def endpoint_of_def)
  have g: "kw_globals demo_listening = \<lparr>g_messages = 0, g_bytes = 0, g_resources = 0\<rparr>"
    using demo_ready_facts(6) by (simp add: demo_listening_def put_object_def)
  have opn: "cs_valid demo_open" "cs_owners demo_open 1 \<noteq> 0" "channel_room demo_open 1 0 1" "bq_count (cq_fifo (cs_queues demo_open 1)) = 0"
      "state_signals demo_open 0 AND NA_SIGNAL_PEER_CLOSED = 0"
    by (simp_all add: demo_open_def demo_state_def capability_acquired_def channel_state_new_def queue_new_def bq_new_def bq_empty_def
        bq_full_def queue_list_def bq_contents_def allocate_queue_storage_def ring_contents_def channel_room_def state_signals_def
        abi_defs Let_def)
  have "listener_room demo_listening 1 0 1" using st opn by (simp add: listener_room_def g global_room_def abi_defs)
  moreover have "listener_open demo_listening (Some 2)" using ch st opn(5) by (simp add: listener_open_def)
  moreover have "object_is_descriptor demo_listening (Some 5)" by (simp add: object_is_descriptor_def demo_listening_def)
  moreover have "endpoint_options_error demo_descriptor
      (adjust_endpoint_options demo_scopes demo_descriptor (protocol_default_options demo_descriptor)) = None"
    by (simp add: protocol_default_options_def adjust_endpoint_options_def endpoint_options_error_def demo_descriptor_def
        demo_scopes_def abi_defs Let_def)
  moreover have "connect_error demo_descriptor (replicate 16 7) 0 0 0 = None" "pd_scope demo_descriptor \<noteq> sc_none demo_scopes"
    by (simp_all add: connect_error_def demo_descriptor_def demo_scopes_def)
  ultimately show ?thesis using ch demo_name_valid by (simp add: connect_possible_def demo_listeners_def)
qed


section \<open>Departing owners\<close>

text \<open>
  C22. When an owner departs, everything registered by it is gone and nothing else: afterwards a
  valid name resolves exactly if another owner registered it, the listeners of the others stay
  in place, and no freed memory is touched.
\<close>

theorem cleanup_owner_removes:
  assumes "dir_inv rest d w" "owner \<noteq> 0" "tr_object res = None" "valid_uri (Some uri)"
  shows "\<exists>d' w' err res' d2 w2. cleanup_owner owner d w = Some (d', w') \<and>
    dir_listeners d' = filter (\<lambda>l. le_owner l \<noteq> owner) (dir_listeners d) \<and>
    resolve_service (Some uri) res d' w' = Some (err, res', d2, w2) \<and>
    err = (if \<exists>e \<in> set (dir_entries d). de_uri e = uri \<and> de_owner e \<noteq> owner then None else Some ENOENT)"
proof -
  let ?d = "d\<lparr>dir_entries := filter (\<lambda>e. de_owner e \<noteq> owner) (dir_entries d),
      dir_listeners := filter (\<lambda>l. le_owner l \<noteq> owner) (dir_listeners d)\<rparr>"
  obtain w' where c: "cleanup_owner owner d w = Some (?d, w')" "dir_inv rest ?d w'"
    using cleanup_owner_ok [OF assms(1), of owner] assms(2) by auto
  have "dir_inv (\<lambda>p. hnum (tr_object res) p + rest p) ?d w'" using c(2) assms(3) by simp
  from resolve_service_ok [OF this, of "Some uri"] obtain err res' d2 w2 where
    "resolve_service (Some uri) res ?d w' = Some (err, res', d2, w2)"
    "err = (if uri \<in> de_uri ` set (dir_entries ?d) then None else Some ENOENT)"
    using assms(4) by (auto split: if_splits)
  moreover have "uri \<in> de_uri ` set (dir_entries ?d) \<longleftrightarrow> (\<exists>e \<in> set (dir_entries d). de_uri e = uri \<and> de_owner e \<noteq> owner)" by auto
  ultimately show ?thesis using c(1) by (intro exI [of _ ?d] exI [of _ w'] exI [of _ err] exI [of _ res'] exI [of _ d2] exI [of _ w2]) simp
qed

theorem cleanup_owner_removes_witness:
  "\<exists>d' w'. cleanup_owner 7 demo_listeners demo_listening = Some (d', w') \<and> dir_listeners d' = []"
  using cleanup_owner_removes [OF demo_listening_inv(1), of 7 tr_default demo_name] demo_name_valid
  by (auto simp: tr_default_def demo_listeners_def)

end
