(* ===== verification/Send_Props.thy ===== *)
theory Send_Props
  imports Channel_Props Capability_Props Channel_Syscall
begin

text \<open>
  Sending capabilities: the batch that leaves the sender's table and the enqueue that takes it
  over, together. A send that fails because of the state of the channel gives the sender
  everything back; a send that the channel refuses at once does not.
\<close>

lemma taken_batch_length:
  assumes "take_native_batch unique mem_ok dispositions nd target t = (NA_STATUS_OK, rs, t', es)"
  shows "length rs < 2 ^ 64"
proof -
  from take_native_batch_cases [OF assms] obtain ds snaps where
    ds: "ds = (case dispositions of None \<Rightarrow> [] | Some l \<Rightarrow> take (unat nd) l)"
      "rs = map (taken_record (rt_this t) t) (zip ds snaps)" by metis
  have "length rs \<le> length ds" using ds(2) by simp
  also have "\<dots> \<le> unat nd" using ds(1) by (auto split: option.splits)
  also have "\<dots> < 2 ^ 64" using unsigned_less [of nd, where 'a = nat] by simp
  finally show ?thesis .
qed

lemma reattach_count: "rt_count (fold reattach rs t) = rt_count t"
  by (induction rs arbitrary: t) simp_all

lemma failed_enqueue:
  assumes "chan_ok ext w" "get_state w s = Some st" "get_message w m = Some msg" "m \<noteq> 0" "sender \<le> 1" "cs_valid st"
    "length rs < 2 ^ 64" "enqueue s sender m rs t w = Some (status, rs', t', w')" "status \<noteq> NA_STATUS_OK"
  shows "if enqueue_refused sender msg rs st = None then t' = fst (snd (snd (restore_native_batch rs t))) else t' = t"
proof (cases "enqueue_refused sender msg rs st")
  case None
  have sok: "state_ok w st" by (rule chan_ok_state [OF assms(1,2)])
  have len: "length (cm_resources msg) \<le> unat (cm_resource_capacity msg)"
    using assms(1,3) by (simp add: chan_ok_def quota_ok_def messages_ok_def)
  have "1 - sender \<le> 1" by simp
  note eq = enqueue_locked_eq [OF sok this None assms(7) len, of m "kw_globals w"]
  show ?thesis using assms(2-6,8,9) None eq
    by (auto simp: enqueue_def Let_def split: if_splits bind_splits prod.splits)
next
  case (Some e)
  then show ?thesis using assms(2-6,8) by (auto simp: enqueue_def)
qed

text \<open>
  C15. When a send with capabilities fails because the peer is gone, the queue is full or a
  global limit is reached, the sender's table is as before: every moved handle is back with its
  entry. When the channel refuses the message at once, because it exceeds the limits of the
  channel, the moved handles are not put back: they are gone from the table, while the entry
  count still includes them.
\<close>

theorem failed_send_table:
  assumes "t = sy_table (cap_run unique ops (cap_init this))"
    "take_native_batch unique mem_ok dispositions nd target t = (NA_STATUS_OK, rs, t1, es)"
    "chan_ok ext w" "get_state w s = Some st" "get_message w m = Some msg" "m \<noteq> 0" "sender \<le> 1" "cs_valid st"
    "enqueue s sender m rs t1 w = Some (status, rs', t2, w')" "status \<noteq> NA_STATUS_OK"
  shows "rt_count t2 = rt_count t \<and>
    (\<forall>h. hm_get h t2 =
       (if enqueue_refused sender msg rs st \<noteq> None \<and> (\<exists>r \<in> set rs. rec_moved r \<and> rec_source r = h) then None
        else hm_get h t))"
proof -
  have "rt_wf (length (armed (cap_run unique ops (cap_init this))) + sy_lost (cap_run unique ops (cap_init this))) t"
    using cap_run_ok [OF cap_init_ok] unfolding assms(1) by (simp add: cap_ok_def)
  note inv = take_native_batch_inv [OF this assms(2)]
  have t1: "t1 = fold hm_remove (moved_sources rs) t" and ok: "list_all (rec_ok (rt_this t) (rt_next t)) rs" "distinct (moved_sources rs)"
    and slots: "\<forall>r \<in> set rs. rec_moved r \<longrightarrow> (\<exists>e. hm_get (rec_source r) t = Some e \<and> ce_state e = st_active \<and>
       rec_token r = tk_make (rt_this t) (rec_source r, e))" using inv by blast+
  have f: "rt_this t1 = rt_this t" "rt_next t1 = rt_next t" "rt_count t1 = rt_count t" unfolding t1 by (simp_all add: hm_remove_fold)
  have src: "h \<in> set (moved_sources rs) \<longleftrightarrow> (\<exists>r \<in> set rs. rec_moved r \<and> rec_source r = h)" for h
    by (auto simp: moved_sources_def)
  have len: "length rs < 2 ^ 64" by (rule taken_batch_length [OF assms(2)])
  note fe = failed_enqueue [OF assms(3-8) len assms(9,10)]
  show ?thesis
  proof (cases "enqueue_refused sender msg rs st")
    case None
    have none: "hm_get h t1 = None" if "h \<in> set (moved_sources rs)" for h using that unfolding t1 by (simp add: hm_remove_fold)
    obtain es' where "restore_native_batch rs t1 = (NA_STATUS_OK, map (fst \<circ> restore_callbacks) (map restored_record rs), fold reattach rs t1, es')"
      using restore_native_batch_ok [of t1 rs] ok none f by metis
    then have t2: "t2 = fold reattach rs t1" using fe None by simp
    have "hm_get h t2 = hm_get h t" for h
    proof (cases "find (\<lambda>r. rec_moved r \<and> rec_source r = h) rs")
      case None
      then have "h \<notin> set (moved_sources rs)" using src by (auto simp: find_None_iff)
      then show ?thesis unfolding t2 fold_reattach_find [OF ok] None t1 by (simp add: hm_remove_fold)
    next
      case (Some r)
      then have r: "r \<in> set rs" "rec_moved r" "rec_source r = h" by (auto simp: find_Some_iff)
      with slots obtain e where "hm_get h t = Some e" "rec_token r = tk_make (rt_this t) (h, e)" by blast
      then show ?thesis unfolding t2 fold_reattach_find [OF ok] Some by (simp add: tk_make_def)
    qed
    moreover have "rt_count t2 = rt_count t" unfolding t2 reattach_count by (rule f(3))
    ultimately show ?thesis using None by simp
  next
    case (Some e)
    then have "t2 = t1" using fe by simp
    then show ?thesis using Some f(3) src by (auto simp: t1 hm_remove_fold)
  qed
qed

text \<open>A message of 17 bytes for the channel of the examples, which takes at most 16.\<close>

definition demo_large :: kworld where
  "demo_large = bump (put_message 4 (message_new True True 17 1) (put_state 1 demo_open demo_world))"

definition demo_table :: resource_table where
  "demo_table = sy_table (cap_run (\<lambda>_. False) [Op_install (Some 7) example_meta] (cap_init 1))"

lemma demo_large_ok: "chan_ok demo_refs demo_large" "get_state demo_large 1 = Some demo_open"
  "get_message demo_large 4 = Some (message_new True True 17 1)" "cs_valid demo_open" "cs_max_bytes demo_open = 16"
proof -
  have ready: "chan_ok demo_refs (put_state 1 demo_open demo_world)"
  proof -
    obtain obj where "get_object demo_world 3 = Some obj" "ko_kind obj = ko_endpoint 1 1" using demo_object by blast
    then have ev: "apply_events [Ev_acquire 3 table_root] demo_world = Some (put_state 1 demo_open demo_world)"
      using demo_facts(3) by (simp add: on_capability_acquire_def endpoint_hook_def on_state_def demo_open_def)
    show ?thesis by (rule chan_reach_ok, rule reach_events [OF demo_create(2) _ ev]) (simp add: demo_refs_def)
  qed
  then show "chan_ok demo_refs demo_large"
    using chan_ok_new_message(1) [OF ready, of "message_new True True 17 1"] demo_facts(5)
    by (simp add: demo_large_def message_new_def)
  show "get_state demo_large 1 = Some demo_open" "get_message demo_large 4 = Some (message_new True True 17 1)"
    by (simp_all add: demo_large_def)
  show "cs_valid demo_open" "cs_max_bytes demo_open = 16"
    by (simp_all add: demo_open_def demo_state_def capability_acquired_def channel_state_new_def allocate_queue_storage_def Let_def)
qed

lemma demo_batch:
  "fst (take_native_batch (\<lambda>_. False) True (Some [example_move 1]) 1 0 demo_table) = NA_STATUS_OK"
  "map (\<lambda>r. (rec_source r, rec_moved r)) (fst (snd (take_native_batch (\<lambda>_. False) True (Some [example_move 1]) 1 0 demo_table))) =
     [(1, True)]"
  "hm_get 1 demo_table \<noteq> None"
  by code_simp+

lemma demo_refused:
  assumes "length rs = 1"
  shows "enqueue_refused 0 (message_new True True 17 1) rs demo_open = Some NA_STATUS_INVALID_MESSAGE"
proof -
  have "cs_max_resources demo_open = 1"
    by (simp add: demo_open_def demo_state_def capability_acquired_def channel_state_new_def Let_def)
  with demo_large_ok(4,5) assms show ?thesis
    by (simp add: enqueue_refused_def message_valid_def message_new_def record_count_def resource_count_def)
qed

theorem failed_send_table_witness:
  "\<exists>rs t1 es. take_native_batch (\<lambda>_. False) True (Some [example_move 1]) 1 0 demo_table = (NA_STATUS_OK, rs, t1, es) \<and>
     enqueue 1 0 4 rs t1 demo_large = Some (NA_STATUS_INVALID_MESSAGE, rs, t1, demo_large) \<and>
     hm_get 1 demo_table \<noteq> None \<and> hm_get 1 t1 = None \<and> rt_count t1 = rt_count demo_table"
proof -
  obtain rs t1 es where take: "take_native_batch (\<lambda>_. False) True (Some [example_move 1]) 1 0 demo_table = (NA_STATUS_OK, rs, t1, es)"
    using demo_batch(1) by (metis prod.collapse)
  then have rs: "map (\<lambda>r. (rec_source r, rec_moved r)) rs = [(1, True)]" using demo_batch(2) by simp
  then obtain r where r: "rs = [r]" "rec_source r = 1" "rec_moved r" by auto
  then have refused: "enqueue_refused 0 (message_new True True 17 1) rs demo_open = Some NA_STATUS_INVALID_MESSAGE"
    by (intro demo_refused) simp
  then have enq: "enqueue 1 0 4 rs t1 demo_large = Some (NA_STATUS_INVALID_MESSAGE, rs, t1, demo_large)"
    using demo_large_ok(2-4) by (simp add: enqueue_def)
  have "hm_get 1 t1 = None" "rt_count t1 = rt_count demo_table"
    using failed_send_table [OF demo_table_def take demo_large_ok(1-3) _ _ demo_large_ok(4) enq] refused r by simp_all
  then show ?thesis using take enq demo_batch(3) by (intro exI [of _ rs] exI [of _ t1] exI [of _ es]) simp
qed

end
