(* ===== verification/Terminal_Core.thy ===== *)
theory Terminal_Core
  imports Naos_Prelude
begin

text \<open>
  \<^verbatim>\<open>usr/ttyd/terminal_core.{hpp,cc}\<close>: the line discipline and the byte queues of a
  pseudo terminal. The record \<open>terminal_core\<close> has the members of the class, the arrays
  as lists of \<open>queue_capacity\<close> elements; sizes and indices are natural numbers (they stay
  at most \<open>queue_capacity\<close>, which is proved in \<open>Terminal_Inv\<close>), the record sizes, the
  end-of-file count and the generation are words of their width. A negative
  \<^verbatim>\<open>errno\<close> is \<open>Inl\<close>, any other result \<open>Inr\<close>. The calls of the control handler, whose
  code is outside the class, are recorded in \<open>tc_calls\<close> in their order.
  A pair of a buffer pointer and a size is the list of its bytes together with a flag that
  tells whether the pointer is null.
\<close>

datatype control_event = Interrupt | Quit | Suspend

record termios =
  input_flags :: u32
  output_flags :: u32
  control_flags :: u32
  local_flags :: u32
  line_disc :: u8
  control_chars :: "u8 list"
  input_baud :: u32
  output_baud :: u32

record winsize =
  ws_rows :: u16
  ws_columns :: u16
  ws_x_pixels :: u16
  ws_y_pixels :: u16

section \<open>Constants\<close>

definition queue_capacity :: nat where "queue_capacity = 4096"

definition vintr :: nat where "vintr = 0"
definition vquit :: nat where "vquit = 1"
definition verase :: nat where "verase = 2"
definition vkill :: nat where "vkill = 3"
definition veof :: nat where "veof = 4"
definition vtime :: nat where "vtime = 5"
definition vmin :: nat where "vmin = 6"
definition vstart :: nat where "vstart = 8"
definition vstop :: nat where "vstop = 9"
definition vsusp :: nat where "vsusp = 10"

definition iflag_inlcr :: u32 where "iflag_inlcr = 0x40"
definition iflag_igncr :: u32 where "iflag_igncr = 0x80"
definition iflag_icrnl :: u32 where "iflag_icrnl = 0x100"
definition iflag_ixon :: u32 where "iflag_ixon = 0x400"
definition iflag_ixany :: u32 where "iflag_ixany = 0x800"
definition iflag_supported :: u32 where
  "iflag_supported = iflag_inlcr OR iflag_igncr OR iflag_icrnl OR iflag_ixon OR iflag_ixany"

definition oflag_opost :: u32 where "oflag_opost = 1"
definition oflag_onlcr :: u32 where "oflag_onlcr = 4"
definition oflag_supported :: u32 where "oflag_supported = oflag_opost OR oflag_onlcr"

definition cflag_cs8 :: u32 where "cflag_cs8 = 0x30"
definition cflag_cread :: u32 where "cflag_cread = 0x80"
definition cflag_supported :: u32 where "cflag_supported = cflag_cs8 OR cflag_cread"

definition lflag_isig :: u32 where "lflag_isig = 1"
definition lflag_icanon :: u32 where "lflag_icanon = 2"
definition lflag_echo :: u32 where "lflag_echo = 8"
definition lflag_echoe :: u32 where "lflag_echoe = 0x10"
definition lflag_echok :: u32 where "lflag_echok = 0x20"
definition lflag_echonl :: u32 where "lflag_echonl = 0x40"
definition lflag_noflsh :: u32 where "lflag_noflsh = 0x80"
definition lflag_tostop :: u32 where "lflag_tostop = 0x100"
definition lflag_ixten :: u32 where "lflag_ixten = 0x8000"
definition lflag_supported :: u32 where
  "lflag_supported = lflag_isig OR lflag_icanon OR lflag_echo OR lflag_echoe OR lflag_echok OR
     lflag_echonl OR lflag_noflsh OR lflag_tostop OR lflag_ixten"

definition tty_flush_input :: int where "tty_flush_input = 0"
definition tty_flush_output :: int where "tty_flush_output = 1"
definition tty_flush_both :: int where "tty_flush_both = 2"

definition tty_poll_readable :: u32 where "tty_poll_readable = 1"
definition tty_poll_writable :: u32 where "tty_poll_writable = 4"
definition tty_poll_error :: u32 where "tty_poll_error = 8"
definition tty_poll_hangup :: u32 where "tty_poll_hangup = 0x10"

definition default_intr :: u8 where "default_intr = 3"
definition default_quit :: u8 where "default_quit = 28"
definition default_erase :: u8 where "default_erase = 127"
definition default_kill :: u8 where "default_kill = 21"
definition default_eof :: u8 where "default_eof = 4"
definition default_start :: u8 where "default_start = 17"
definition default_stop :: u8 where "default_stop = 19"
definition default_susp :: u8 where "default_susp = 26"

definition char_nl :: u8 where "char_nl = 10"
definition char_cr :: u8 where "char_cr = 13"
definition char_bs :: u8 where "char_bs = 8"
definition char_sp :: u8 where "char_sp = 32"

text \<open>\<^verbatim>\<open>static_cast<int>\<close> of a \<^verbatim>\<open>std::size_t\<close>: the low 32 bits, read as a signed number.\<close>

definition cast_int :: "nat \<Rightarrow> int" where
  "cast_int n = sint (word_of_nat n :: 32 word)"

section \<open>The byte ring\<close>

record tty_ring =
  tr_data :: "u8 list"
  tr_head :: nat
  tr_size :: nat

definition tty_ring_new :: tty_ring where
  "tty_ring_new = \<lparr>tr_data = replicate queue_capacity 0, tr_head = 0, tr_size = 0\<rparr>"

definition tty_ring_available :: "tty_ring \<Rightarrow> nat" where "tty_ring_available r = tr_size r"
definition tty_ring_free_space :: "tty_ring \<Rightarrow> nat" where "tty_ring_free_space r = queue_capacity - tr_size r"
definition tty_ring_empty :: "tty_ring \<Rightarrow> bool" where "tty_ring_empty r \<longleftrightarrow> tr_size r = 0"
definition tty_ring_full :: "tty_ring \<Rightarrow> bool" where "tty_ring_full r \<longleftrightarrow> tr_size r = queue_capacity"

definition tty_ring_push :: "u8 \<Rightarrow> tty_ring \<Rightarrow> bool \<times> tty_ring" where
  "tty_ring_push value r =
     (if tty_ring_full r then (False, r)
      else (True, r\<lparr>tr_data := (tr_data r)[(tr_head r + tr_size r) mod queue_capacity := value],
                    tr_size := tr_size r + 1\<rparr>))"

definition tty_ring_pop :: "tty_ring \<Rightarrow> u8 option \<times> tty_ring" where
  "tty_ring_pop r =
     (if tty_ring_empty r then (None, r)
      else (Some (tr_data r ! tr_head r),
            r\<lparr>tr_head := (tr_head r + 1) mod queue_capacity, tr_size := tr_size r - 1\<rparr>))"

definition tty_ring_clear :: "tty_ring \<Rightarrow> tty_ring" where
  "tty_ring_clear r = r\<lparr>tr_head := 0, tr_size := 0\<rparr>"

section \<open>The terminal\<close>

record terminal_core =
  input_ring :: tty_ring
  output_ring :: tty_ring
  canonical_line :: "u8 list"
  canonical_size :: nat
  input_record_sizes :: "u16 list"
  input_record_head :: nat
  input_record_count :: nat
  tc_termios :: termios
  tc_winsize :: winsize
  control_handler :: "nat option"
  control_handler_data :: nat
  eof_count :: u64
  output_paused :: bool
  input_shutdown :: bool
  master_hung_up :: bool
  slave_hung_up :: bool
  generation :: u64
  tc_calls :: "(nat \<times> control_event \<times> nat) list"

definition default_control_chars :: "u8 list" where
  "default_control_chars =
     (replicate 32 0)[vintr := default_intr, vquit := default_quit, verase := default_erase,
        vkill := default_kill, veof := default_eof, vtime := 0, vmin := 1,
        vstart := default_start, vstop := default_stop, vsusp := default_susp]"

definition default_termios :: termios where
  "default_termios =
     \<lparr>input_flags = iflag_icrnl OR iflag_ixon,
      output_flags = oflag_opost OR oflag_onlcr,
      control_flags = cflag_cs8 OR cflag_cread,
      local_flags = lflag_isig OR lflag_icanon OR lflag_echo OR lflag_echoe OR lflag_echok OR lflag_ixten,
      line_disc = 0, control_chars = default_control_chars, input_baud = 15, output_baud = 15\<rparr>"

definition terminal_core_new :: terminal_core where
  "terminal_core_new =
     \<lparr>input_ring = tty_ring_new, output_ring = tty_ring_new,
      canonical_line = replicate queue_capacity 0, canonical_size = 0,
      input_record_sizes = replicate queue_capacity 0, input_record_head = 0, input_record_count = 0,
      tc_termios = default_termios,
      tc_winsize = \<lparr>ws_rows = 24, ws_columns = 80, ws_x_pixels = 0, ws_y_pixels = 0\<rparr>,
      control_handler = None, control_handler_data = 0, eof_count = 0,
      output_paused = False, input_shutdown = False, master_hung_up = False, slave_hung_up = False,
      generation = 1, tc_calls = []\<rparr>"

definition bump_generation :: "terminal_core \<Rightarrow> terminal_core" where
  "bump_generation c =
     (let g = generation c + 1 in c\<lparr>generation := (if g = 0 then 1 else g)\<rparr>)"

definition input_flag :: "terminal_core \<Rightarrow> u32 \<Rightarrow> bool" where
  "input_flag c f \<longleftrightarrow> input_flags (tc_termios c) AND f \<noteq> 0"

definition output_flag :: "terminal_core \<Rightarrow> u32 \<Rightarrow> bool" where
  "output_flag c f \<longleftrightarrow> output_flags (tc_termios c) AND f \<noteq> 0"

definition local_flag :: "terminal_core \<Rightarrow> u32 \<Rightarrow> bool" where
  "local_flag c f \<longleftrightarrow> local_flags (tc_termios c) AND f \<noteq> 0"

definition control_char :: "terminal_core \<Rightarrow> nat \<Rightarrow> u8" where
  "control_char c i = control_chars (tc_termios c) ! i"

definition is_canonical :: "terminal_core \<Rightarrow> bool" where
  "is_canonical c \<longleftrightarrow> local_flag c lflag_icanon"

definition enqueue_input_byte :: "u8 \<Rightarrow> terminal_core \<Rightarrow> bool \<times> terminal_core" where
  "enqueue_input_byte value c =
     (let (ok, r) = tty_ring_push value (input_ring c)
      in if \<not> ok then (False, c\<lparr>input_ring := r\<rparr>)
         else (True, bump_generation (c\<lparr>input_ring := r\<rparr>)))"

definition enqueue_input_record :: "nat \<Rightarrow> terminal_core \<Rightarrow> bool \<times> terminal_core" where
  "enqueue_input_record sz c =
     (if sz > queue_capacity \<or> input_record_count c = queue_capacity then (False, c)
      else (True, c\<lparr>input_record_sizes :=
                     (input_record_sizes c)
                       [(input_record_head c + input_record_count c) mod queue_capacity := word_of_nat sz],
                   input_record_count := input_record_count c + 1\<rparr>))"

text \<open>The copy loop of \<^verbatim>\<open>enqueue_input_line\<close>: the number of bytes pushed and the ring.\<close>

fun push_line :: "u8 list \<Rightarrow> nat \<Rightarrow> tty_ring \<Rightarrow> nat \<times> tty_ring" where
  "push_line [] written r = (written, r)"
| "push_line (v # vs) written r =
     (let (ok, r') = tty_ring_push v r
      in if \<not> ok then (written, r') else push_line vs (written + 1) r')"

definition enqueue_input_line :: "terminal_core \<Rightarrow> nat \<times> terminal_core" where
  "enqueue_input_line c =
     (if canonical_size c > tty_ring_free_space (input_ring c) \<or> input_record_count c = queue_capacity
      then (0, c)
      else let (written, r) = push_line (take (canonical_size c) (canonical_line c)) 0 (input_ring c);
               c1 = c\<lparr>input_ring := r\<rparr>
           in if written \<noteq> canonical_size c then (0, c1)
              else let (ok, c2) = enqueue_input_record written c1
                   in if \<not> ok then (0, c2)
                      else (written, bump_generation (c2\<lparr>canonical_size := 0\<rparr>)))"

text \<open>A loop that pops at most \<open>n\<close> bytes of a ring, as the readers have it.\<close>

fun pop_bytes :: "nat \<Rightarrow> tty_ring \<Rightarrow> u8 list \<times> tty_ring" where
  "pop_bytes 0 r = ([], r)"
| "pop_bytes (Suc n) r =
     (case tty_ring_pop r of
        (None, r') \<Rightarrow> ([], r')
      | (Some v, r') \<Rightarrow> (let (vs, r'') = pop_bytes n r' in (v # vs, r'')))"

text \<open>
  The result has the value of \<^verbatim>\<open>*read\<close> and the bytes written to the caller's buffer from its
  start: the loop ignores a failed \<^verbatim>\<open>pop\<close>, which leaves the rest of the buffer as it was.
\<close>

definition read_canonical_record :: "nat \<Rightarrow> terminal_core \<Rightarrow> (nat \<times> u8 list) option \<times> terminal_core" where
  "read_canonical_record max_size c =
     (if input_record_count c = 0 then (None, c)
      else let remaining = input_record_sizes c ! input_record_head c;
               n = min (unat remaining) max_size;
               (bytes, r) = pop_bytes n (input_ring c);
               remaining' = (word_of_nat (unat remaining - n) :: u16);
               c1 = c\<lparr>input_ring := r,
                      input_record_sizes := (input_record_sizes c)[input_record_head c := remaining']\<rparr>;
               c2 = (if remaining' = 0
                     then c1\<lparr>input_record_head := (input_record_head c + 1) mod queue_capacity,
                             input_record_count := input_record_count c - 1\<rparr>
                     else c1)
           in (Some (n, bytes), bump_generation c2))"

definition clear_input_records :: "terminal_core \<Rightarrow> terminal_core" where
  "clear_input_records c = c\<lparr>input_record_head := 0, input_record_count := 0\<rparr>"

definition try_enqueue_output_byte :: "u8 \<Rightarrow> terminal_core \<Rightarrow> bool \<times> terminal_core" where
  "try_enqueue_output_byte value c =
     (let (ok, r) = tty_ring_push value (output_ring c)
      in if \<not> ok then (False, c\<lparr>output_ring := r\<rparr>)
         else (True, bump_generation (c\<lparr>output_ring := r\<rparr>)))"

section \<open>Echo\<close>

definition echo_byte_size :: "u8 \<Rightarrow> terminal_core \<Rightarrow> nat" where
  "echo_byte_size value c =
     (if \<not> local_flag c lflag_echo \<and> (value \<noteq> char_nl \<or> \<not> local_flag c lflag_echonl) then 0
      else if value = char_nl \<and> output_flag c oflag_onlcr then 2 else 1)"

definition echo_erase_size :: "terminal_core \<Rightarrow> nat" where
  "echo_erase_size c = (if \<not> local_flag c lflag_echoe then 0 else 3)"

definition echo_kill_size :: "terminal_core \<Rightarrow> nat" where
  "echo_kill_size c = (if \<not> local_flag c lflag_echok then 0 else 1)"

definition echo_byte :: "u8 \<Rightarrow> terminal_core \<Rightarrow> bool \<times> terminal_core" where
  "echo_byte value c =
     (if tty_ring_free_space (output_ring c) < echo_byte_size value c then (False, c)
      else let c1 = (if value = char_nl \<and> output_flag c oflag_onlcr \<and> echo_byte_size value c \<noteq> 0
                     then snd (try_enqueue_output_byte char_cr c) else c);
               c2 = (if echo_byte_size value c1 \<noteq> 0 then snd (try_enqueue_output_byte value c1) else c1)
           in (True, c2))"

definition echo_erase :: "terminal_core \<Rightarrow> bool \<times> terminal_core" where
  "echo_erase c =
     (if tty_ring_free_space (output_ring c) < echo_erase_size c then (False, c)
      else if echo_erase_size c = 0 then (True, c)
      else (True, snd (try_enqueue_output_byte char_bs
                   (snd (try_enqueue_output_byte char_sp
                     (snd (try_enqueue_output_byte char_bs c)))))))"

definition echo_kill :: "terminal_core \<Rightarrow> bool \<times> terminal_core" where
  "echo_kill c =
     (if tty_ring_free_space (output_ring c) < echo_kill_size c then (False, c)
      else (True, if echo_kill_size c \<noteq> 0 then snd (try_enqueue_output_byte char_nl c) else c))"

definition handle_control_event :: "u8 \<Rightarrow> terminal_core \<Rightarrow> terminal_core" where
  "handle_control_event value c =
     (case control_handler c of
        None \<Rightarrow> c
      | Some handler \<Rightarrow>
          if \<not> local_flag c lflag_isig then c
          else let emit = (\<lambda>ev. c\<lparr>tc_calls := tc_calls c @ [(handler, ev, control_handler_data c)]\<rparr>)
               in if value = control_char c vintr then emit Interrupt
                  else if value = control_char c vquit then emit Quit
                  else if value = control_char c vsusp then emit Suspend
                  else c)"

section \<open>Input from the master\<close>

text \<open>
  The body of the loop of \<^verbatim>\<open>receive_input\<close>, one definition per stage. A stage that ends the
  body with \<^verbatim>\<open>continue\<close> yields \<open>Next\<close>, one that returns from the function \<open>Blocked\<close>.
\<close>

datatype byte_flow = Next | Blocked

text \<open>Carriage return and newline mapping; \<open>None\<close> is a byte that is dropped.\<close>

definition translate_input :: "terminal_core \<Rightarrow> u8 \<Rightarrow> u8 option" where
  "translate_input c value =
     (if value = char_cr
      then if input_flag c iflag_igncr then None
           else if input_flag c iflag_icrnl then Some char_nl else Some value
      else if value = char_nl \<and> input_flag c iflag_inlcr then Some char_cr
      else Some value)"

text \<open>The flow control characters; the flag tells whether the byte is consumed by it.\<close>

definition flow_control :: "u8 \<Rightarrow> terminal_core \<Rightarrow> bool \<times> terminal_core" where
  "flow_control value c =
     (if \<not> input_flag c iflag_ixon then (False, c)
      else if value = control_char c vstop
           then (True, if \<not> output_paused c then bump_generation (c\<lparr>output_paused := True\<rparr>) else c)
      else if value = control_char c vstart
           then (True, if output_paused c then bump_generation (c\<lparr>output_paused := False\<rparr>) else c)
      else if output_paused c \<and> input_flag c iflag_ixany
           then (False, bump_generation (c\<lparr>output_paused := False\<rparr>))
      else (False, c))"

definition is_control_byte :: "u8 \<Rightarrow> terminal_core \<Rightarrow> bool" where
  "is_control_byte value c \<longleftrightarrow>
     local_flag c lflag_isig \<and>
     (value = control_char c vintr \<or> value = control_char c vquit \<or> value = control_char c vsusp)"

definition control_byte :: "u8 \<Rightarrow> terminal_core \<Rightarrow> terminal_core" where
  "control_byte value c =
     (let c1 = handle_control_event value c
      in if \<not> local_flag c1 lflag_noflsh
         then let c2 = clear_input_records
                         (c1\<lparr>input_ring := tty_ring_clear (input_ring c1), canonical_size := 0\<rparr>)
              in bump_generation (c2\<lparr>eof_count := 0, output_ring := tty_ring_clear (output_ring c2)\<rparr>)
         else c1)"

definition canonical_byte :: "u8 \<Rightarrow> terminal_core \<Rightarrow> byte_flow \<times> terminal_core" where
  "canonical_byte value c =
     (let extended = local_flag c lflag_ixten
      in if extended \<and> value = control_char c verase
         then if canonical_size c \<noteq> 0
              then if tty_ring_free_space (output_ring c) < echo_erase_size c then (Blocked, c)
                   else (Next, snd (echo_erase (c\<lparr>canonical_size := canonical_size c - 1\<rparr>)))
              else (Next, c)
         else if extended \<and> value = control_char c vkill
         then if tty_ring_free_space (output_ring c) < echo_kill_size c then (Blocked, c)
              else (Next, snd (echo_kill (c\<lparr>canonical_size := 0\<rparr>)))
         else if canonical_size c = 0 \<and> value = control_char c veof
         then let (ok, c1) = enqueue_input_record 0 c
              in if \<not> ok then (Blocked, c1) else (Next, bump_generation c1)
         else if canonical_size c \<ge> queue_capacity then (Blocked, c)
         else if tty_ring_free_space (output_ring c) < echo_byte_size value c then (Blocked, c)
         else if value = char_nl \<and>
              (canonical_size c + 1 > tty_ring_free_space (input_ring c) \<or> input_record_count c = queue_capacity)
         then (Blocked, c)
         else let c1 = c\<lparr>canonical_line := (canonical_line c)[canonical_size c := value],
                         canonical_size := canonical_size c + 1\<rparr>;
                  c2 = snd (echo_byte value c1)
              in if value = char_nl
                 then let (n, c3) = enqueue_input_line c2
                      in if n = 0 then (Blocked, c3) else (Next, c3)
                 else (Next, c2))"

definition raw_byte :: "u8 \<Rightarrow> terminal_core \<Rightarrow> byte_flow \<times> terminal_core" where
  "raw_byte value c =
     (if tty_ring_full (input_ring c) \<or> tty_ring_free_space (output_ring c) < echo_byte_size value c
      then (Blocked, c)
      else let c1 = c\<lparr>input_ring := snd (tty_ring_push value (input_ring c))\<rparr>
           in (Next, bump_generation (snd (echo_byte value c1))))"

definition receive_byte :: "u8 \<Rightarrow> terminal_core \<Rightarrow> byte_flow \<times> terminal_core" where
  "receive_byte byte c =
     (case translate_input c byte of
        None \<Rightarrow> (Next, c)
      | Some value \<Rightarrow>
          (let (done, c1) = flow_control value c
           in if done then (Next, c1)
              else if is_control_byte value c1 then (Next, control_byte value c1)
              else if is_canonical c1 then canonical_byte value c1
              else raw_byte value c1))"

text \<open>What a blocked transfer returns after \<open>n\<close> bytes.\<close>

definition blocked_result :: "bool \<Rightarrow> nat \<Rightarrow> errno + int" where
  "blocked_result nonblock n =
     (if nonblock then if n = 0 then Inl EAGAIN else Inr (cast_int n) else Inl EAGAIN)"

fun receive_loop :: "u8 list \<Rightarrow> bool \<Rightarrow> nat \<Rightarrow> terminal_core \<Rightarrow> (errno + int) \<times> nat \<times> terminal_core" where
  "receive_loop [] nonblock consumed c = (Inr (cast_int consumed), consumed, c)"
| "receive_loop (byte # bytes) nonblock consumed c =
     (case receive_byte byte c of
        (Next, c') \<Rightarrow> receive_loop bytes nonblock (consumed + 1) c'
      | (Blocked, c') \<Rightarrow> (blocked_result nonblock consumed, consumed, c'))"

definition receive_input ::
  "bool \<Rightarrow> u8 list \<Rightarrow> bool \<Rightarrow> bool \<Rightarrow> terminal_core \<Rightarrow> (errno + int) \<times> nat \<times> terminal_core" where
  "receive_input data_null data nonblock consumed_null c =
     (if (data_null \<and> length data \<noteq> 0) \<or> consumed_null then (Inl EINVAL, 0, c)
      else if slave_hung_up c then (Inl EIO, 0, c)
      else if input_shutdown c then (Inl EPIPE, 0, c)
      else if length data = 0 then (Inr 0, 0, c)
      else receive_loop data nonblock 0 c)"

section \<open>The slave side, and output\<close>

definition read_input ::
  "bool \<Rightarrow> nat \<Rightarrow> bool \<Rightarrow> bool \<Rightarrow> bool \<Rightarrow> terminal_core \<Rightarrow>
   (errno + int) \<times> nat \<times> u8 list \<times> terminal_core" where
  "read_input data_null max_size nonblock read_null timeout_expired c =
     (if (data_null \<and> max_size \<noteq> 0) \<or> read_null then (Inl EINVAL, 0, [], c)
      else if max_size = 0 then (Inr 0, 0, [], c)
      else case (if is_canonical c then read_canonical_record max_size c else (None, c)) of
        (Some (n, bytes), c') \<Rightarrow> (Inr (cast_int n), n, bytes, c')
      | (None, c') \<Rightarrow>
          if tty_ring_empty (input_ring c')
          then if eof_count c' \<noteq> 0
               then (Inr 0, 0, [], bump_generation (c'\<lparr>eof_count := eof_count c' - 1\<rparr>))
               else if input_shutdown c' then (Inr 0, 0, [], c')
               else if master_hung_up c' then (Inr 0, 0, [], c')
               else if \<not> is_canonical c' \<and> control_char c' vtime \<noteq> 0 \<and> timeout_expired then (Inr 0, 0, [], c')
               else if \<not> is_canonical c' \<and> control_char c' vmin = 0 \<and> control_char c' vtime = 0
               then (Inr 0, 0, [], c')
               else (Inl EAGAIN, 0, [], c')
          else let minimum = min (unat (control_char c' vmin)) max_size
               in if \<not> is_canonical c' \<and> minimum \<noteq> 0 \<and>
                     tty_ring_available (input_ring c') < minimum \<and> \<not> timeout_expired
                  then (Inl EAGAIN, 0, [], c')
                  else let (bytes, r) = pop_bytes max_size (input_ring c')
                       in (Inr (cast_int (length bytes)), length bytes, bytes, bump_generation (c'\<lparr>input_ring := r\<rparr>)))"

definition translates_newline :: "u8 \<Rightarrow> terminal_core \<Rightarrow> bool" where
  "translates_newline value c \<longleftrightarrow>
     output_flag c oflag_opost \<and> output_flag c oflag_onlcr \<and> value = char_nl"

fun write_loop :: "u8 list \<Rightarrow> bool \<Rightarrow> nat \<Rightarrow> terminal_core \<Rightarrow> (errno + int) \<times> nat \<times> terminal_core" where
  "write_loop [] nonblock written c = (Inr (cast_int written), written, c)"
| "write_loop (value # vs) nonblock written c =
     (let translate_newline = translates_newline value c;
          required_space = (if translate_newline then 2 else 1)
      in if tty_ring_free_space (output_ring c) < required_space
         then (blocked_result nonblock written, written, c)
         else let c1 = (if translate_newline then snd (try_enqueue_output_byte char_cr c) else c);
                  c2 = snd (try_enqueue_output_byte value c1)
              in write_loop vs nonblock (written + 1) c2)"

definition write_output ::
  "bool \<Rightarrow> u8 list \<Rightarrow> bool \<Rightarrow> bool \<Rightarrow> terminal_core \<Rightarrow> (errno + int) \<times> nat \<times> terminal_core" where
  "write_output data_null data nonblock written_null c =
     (if (data_null \<and> length data \<noteq> 0) \<or> written_null then (Inl EINVAL, 0, c)
      else if master_hung_up c then (Inl EIO, 0, c)
      else if length data = 0 then (Inr 0, 0, c)
      else if output_paused c then (Inl EAGAIN, 0, c)
      else write_loop data nonblock 0 c)"

definition read_output ::
  "bool \<Rightarrow> nat \<Rightarrow> bool \<Rightarrow> bool \<Rightarrow> terminal_core \<Rightarrow>
   (errno + int) \<times> nat \<times> u8 list \<times> terminal_core" where
  "read_output data_null max_size nonblock read_null c =
     (if (data_null \<and> max_size \<noteq> 0) \<or> read_null then (Inl EINVAL, 0, [], c)
      else if max_size = 0 then (Inr 0, 0, [], c)
      else if tty_ring_empty (output_ring c)
      then if slave_hung_up c then (Inl EIO, 0, [], c) else (Inl EAGAIN, 0, [], c)
      else let (bytes, r) = pop_bytes max_size (output_ring c)
           in (Inr (cast_int (length bytes)), length bytes, bytes, bump_generation (c\<lparr>output_ring := r\<rparr>)))"

section \<open>Control operations\<close>

definition tty_flush :: "int \<Rightarrow> terminal_core \<Rightarrow> (errno + int) \<times> terminal_core" where
  "tty_flush queue c =
     (if queue < tty_flush_input \<or> queue > tty_flush_both then (Inl EINVAL, c)
      else let c1 = (if queue = tty_flush_input \<or> queue = tty_flush_both
                     then (clear_input_records
                            (c\<lparr>input_ring := tty_ring_clear (input_ring c), canonical_size := 0\<rparr>))
                            \<lparr>eof_count := 0\<rparr>
                     else c);
               c2 = (if queue = tty_flush_output \<or> queue = tty_flush_both
                     then c1\<lparr>output_ring := tty_ring_clear (output_ring c1)\<rparr> else c1)
           in (Inr 0, bump_generation c2))"

definition send_eof :: "terminal_core \<Rightarrow> terminal_core" where
  "send_eof c =
     (if is_canonical c
      then let (ok, c1) = enqueue_input_record 0 c in if \<not> ok then c1 else bump_generation c1
      else bump_generation (c\<lparr>eof_count := eof_count c + 1\<rparr>))"

definition shutdown_input :: "terminal_core \<Rightarrow> terminal_core" where
  "shutdown_input c = bump_generation (c\<lparr>input_shutdown := True\<rparr>)"

definition hangup_master :: "terminal_core \<Rightarrow> terminal_core" where
  "hangup_master c = bump_generation (c\<lparr>master_hung_up := True\<rparr>)"

definition hangup_slave :: "terminal_core \<Rightarrow> terminal_core" where
  "hangup_slave c = bump_generation (c\<lparr>slave_hung_up := True\<rparr>)"

definition open_master :: "terminal_core \<Rightarrow> terminal_core" where
  "open_master c = (if \<not> master_hung_up c then c else bump_generation (c\<lparr>master_hung_up := False\<rparr>))"

definition open_slave :: "terminal_core \<Rightarrow> terminal_core" where
  "open_slave c = (if \<not> slave_hung_up c then c else bump_generation (c\<lparr>slave_hung_up := False\<rparr>))"

definition send_break :: "u32 \<Rightarrow> terminal_core \<Rightarrow> errno + int" where
  "send_break duration_ms c = (if slave_hung_up c then Inl EIO else Inl ENOTSUP)"

definition set_flow :: "u64 \<Rightarrow> terminal_core \<Rightarrow> (errno + int) \<times> terminal_core" where
  "set_flow action c =
     (if action > 3 then (Inl EINVAL, c)
      else let pause = (action = 0 \<or> action = 2)
           in (Inr 0, if output_paused c \<noteq> pause
                      then bump_generation (c\<lparr>output_paused := pause\<rparr>) else c))"

definition get_termios :: "terminal_core \<Rightarrow> termios" where
  "get_termios c = tc_termios c"

definition validate_termios :: "termios \<Rightarrow> errno + int" where
  "validate_termios value =
     (if input_flags value AND NOT iflag_supported \<noteq> 0 \<or> output_flags value AND NOT oflag_supported \<noteq> 0 \<or>
         control_flags value AND NOT cflag_supported \<noteq> 0 \<or> local_flags value AND NOT lflag_supported \<noteq> 0
      then Inl EINVAL else Inr 0)"

definition set_termios :: "termios \<Rightarrow> terminal_core \<Rightarrow> (errno + int) \<times> terminal_core" where
  "set_termios value c =
     (if validate_termios value \<noteq> Inr 0 then (Inl EINVAL, c)
      else let c1 = c\<lparr>tc_termios := value\<rparr>;
               c2 = (if \<not> input_flag c1 iflag_ixon then c1\<lparr>output_paused := False\<rparr> else c1)
           in (Inr 0, bump_generation c2))"

definition get_winsize :: "terminal_core \<Rightarrow> winsize" where
  "get_winsize c = tc_winsize c"

definition set_winsize :: "winsize \<Rightarrow> terminal_core \<Rightarrow> terminal_core" where
  "set_winsize value c = bump_generation (c\<lparr>tc_winsize := value\<rparr>)"

definition set_control_event_handler :: "nat option \<Rightarrow> nat \<Rightarrow> terminal_core \<Rightarrow> terminal_core" where
  "set_control_event_handler handler user_data c =
     bump_generation (c\<lparr>control_handler := handler, control_handler_data := user_data\<rparr>)"

definition notify_external_change :: "terminal_core \<Rightarrow> terminal_core" where
  "notify_external_change c = bump_generation c"

section \<open>Readiness\<close>

definition input_available :: "terminal_core \<Rightarrow> nat" where
  "input_available c = tty_ring_available (input_ring c)"

definition output_available :: "terminal_core \<Rightarrow> nat" where
  "output_available c = tty_ring_available (output_ring c)"

text \<open>An event mask is built by conditional \<^verbatim>\<open>|=\<close>.\<close>

definition event_if :: "bool \<Rightarrow> u32 \<Rightarrow> u32 \<Rightarrow> u32" where
  "event_if cond evs events = (if cond then events OR evs else events)"

definition input_poll_events :: "terminal_core \<Rightarrow> u32" where
  "input_poll_events c =
     event_if (master_hung_up c) (tty_poll_error OR tty_poll_hangup)
       (event_if (\<not> tty_ring_full (input_ring c) \<and> \<not> master_hung_up c) tty_poll_writable
         (event_if (\<not> tty_ring_empty (input_ring c) \<or> input_record_count c \<noteq> 0 \<or> eof_count c \<noteq> 0 \<or>
                    master_hung_up c) tty_poll_readable 0))"

definition output_poll_events :: "terminal_core \<Rightarrow> u32" where
  "output_poll_events c =
     event_if (slave_hung_up c) (tty_poll_error OR tty_poll_hangup)
       (event_if (\<not> tty_ring_full (output_ring c) \<and> \<not> master_hung_up c \<and> \<not> output_paused c) tty_poll_writable
         (event_if (\<not> tty_ring_empty (output_ring c) \<or> slave_hung_up c) tty_poll_readable 0))"

definition master_poll_events :: "terminal_core \<Rightarrow> u32" where
  "master_poll_events c =
     (let echo_enabled = (local_flag c lflag_echo \<or> local_flag c lflag_echonl);
          echo_space = (if \<not> echo_enabled then 0 else if output_flag c oflag_onlcr then 2 else 1);
          input_space = (if is_canonical c
                         then canonical_size c < queue_capacity \<and> input_record_count c < queue_capacity
                         else \<not> tty_ring_full (input_ring c))
      in event_if (slave_hung_up c) (tty_poll_error OR tty_poll_hangup)
           (event_if (input_space \<and> \<not> input_shutdown c \<and> \<not> slave_hung_up c \<and>
                      tty_ring_free_space (output_ring c) \<ge> echo_space) tty_poll_writable
             (event_if (\<not> tty_ring_empty (output_ring c) \<or> slave_hung_up c) tty_poll_readable 0)))"

definition slave_poll_events :: "terminal_core \<Rightarrow> u32" where
  "slave_poll_events c =
     event_if (master_hung_up c) (tty_poll_error OR tty_poll_hangup)
       (event_if (\<not> tty_ring_full (output_ring c) \<and> \<not> master_hung_up c \<and> \<not> output_paused c) tty_poll_writable
         (event_if (\<not> tty_ring_empty (input_ring c) \<or> input_record_count c \<noteq> 0 \<or> eof_count c \<noteq> 0 \<or>
                    input_shutdown c \<or> master_hung_up c) tty_poll_readable 0))"

end
