(* ===== verification/Terminal_Inv.thy ===== *)
theory Terminal_Inv
  imports Terminal_Core
begin

text \<open>
  The invariant of a terminal and its abstraction. The rings and the record sizes are lists,
  the canonical line is the used prefix of its array; every index stays inside its array and
  every size within \<open>queue_capacity\<close>, for all operations of \<open>Terminal_Core\<close>. The lemmas
  describe the operations on these lists.
\<close>

definition ring_ok :: "tty_ring \<Rightarrow> bool" where
  "ring_ok r \<longleftrightarrow> length (tr_data r) = queue_capacity \<and> tr_head r < queue_capacity \<and> tr_size r \<le> queue_capacity"

definition ring_list :: "tty_ring \<Rightarrow> u8 list" where
  "ring_list r = ring_contents (tr_data r) (tr_head r) (tr_size r)"

lemma queue_capacity_pos [simp]: "0 < queue_capacity"
  by (simp add: queue_capacity_def)

lemma length_ring_list [simp]: "length (ring_list r) = tr_size r"
  by (simp add: ring_list_def)

lemma ring_list_bound: "ring_ok r \<Longrightarrow> length (ring_list r) \<le> queue_capacity"
  by (simp add: ring_ok_def)

lemma ring_ok_new [simp]: "ring_ok tty_ring_new" "ring_list tty_ring_new = []"
  by (simp_all add: ring_ok_def ring_list_def tty_ring_new_def)

lemma ring_ok_clear [simp]: "ring_ok r \<Longrightarrow> ring_ok (tty_ring_clear r)" "ring_list (tty_ring_clear r) = []"
  by (simp_all add: ring_ok_def ring_list_def tty_ring_clear_def)

lemma ring_observers:
  "tty_ring_empty r \<longleftrightarrow> ring_list r = []" "tty_ring_full r \<longleftrightarrow> length (ring_list r) = queue_capacity"
  "tty_ring_free_space r = queue_capacity - length (ring_list r)" "tty_ring_available r = length (ring_list r)"
  by (auto simp: tty_ring_empty_def tty_ring_full_def tty_ring_free_space_def tty_ring_available_def ring_list_def)

lemma free_space_less: "ring_ok r \<Longrightarrow> tty_ring_free_space r < n \<longleftrightarrow> queue_capacity < length (ring_list r) + n"
  by (auto simp: ring_ok_def tty_ring_free_space_def)

lemma tty_ring_push_ok:
  assumes "ring_ok r" "length (ring_list r) < queue_capacity"
  obtains r' where "tty_ring_push v r = (True, r')" "ring_ok r'" "ring_list r' = ring_list r @ [v]"
proof
  let ?r = "r\<lparr>tr_data := (tr_data r)[(tr_head r + tr_size r) mod queue_capacity := v], tr_size := tr_size r + 1\<rparr>"
  show "tty_ring_push v r = (True, ?r)" using assms by (simp add: tty_ring_push_def ring_observers)
  show "ring_ok ?r" using assms by (simp add: ring_ok_def)
  show "ring_list ?r = ring_list r @ [v]"
    using assms ring_push [of "tr_data r" queue_capacity "tr_size r" "tr_head r" v] by (simp add: ring_list_def ring_ok_def)
qed

lemma tty_ring_push_full: "length (ring_list r) = queue_capacity \<Longrightarrow> tty_ring_push v r = (False, r)"
  by (simp add: tty_ring_push_def ring_observers)

lemma tty_ring_push_inv: "ring_ok r \<Longrightarrow> ring_ok (snd (tty_ring_push v r))"
  by (cases "length (ring_list r) < queue_capacity")
    (metis tty_ring_push_ok snd_conv, simp add: tty_ring_push_def ring_ok_def tty_ring_full_def)

lemma tty_ring_pop_ok:
  assumes "ring_ok r" "ring_list r = v # vs"
  obtains r' where "tty_ring_pop r = (Some v, r')" "ring_ok r'" "ring_list r' = vs"
proof
  let ?r = "r\<lparr>tr_head := (tr_head r + 1) mod queue_capacity, tr_size := tr_size r - 1\<rparr>"
  have n: "0 < tr_size r" using assms(2) by (metis length_ring_list length_greater_0_conv list.distinct(1))
  have "tr_data r ! tr_head r = hd (ring_list r)"
    using assms(1) n by (simp add: ring_list_def ring_ok_def ring_contents_hd)
  with assms n show "tty_ring_pop r = (Some v, ?r)" by (simp add: tty_ring_pop_def tty_ring_empty_def)
  show "ring_ok ?r" using assms(1) by (auto simp: ring_ok_def)
  show "ring_list ?r = vs"
    using assms ring_pop [of "tr_data r" queue_capacity "tr_head r" "tr_size r"] by (simp add: ring_list_def ring_ok_def)
qed

lemma pop_bytes_ok:
  assumes "ring_ok r"
  obtains r' where "pop_bytes n r = (take n (ring_list r), r')" "ring_ok r'" "ring_list r' = drop n (ring_list r)"
proof -
  have "\<exists>r'. pop_bytes n r = (take n (ring_list r), r') \<and> ring_ok r' \<and> ring_list r' = drop n (ring_list r)"
    using assms
  proof (induction n arbitrary: r)
    case (Suc n)
    show ?case
    proof (cases "ring_list r")
      case Nil
      then show ?thesis using Suc.prems by (simp add: tty_ring_pop_def ring_observers)
    next
      case (Cons v vs)
      with Suc.prems obtain r1 where r1: "tty_ring_pop r = (Some v, r1)" "ring_ok r1" "ring_list r1 = vs"
        by (rule tty_ring_pop_ok)
      obtain r2 where "pop_bytes n r1 = (take n vs, r2)" "ring_ok r2" "ring_list r2 = drop n vs"
        using Suc.IH [OF r1(2)] r1(3) by auto
      with r1 Cons show ?thesis by simp
    qed
  qed simp
  with that show ?thesis by blast
qed

lemma push_line_ok:
  assumes "ring_ok r" "length (ring_list r) + length vs \<le> queue_capacity"
  obtains r' where "push_line vs n r = (n + length vs, r')" "ring_ok r'" "ring_list r' = ring_list r @ vs"
proof -
  have "\<exists>r'. push_line vs n r = (n + length vs, r') \<and> ring_ok r' \<and> ring_list r' = ring_list r @ vs"
    using assms
  proof (induction vs arbitrary: n r)
    case (Cons v vs)
    then obtain r1 where r1: "tty_ring_push v r = (True, r1)" "ring_ok r1" "ring_list r1 = ring_list r @ [v]"
      using tty_ring_push_ok [of r v] by auto
    have len: "length (ring_list r1) + length vs \<le> queue_capacity" using Cons.prems(2) unfolding r1(3) by simp
    show ?case using Cons.IH [OF r1(2) len, of "n + 1"] r1 by auto
  qed simp
  with that show ?thesis by blast
qed

section \<open>The invariant\<close>

abbreviation input_bytes :: "terminal_core \<Rightarrow> u8 list" where
  "input_bytes c \<equiv> ring_list (input_ring c)"

abbreviation output_bytes :: "terminal_core \<Rightarrow> u8 list" where
  "output_bytes c \<equiv> ring_list (output_ring c)"

definition pending_line :: "terminal_core \<Rightarrow> u8 list" where
  "pending_line c = take (canonical_size c) (canonical_line c)"

definition record_sizes :: "terminal_core \<Rightarrow> nat list" where
  "record_sizes c = map unat (ring_contents (input_record_sizes c) (input_record_head c) (input_record_count c))"

definition tc_inv :: "terminal_core \<Rightarrow> bool" where
  "tc_inv c \<longleftrightarrow>
     ring_ok (input_ring c) \<and> ring_ok (output_ring c) \<and>
     length (canonical_line c) = queue_capacity \<and> canonical_size c \<le> queue_capacity \<and>
     length (input_record_sizes c) = queue_capacity \<and> input_record_head c < queue_capacity \<and>
     input_record_count c \<le> queue_capacity \<and> (\<forall>n \<in> set (record_sizes c). n \<le> queue_capacity) \<and>
     length (control_chars (tc_termios c)) = 32 \<and> generation c \<noteq> 0"

lemma tc_inv_rings: "tc_inv c \<Longrightarrow> ring_ok (input_ring c)" "tc_inv c \<Longrightarrow> ring_ok (output_ring c)"
  by (simp_all add: tc_inv_def)

lemma length_record_sizes [simp]: "length (record_sizes c) = input_record_count c"
  by (simp add: record_sizes_def)

lemma length_pending_line: "tc_inv c \<Longrightarrow> length (pending_line c) = canonical_size c"
  by (simp add: tc_inv_def pending_line_def)

lemma terminal_core_new_inv: "tc_inv terminal_core_new"
  by (simp add: tc_inv_def terminal_core_new_def record_sizes_def default_termios_def default_control_chars_def)

lemma tc_inv_output: "tc_inv c \<Longrightarrow> ring_ok r \<Longrightarrow> tc_inv (c\<lparr>output_ring := r\<rparr>)"
  by (simp add: tc_inv_def record_sizes_def)

lemma tc_inv_input: "tc_inv c \<Longrightarrow> ring_ok r \<Longrightarrow> tc_inv (c\<lparr>input_ring := r\<rparr>)"
  by (simp add: tc_inv_def record_sizes_def)

lemma tc_inv_line:
  "tc_inv c \<Longrightarrow> length l = queue_capacity \<Longrightarrow> n \<le> queue_capacity \<Longrightarrow>
     tc_inv (c\<lparr>canonical_line := l, canonical_size := n\<rparr>)"
  "tc_inv c \<Longrightarrow> n \<le> queue_capacity \<Longrightarrow> tc_inv (c\<lparr>canonical_size := n\<rparr>)"
  by (simp_all add: tc_inv_def record_sizes_def)

lemma tc_inv_flags:
  "tc_inv c \<Longrightarrow> tc_inv (c\<lparr>eof_count := e\<rparr>)" "tc_inv c \<Longrightarrow> tc_inv (c\<lparr>output_paused := b\<rparr>)"
  "tc_inv c \<Longrightarrow> tc_inv (c\<lparr>input_shutdown := b\<rparr>)" "tc_inv c \<Longrightarrow> tc_inv (c\<lparr>master_hung_up := b\<rparr>)"
  "tc_inv c \<Longrightarrow> tc_inv (c\<lparr>slave_hung_up := b\<rparr>)" "tc_inv c \<Longrightarrow> tc_inv (c\<lparr>tc_winsize := z\<rparr>)"
  "tc_inv c \<Longrightarrow> tc_inv (c\<lparr>tc_calls := cs\<rparr>)"
  "tc_inv c \<Longrightarrow> tc_inv (c\<lparr>control_handler := h, control_handler_data := p\<rparr>)"
  "tc_inv c \<Longrightarrow> length (control_chars t) = 32 \<Longrightarrow> tc_inv (c\<lparr>tc_termios := t\<rparr>)"
  "tc_inv c \<Longrightarrow> g \<noteq> 0 \<Longrightarrow> tc_inv (c\<lparr>generation := g\<rparr>)"
  by (simp_all add: tc_inv_def record_sizes_def)

lemma bump_generation_eq: "\<exists>g. g \<noteq> 0 \<and> g \<noteq> generation c \<and> bump_generation c = c\<lparr>generation := g\<rparr>"
  by (auto simp: bump_generation_def Let_def intro: exI [of _ 1])

lemma bump_inv: "tc_inv c \<Longrightarrow> tc_inv (bump_generation c)"
  using bump_generation_eq [of c] tc_inv_flags(10) by metis

lemma clear_input_records_inv: "tc_inv c \<Longrightarrow> tc_inv (clear_input_records c)"
  by (simp add: clear_input_records_def tc_inv_def record_sizes_def)

lemma unat_record_size: "n \<le> queue_capacity \<Longrightarrow> unat (word_of_nat n :: u16) = n"
  by (simp add: queue_capacity_def unsigned_of_nat take_bit_nat_eq_self)

lemma enqueue_input_record_ok:
  assumes "tc_inv c" "n \<le> queue_capacity" "length (record_sizes c) < queue_capacity"
  obtains c' where "enqueue_input_record n c = (True, c')" "tc_inv c'" "record_sizes c' = record_sizes c @ [n]"
    "c' = c\<lparr>input_record_sizes := input_record_sizes c', input_record_count := input_record_count c'\<rparr>"
proof -
  let ?h = "input_record_head c" and ?k = "input_record_count c"
  let ?c = "c\<lparr>input_record_sizes := (input_record_sizes c)[(?h + ?k) mod queue_capacity := word_of_nat n],
               input_record_count := ?k + 1\<rparr>"
  have len: "length (input_record_sizes c) = queue_capacity" "?k < queue_capacity"
    using assms(1,3) by (simp_all add: tc_inv_def)
  have rs: "record_sizes ?c = record_sizes c @ [n]"
    using ring_push [OF len, of ?h "word_of_nat n"] unat_record_size [OF assms(2)] by (simp add: record_sizes_def)
  have "tc_inv ?c"
  proof -
    have "\<forall>i \<in> set (record_sizes ?c). i \<le> queue_capacity" using assms(1,2) unfolding rs by (simp add: tc_inv_def)
    with assms(1) len(2) show ?thesis by (simp add: tc_inv_def)
  qed
  moreover have "enqueue_input_record n c = (True, ?c)" using assms(2) len(2) by (simp add: enqueue_input_record_def)
  ultimately show ?thesis using that [of ?c] rs by simp
qed

lemma enqueue_input_record_inv: "tc_inv c \<Longrightarrow> tc_inv (snd (enqueue_input_record n c))"
proof (cases "n \<le> queue_capacity \<and> length (record_sizes c) < queue_capacity")
  case True
  assume "tc_inv c"
  with True show ?thesis using enqueue_input_record_ok [of c n] by (metis snd_conv)
next
  case False
  assume "tc_inv c"
  with False show ?thesis by (auto simp: enqueue_input_record_def tc_inv_def)
qed

section \<open>Output\<close>

text \<open>\<open>c'\<close> is \<open>c\<close> with the bytes \<open>vs\<close> appended to its output, and perhaps another generation.\<close>

definition emits :: "terminal_core \<Rightarrow> u8 list \<Rightarrow> terminal_core \<Rightarrow> bool" where
  "emits c vs c' \<longleftrightarrow>
     (\<exists>r g. c' = c\<lparr>output_ring := r, generation := g\<rparr> \<and> ring_ok r \<and> ring_list r = output_bytes c @ vs \<and> g \<noteq> 0)"

lemma emits_refl: "tc_inv c \<Longrightarrow> emits c [] c"
  unfolding emits_def by (rule exI [of _ "output_ring c"], rule exI [of _ "generation c"]) (simp add: tc_inv_def)

lemma emits_trans:
  assumes "emits c vs c1" "emits c1 ws c2"
  shows "emits c (vs @ ws) c2"
proof -
  obtain r g where 1: "c1 = c\<lparr>output_ring := r, generation := g\<rparr>" "ring_list r = output_bytes c @ vs"
    using assms(1) by (auto simp: emits_def)
  obtain r' g' where 2: "c2 = c1\<lparr>output_ring := r', generation := g'\<rparr>" "ring_ok r'" "g' \<noteq> 0"
      "ring_list r' = output_bytes c1 @ ws" using assms(2) by (auto simp: emits_def)
  show ?thesis unfolding emits_def by (rule exI [of _ r'], rule exI [of _ g']) (use 1 2 in simp)
qed

lemma emits_inv: "tc_inv c \<Longrightarrow> emits c vs c' \<Longrightarrow> tc_inv c'"
  by (auto simp: emits_def intro!: tc_inv_flags(10) tc_inv_output)

lemma emits_fields:
  assumes "emits c vs c'"
  shows "input_ring c' = input_ring c" "canonical_line c' = canonical_line c" "canonical_size c' = canonical_size c"
    "input_record_sizes c' = input_record_sizes c" "input_record_head c' = input_record_head c"
    "input_record_count c' = input_record_count c" "tc_termios c' = tc_termios c" "output_paused c' = output_paused c"
    "output_bytes c' = output_bytes c @ vs" "eof_count c' = eof_count c" "record_sizes c' = record_sizes c"
    "pending_line c' = pending_line c" "input_flag c' = input_flag c" "output_flag c' = output_flag c"
    "local_flag c' = local_flag c" "control_char c' = control_char c" "is_canonical c' = is_canonical c"
    "slave_hung_up c' = slave_hung_up c" "master_hung_up c' = master_hung_up c"
    "input_shutdown c' = input_shutdown c" "tc_calls c' = tc_calls c"
  using assms
  by (auto simp: emits_def record_sizes_def pending_line_def input_flag_def [abs_def] output_flag_def [abs_def]
      local_flag_def [abs_def] control_char_def [abs_def] is_canonical_def)

lemma emits_bump: "emits c vs c' \<Longrightarrow> emits c vs (bump_generation c')"
proof -
  assume "emits c vs c'"
  then obtain r g where c': "c' = c\<lparr>output_ring := r, generation := g\<rparr>" "ring_ok r" "ring_list r = output_bytes c @ vs"
    by (auto simp: emits_def)
  obtain g' where "g' \<noteq> 0" "bump_generation c' = c'\<lparr>generation := g'\<rparr>" using bump_generation_eq by blast
  with c' show ?thesis unfolding emits_def by (intro exI [of _ r] exI [of _ g']) simp
qed

lemma try_enqueue_output_byte_ok:
  assumes "tc_inv c" "length (output_bytes c) < queue_capacity"
  shows "emits c [v] (snd (try_enqueue_output_byte v c))"
proof -
  obtain r where r: "tty_ring_push v (output_ring c) = (True, r)" "ring_ok r" "ring_list r = output_bytes c @ [v]"
    using tty_ring_push_ok [OF tc_inv_rings(2) [OF assms(1)] assms(2)] .
  obtain g where g: "g \<noteq> 0" "bump_generation (c\<lparr>output_ring := r\<rparr>) = c\<lparr>output_ring := r\<rparr>\<lparr>generation := g\<rparr>"
    using bump_generation_eq by blast
  have "snd (try_enqueue_output_byte v c) = c\<lparr>output_ring := r\<rparr>\<lparr>generation := g\<rparr>"
    using r(1) g(2) by (simp add: try_enqueue_output_byte_def)
  with r g(1) show ?thesis unfolding emits_def by (intro exI [of _ r] exI [of _ g]) simp
qed

text \<open>A second byte behind a first one.\<close>

lemma try_enqueue_output_byte_next:
  assumes "tc_inv c" "emits c vs c1" "length (output_bytes c) + length vs < queue_capacity"
  shows "emits c (vs @ [v]) (snd (try_enqueue_output_byte v c1))"
proof (rule emits_trans [OF assms(2)])
  have "length (output_bytes c1) < queue_capacity" using assms(3) unfolding emits_fields(9) [OF assms(2)] by simp
  then show "emits c1 [v] (snd (try_enqueue_output_byte v c1))"
    by (rule try_enqueue_output_byte_ok [OF emits_inv [OF assms(1,2)]])
qed

text \<open>What the terminal echoes.\<close>

definition echo_text :: "terminal_core \<Rightarrow> u8 \<Rightarrow> u8 list" where
  "echo_text c v =
     (if \<not> local_flag c lflag_echo \<and> (v \<noteq> char_nl \<or> \<not> local_flag c lflag_echonl) then []
      else if v = char_nl \<and> output_flag c oflag_onlcr then [char_cr, char_nl] else [v])"

definition erase_text :: "terminal_core \<Rightarrow> u8 list" where
  "erase_text c = (if local_flag c lflag_echoe then [char_bs, char_sp, char_bs] else [])"

definition kill_text :: "terminal_core \<Rightarrow> u8 list" where
  "kill_text c = (if local_flag c lflag_echok then [char_nl] else [])"

lemma echo_sizes:
  "echo_byte_size v c = length (echo_text c v)" "echo_erase_size c = length (erase_text c)"
  "echo_kill_size c = length (kill_text c)"
  by (simp_all add: echo_byte_size_def echo_text_def echo_erase_size_def erase_text_def echo_kill_size_def kill_text_def)

lemma echo_byte_ok:
  assumes "tc_inv c" "length (output_bytes c) + length (echo_text c v) \<le> queue_capacity"
  shows "emits c (echo_text c v) (snd (echo_byte v c))"
proof -
  note room = assms(2) [unfolded ring_observers]
  have free: "\<not> tty_ring_free_space (output_ring c) < echo_byte_size v c"
    using assms(2) by (simp add: ring_observers echo_sizes)
  consider (none) "echo_text c v = []" | (nl) "v = char_nl" "output_flag c oflag_onlcr" "echo_text c v = [char_cr, char_nl]"
    | (one) "\<not> (v = char_nl \<and> output_flag c oflag_onlcr)" "echo_text c v = [v]"
    unfolding echo_text_def by metis
  then show ?thesis
  proof cases
    case none
    with free emits_refl [OF assms(1)] show ?thesis by (simp add: echo_byte_def echo_sizes)
  next
    case nl
    have e: "emits c [char_cr] (snd (try_enqueue_output_byte char_cr c))"
      using assms nl by (intro try_enqueue_output_byte_ok) simp_all
    have "echo_text (snd (try_enqueue_output_byte char_cr c)) char_nl = echo_text c char_nl"
      by (simp add: echo_text_def emits_fields [OF e])
    with nl free have "snd (echo_byte v c) = snd (try_enqueue_output_byte char_nl (snd (try_enqueue_output_byte char_cr c)))"
      by (simp add: echo_byte_def echo_sizes Let_def)
    moreover have "emits c ([char_cr] @ [char_nl])
        (snd (try_enqueue_output_byte char_nl (snd (try_enqueue_output_byte char_cr c))))"
      by (rule try_enqueue_output_byte_next [OF assms(1) e]) (use assms(2) nl in simp)
    ultimately show ?thesis using nl by simp
  next
    case one
    then have "snd (echo_byte v c) = snd (try_enqueue_output_byte v c)" using free by (auto simp: echo_byte_def echo_sizes)
    moreover have "emits c [v] (snd (try_enqueue_output_byte v c))"
      using assms one(2) by (intro try_enqueue_output_byte_ok) simp_all
    ultimately show ?thesis using one(2) by simp
  qed
qed

lemma echo_erase_ok:
  assumes "tc_inv c" "length (output_bytes c) + length (erase_text c) \<le> queue_capacity"
  shows "emits c (erase_text c) (snd (echo_erase c))"
proof (cases "erase_text c = []")
  case True
  with emits_refl [OF assms(1)] show ?thesis by (simp add: echo_erase_def echo_sizes)
next
  case False
  then have t: "erase_text c = [char_bs, char_sp, char_bs]" by (simp add: erase_text_def split: if_splits)
  have 1: "emits c [char_bs] (snd (try_enqueue_output_byte char_bs c))"
    using assms t by (intro try_enqueue_output_byte_ok) simp_all
  have 2: "emits c ([char_bs] @ [char_sp]) (snd (try_enqueue_output_byte char_sp (snd (try_enqueue_output_byte char_bs c))))"
    by (rule try_enqueue_output_byte_next [OF assms(1) 1]) (use assms(2) t in simp)
  have "emits c (([char_bs] @ [char_sp]) @ [char_bs])
      (snd (try_enqueue_output_byte char_bs (snd (try_enqueue_output_byte char_sp (snd (try_enqueue_output_byte char_bs c))))))"
    by (rule try_enqueue_output_byte_next [OF assms(1) 2]) (use assms(2) t in simp)
  moreover have "\<not> tty_ring_free_space (output_ring c) < echo_erase_size c"
    using assms(2) by (simp add: ring_observers echo_sizes)
  ultimately show ?thesis using t by (simp add: echo_erase_def echo_sizes)
qed

lemma echo_kill_ok:
  assumes "tc_inv c" "length (output_bytes c) + length (kill_text c) \<le> queue_capacity"
  shows "emits c (kill_text c) (snd (echo_kill c))"
proof (cases "kill_text c = []")
  case True
  with emits_refl [OF assms(1)] show ?thesis by (simp add: echo_kill_def echo_sizes)
next
  case False
  then have t: "kill_text c = [char_nl]" by (simp add: kill_text_def split: if_splits)
  have "emits c [char_nl] (snd (try_enqueue_output_byte char_nl c))"
    using assms t by (intro try_enqueue_output_byte_ok) simp_all
  moreover have "\<not> tty_ring_free_space (output_ring c) < echo_kill_size c"
    using assms(2) by (simp add: ring_observers echo_sizes)
  ultimately show ?thesis using t by (simp add: echo_kill_def echo_sizes)
qed

end
