(* ===== verification/Terminal_Lines.thy ===== *)
theory Terminal_Lines
  imports Terminal_Inv
begin

text \<open>
  A specification of the line discipline in canonical mode, and the refinement: a terminal
  is abstracted to the line being edited, the lines committed to the reader, the output and
  the flow control state (\<open>line_state\<close>). Capacities appear as bounds on lengths only.
\<close>

record line_state =
  ls_line :: "u8 list"
  ls_records :: "u8 list list"
  ls_output :: "u8 list"
  ls_paused :: bool

text \<open>Cutting the input bytes at the record sizes.\<close>

fun cut :: "nat list \<Rightarrow> 'a list \<Rightarrow> 'a list list" where
  "cut [] xs = []"
| "cut (n # ns) xs = take n xs # cut ns (drop n xs)"

definition framed :: "terminal_core \<Rightarrow> bool" where
  "framed c \<longleftrightarrow> sum_list (record_sizes c) = length (input_bytes c)"

definition abs_lines :: "terminal_core \<Rightarrow> line_state" where
  "abs_lines c =
     \<lparr>ls_line = pending_line c, ls_records = cut (record_sizes c) (input_bytes c),
      ls_output = output_bytes c, ls_paused = output_paused c\<rparr>"

lemma length_cut [simp]: "length (cut ns xs) = length ns"
  by (induction ns arbitrary: xs) simp_all

lemma cut_lengths: "sum_list ns = length xs \<Longrightarrow> map length (cut ns xs) = ns"
  by (induction ns arbitrary: xs) simp_all

lemma concat_cut: "sum_list ns = length xs \<Longrightarrow> concat (cut ns xs) = xs"
  by (induction ns arbitrary: xs) simp_all

lemma cut_append: "sum_list ns = length xs \<Longrightarrow> cut (ns @ [n]) (xs @ ys) = cut ns xs @ [take n ys]"
  by (induction ns arbitrary: xs) simp_all

section \<open>The specification\<close>

text \<open>
  One byte, after the mapping of carriage returns. The terminal settings are read from \<open>c\<close>
  and do not change; \<open>None\<close> means that the byte is not accepted.
\<close>

definition spec_edit :: "terminal_core \<Rightarrow> u8 \<Rightarrow> line_state \<Rightarrow> line_state option" where
  "spec_edit c v ls =
     (let fits = (\<lambda>text. length (ls_output ls) + length text \<le> queue_capacity)
      in if local_flag c lflag_ixten \<and> v = control_char c verase
         then if ls_line ls = [] then Some ls
              else if fits (erase_text c)
              then Some (ls\<lparr>ls_line := butlast (ls_line ls), ls_output := ls_output ls @ erase_text c\<rparr>) else None
         else if local_flag c lflag_ixten \<and> v = control_char c vkill
         then if fits (kill_text c)
              then Some (ls\<lparr>ls_line := [], ls_output := ls_output ls @ kill_text c\<rparr>) else None
         else if ls_line ls = [] \<and> v = control_char c veof
         then if length (ls_records ls) < queue_capacity
              then Some (ls\<lparr>ls_records := ls_records ls @ [[]]\<rparr>) else None
         else if length (ls_line ls) < queue_capacity \<and> fits (echo_text c v)
         then if v \<noteq> char_nl
              then Some (ls\<lparr>ls_line := ls_line ls @ [v], ls_output := ls_output ls @ echo_text c v\<rparr>)
              else if length (concat (ls_records ls)) + length (ls_line ls) < queue_capacity \<and>
                      length (ls_records ls) < queue_capacity
              then Some (ls\<lparr>ls_line := [], ls_records := ls_records ls @ [ls_line ls @ [v]],
                            ls_output := ls_output ls @ echo_text c v\<rparr>)
              else None
         else None)"

text \<open>A whole byte: mapping, flow control, control characters, editing.\<close>

definition spec_byte :: "terminal_core \<Rightarrow> u8 \<Rightarrow> line_state \<Rightarrow> byte_flow \<times> line_state" where
  "spec_byte c byte ls =
     (case translate_input c byte of
        None \<Rightarrow> (Next, ls)
      | Some v \<Rightarrow>
          if input_flag c iflag_ixon \<and> v = control_char c vstop then (Next, ls\<lparr>ls_paused := True\<rparr>)
          else if input_flag c iflag_ixon \<and> v = control_char c vstart then (Next, ls\<lparr>ls_paused := False\<rparr>)
          else let ls1 = (if input_flag c iflag_ixon \<and> input_flag c iflag_ixany then ls\<lparr>ls_paused := False\<rparr> else ls)
               in if is_control_byte v c
                  then (Next, if local_flag c lflag_noflsh then ls1
                              else ls1\<lparr>ls_line := [], ls_records := [], ls_output := []\<rparr>)
                  else case spec_edit c v ls1 of None \<Rightarrow> (Blocked, ls1) | Some ls2 \<Rightarrow> (Next, ls2))"

section \<open>Commits\<close>

lemma pending_line_update:
  assumes "tc_inv c" "canonical_size c < queue_capacity"
  shows "pending_line (c\<lparr>canonical_line := (canonical_line c)[canonical_size c := v],
            canonical_size := canonical_size c + 1\<rparr>) = pending_line c @ [v]"
  using assms by (simp add: pending_line_def tc_inv_def take_Suc_conv_app_nth)

lemma enqueue_input_line_ok:
  assumes "tc_inv c" "framed c" "0 < canonical_size c"
    "length (input_bytes c) + canonical_size c \<le> queue_capacity" "length (record_sizes c) < queue_capacity"
  obtains n c' where "enqueue_input_line c = (n, c')" "n \<noteq> 0" "tc_inv c'" "framed c'"
    "abs_lines c' = (abs_lines c)\<lparr>ls_line := [], ls_records := ls_records (abs_lines c) @ [pending_line c]\<rparr>"
    "tc_termios c' = tc_termios c"
proof -
  let ?l = "take (canonical_size c) (canonical_line c)"
  have len: "length ?l = canonical_size c" using assms(1) by (simp add: tc_inv_def)
  obtain r where r: "push_line ?l 0 (input_ring c) = (canonical_size c, r)" "ring_ok r"
      "ring_list r = input_bytes c @ ?l"
    using push_line_ok [OF tc_inv_rings(1) [OF assms(1)], of ?l 0] assms(4) unfolding len by auto
  let ?c1 = "c\<lparr>input_ring := r\<rparr>"
  have rs1: "record_sizes ?c1 = record_sizes c" by (simp add: record_sizes_def)
  have cap: "canonical_size c \<le> queue_capacity" using assms(1) by (simp add: tc_inv_def)
  have n1: "length (record_sizes ?c1) < queue_capacity" using assms(5) by simp
  obtain c2 where c2: "enqueue_input_record (canonical_size c) ?c1 = (True, c2)" "tc_inv c2"
      "record_sizes c2 = record_sizes ?c1 @ [canonical_size c]"
      "c2 = ?c1\<lparr>input_record_sizes := input_record_sizes c2, input_record_count := input_record_count c2\<rparr>"
    using enqueue_input_record_ok [OF tc_inv_input [OF assms(1) r(2)] cap n1] .
  obtain g where g: "g \<noteq> 0" "bump_generation (c2\<lparr>canonical_size := 0\<rparr>) = c2\<lparr>canonical_size := 0\<rparr>\<lparr>generation := g\<rparr>"
    using bump_generation_eq by blast
  let ?c = "c2\<lparr>canonical_size := 0\<rparr>\<lparr>generation := g\<rparr>"
  have fields: "input_ring c2 = r" "output_ring c2 = output_ring c" "output_paused c2 = output_paused c"
      "tc_termios c2 = tc_termios c" by (subst c2(4), simp)+
  have rs: "record_sizes ?c = record_sizes c @ [canonical_size c]" using c2(3) rs1 by (simp add: record_sizes_def)
  have eq: "enqueue_input_line c = (canonical_size c, ?c)"
    using assms(4,5) r(1) c2(1) g(2) by (auto simp: enqueue_input_line_def ring_observers)
  have "framed ?c" using assms(2) len by (simp add: framed_def rs fields r(3) del: length_ring_list)
  moreover have "abs_lines ?c = (abs_lines c)\<lparr>ls_line := [], ls_records := ls_records (abs_lines c) @ [pending_line c]\<rparr>"
    using cut_append [OF assms(2) [unfolded framed_def], of "canonical_size c" ?l] len
    by (simp add: abs_lines_def rs fields r(3) pending_line_def)
  moreover have "tc_inv ?c" by (intro tc_inv_flags tc_inv_line c2(2) g(1)) simp
  ultimately show ?thesis using that [OF eq] assms(3) fields(4) by simp
qed

section \<open>Editing\<close>

lemma abs_lines_emits:
  assumes "emits c vs c'"
  shows "abs_lines c' = (abs_lines c)\<lparr>ls_output := output_bytes c @ vs\<rparr>" "framed c' = framed c"
  by (simp_all add: abs_lines_def framed_def emits_fields [OF assms])

lemma abs_lines_bump [simp]:
  "abs_lines (bump_generation c) = abs_lines c" "framed (bump_generation c) = framed c"
  "tc_termios (bump_generation c) = tc_termios c"
  by (auto simp: bump_generation_def Let_def abs_lines_def framed_def record_sizes_def pending_line_def)

lemma flags_cong:
  assumes "tc_termios c' = tc_termios c"
  shows "input_flag c' = input_flag c" "output_flag c' = output_flag c" "local_flag c' = local_flag c"
    "control_char c' = control_char c" "echo_text c' = echo_text c" "erase_text c' = erase_text c"
    "kill_text c' = kill_text c" "spec_edit c' = spec_edit c" "is_canonical c' = is_canonical c"
    "is_control_byte v c' = is_control_byte v c"
proof -
  show flags: "input_flag c' = input_flag c" "output_flag c' = output_flag c" "local_flag c' = local_flag c"
      "control_char c' = control_char c"
    using assms by (auto simp: input_flag_def output_flag_def local_flag_def control_char_def)
  show texts: "echo_text c' = echo_text c" "erase_text c' = erase_text c" "kill_text c' = kill_text c"
    by (auto simp: echo_text_def erase_text_def kill_text_def flags)
  show "spec_edit c' = spec_edit c" by (intro ext) (simp only: spec_edit_def flags texts)
  show "is_canonical c' = is_canonical c" "is_control_byte v c' = is_control_byte v c"
    by (simp_all add: is_canonical_def is_control_byte_def flags)
qed

lemma abs_lines_size:
  assumes "tc_inv c"
  shows "abs_lines (c\<lparr>canonical_size := 0\<rparr>) = (abs_lines c)\<lparr>ls_line := []\<rparr>"
    "abs_lines (c\<lparr>canonical_size := canonical_size c - 1\<rparr>) = (abs_lines c)\<lparr>ls_line := butlast (pending_line c)\<rparr>"
    "framed (c\<lparr>canonical_size := n\<rparr>) = framed c"
  using assms
  by (simp_all add: abs_lines_def framed_def pending_line_def record_sizes_def tc_inv_def butlast_take)

text \<open>The settings stay; \<open>edit_ok\<close> is what one byte of input must achieve.\<close>

definition edit_ok :: "terminal_core \<Rightarrow> line_state option \<Rightarrow> byte_flow \<times> terminal_core \<Rightarrow> bool" where
  "edit_ok c spec res \<longleftrightarrow>
     (case spec of
        None \<Rightarrow> res = (Blocked, c)
      | Some ls \<Rightarrow> fst res = Next \<and> abs_lines (snd res) = ls \<and> tc_inv (snd res) \<and> framed (snd res) \<and>
          tc_termios (snd res) = tc_termios c)"

lemma edit_erase:
  assumes "tc_inv c" "framed c" "local_flag c lflag_ixten" "v = control_char c verase"
  shows "edit_ok c (spec_edit c v (abs_lines c)) (canonical_byte v c)"
proof -
  let ?c = "c\<lparr>canonical_size := canonical_size c - 1\<rparr>"
  have empty: "pending_line c = [] \<longleftrightarrow> canonical_size c = 0"
    using length_pending_line [OF assms(1)] by auto
  have inv: "tc_inv ?c" using assms(1) by (intro tc_inv_line) (auto simp: tc_inv_def)
  have txt_eq: "erase_text ?c = erase_text c" by (rule flags_cong) simp
  show ?thesis
  proof (cases "canonical_size c = 0 \<or> length (output_bytes c) + length (erase_text c) > queue_capacity")
    case True
    then show ?thesis using assms empty
      by (auto simp: edit_ok_def spec_edit_def canonical_byte_def echo_sizes free_space_less tc_inv_rings abs_lines_def)
  next
    case False
    then have e: "emits ?c (erase_text c) (snd (echo_erase ?c))" using echo_erase_ok [OF inv] txt_eq by simp
    have "tc_inv (snd (echo_erase ?c))" by (rule emits_inv [OF inv e])
    moreover have "canonical_byte v c = (Next, snd (echo_erase ?c))"
      using assms False by (simp add: canonical_byte_def echo_sizes free_space_less tc_inv_rings)
    moreover have "spec_edit c v (abs_lines c) =
        Some ((abs_lines c)\<lparr>ls_line := butlast (pending_line c), ls_output := output_bytes c @ erase_text c\<rparr>)"
      using assms False empty by (simp add: spec_edit_def abs_lines_def)
    ultimately show ?thesis
      using abs_lines_emits [OF e] abs_lines_size [OF assms(1)] assms(2) emits_fields(7) [OF e] by (simp add: edit_ok_def)
  qed
qed

lemma edit_kill:
  assumes "tc_inv c" "framed c" "local_flag c lflag_ixten" "v = control_char c vkill" "v \<noteq> control_char c verase"
  shows "edit_ok c (spec_edit c v (abs_lines c)) (canonical_byte v c)"
proof -
  let ?c = "c\<lparr>canonical_size := 0\<rparr>"
  have inv: "tc_inv ?c" using assms(1) by (intro tc_inv_line) auto
  have txt_eq: "kill_text ?c = kill_text c" by (rule flags_cong) simp
  show ?thesis
  proof (cases "length (output_bytes c) + length (kill_text c) > queue_capacity")
    case True
    then show ?thesis using assms
      by (auto simp: edit_ok_def spec_edit_def canonical_byte_def echo_sizes free_space_less tc_inv_rings abs_lines_def)
  next
    case False
    then have e: "emits ?c (kill_text c) (snd (echo_kill ?c))" using echo_kill_ok [OF inv] txt_eq by simp
    have "tc_inv (snd (echo_kill ?c))" by (rule emits_inv [OF inv e])
    moreover have "canonical_byte v c = (Next, snd (echo_kill ?c))"
      using assms False by (simp add: canonical_byte_def echo_sizes free_space_less tc_inv_rings)
    moreover have "spec_edit c v (abs_lines c) =
        Some ((abs_lines c)\<lparr>ls_line := [], ls_output := output_bytes c @ kill_text c\<rparr>)"
      using assms False by (simp add: spec_edit_def abs_lines_def)
    ultimately show ?thesis
      using abs_lines_emits [OF e] abs_lines_size [OF assms(1)] assms(2) emits_fields(7) [OF e] by (simp add: edit_ok_def)
  qed
qed

lemma edit_eof:
  assumes "tc_inv c" "framed c" "\<not> (local_flag c lflag_ixten \<and> (v = control_char c verase \<or> v = control_char c vkill))"
    "canonical_size c = 0" "v = control_char c veof"
  shows "edit_ok c (spec_edit c v (abs_lines c)) (canonical_byte v c)"
proof -
  have line: "pending_line c = []" using assms(4) by (simp add: pending_line_def)
  have skip: "(local_flag c lflag_ixten \<and> v = control_char c verase) = False"
      "(local_flag c lflag_ixten \<and> v = control_char c vkill) = False"
      "(canonical_size c = 0 \<and> v = control_char c veof) = True"
      "(ls_line (abs_lines c) = [] \<and> v = control_char c veof) = True"
    using assms(3-5) line by (auto simp: abs_lines_def)
  have code: "canonical_byte v c =
      (let (ok, c1) = enqueue_input_record 0 c in if \<not> ok then (Blocked, c1) else (Next, bump_generation c1))"
    unfolding canonical_byte_def skip if_False if_True Let_def by (rule refl)
  have spec: "spec_edit c v (abs_lines c) =
      (if length (record_sizes c) < queue_capacity
       then Some ((abs_lines c)\<lparr>ls_records := ls_records (abs_lines c) @ [[]]\<rparr>) else None)"
    unfolding spec_edit_def skip if_False if_True Let_def by (simp add: abs_lines_def)
  show ?thesis
  proof (cases "length (record_sizes c) < queue_capacity")
    case True
    obtain c1 where c1: "enqueue_input_record 0 c = (True, c1)" "tc_inv c1" "record_sizes c1 = record_sizes c @ [0]"
        "c1 = c\<lparr>input_record_sizes := input_record_sizes c1, input_record_count := input_record_count c1\<rparr>"
      using enqueue_input_record_ok [OF assms(1) _ True, of 0] by auto
    have f: "input_ring c1 = input_ring c" "output_ring c1 = output_ring c" "output_paused c1 = output_paused c"
        "tc_termios c1 = tc_termios c" "pending_line c1 = pending_line c" by (subst c1(4), simp add: pending_line_def)+
    have "abs_lines c1 = (abs_lines c)\<lparr>ls_records := ls_records (abs_lines c) @ [[]]\<rparr>"
      using cut_append [OF assms(2) [unfolded framed_def], of 0 "[]"] by (simp add: abs_lines_def c1(3) f)
    moreover have "framed c1" using assms(2) by (simp add: framed_def c1(3) f)
    ultimately show ?thesis using True c1(1,2) f(4) by (simp add: code spec edit_ok_def bump_inv)
  next
    case False
    then have "input_record_count c = queue_capacity" using assms(1) by (simp add: tc_inv_def)
    then show ?thesis by (simp add: code spec edit_ok_def enqueue_input_record_def)
  qed
qed

text \<open>An ordinary byte: it is stored and echoed, and a newline commits the line.\<close>

lemma store_byte:
  assumes "tc_inv c" "canonical_size c < queue_capacity"
    "length (output_bytes c) + length (echo_text c v) \<le> queue_capacity"
  defines "c1 \<equiv> c\<lparr>canonical_line := (canonical_line c)[canonical_size c := v], canonical_size := canonical_size c + 1\<rparr>"
  shows "tc_inv (snd (echo_byte v c1))" "framed (snd (echo_byte v c1)) = framed c"
    "abs_lines (snd (echo_byte v c1)) =
       (abs_lines c)\<lparr>ls_line := pending_line c @ [v], ls_output := output_bytes c @ echo_text c v\<rparr>"
    "tc_termios (snd (echo_byte v c1)) = tc_termios c" "canonical_size (snd (echo_byte v c1)) = canonical_size c + 1"
    "input_ring (snd (echo_byte v c1)) = input_ring c" "record_sizes (snd (echo_byte v c1)) = record_sizes c"
    "pending_line (snd (echo_byte v c1)) = pending_line c @ [v]"
proof -
  have inv: "tc_inv c1" unfolding c1_def using assms(1,2) by (intro tc_inv_line) (auto simp: tc_inv_def)
  have t: "tc_termios c1 = tc_termios c" "output_ring c1 = output_ring c" by (simp_all add: c1_def)
  have line: "pending_line c1 = pending_line c @ [v]" unfolding c1_def by (rule pending_line_update [OF assms(1,2)])
  have e: "emits c1 (echo_text c v) (snd (echo_byte v c1))"
    using echo_byte_ok [OF inv, of v] assms(3) flags_cong(5) [OF t(1)] t(2) by simp
  have abs1: "abs_lines c1 = (abs_lines c)\<lparr>ls_line := pending_line c @ [v]\<rparr>" "framed c1 = framed c"
      "record_sizes c1 = record_sizes c"
    using line by (simp_all add: abs_lines_def framed_def record_sizes_def c1_def)
  show "tc_inv (snd (echo_byte v c1))" by (rule emits_inv [OF inv e])
  show "framed (snd (echo_byte v c1)) = framed c" using abs_lines_emits(2) [OF e] abs1(2) by simp
  show "abs_lines (snd (echo_byte v c1)) =
       (abs_lines c)\<lparr>ls_line := pending_line c @ [v], ls_output := output_bytes c @ echo_text c v\<rparr>"
    using abs_lines_emits(1) [OF e] abs1(1) t(2) by simp
  show "tc_termios (snd (echo_byte v c1)) = tc_termios c" "canonical_size (snd (echo_byte v c1)) = canonical_size c + 1"
    "input_ring (snd (echo_byte v c1)) = input_ring c" "record_sizes (snd (echo_byte v c1)) = record_sizes c"
    "pending_line (snd (echo_byte v c1)) = pending_line c @ [v]"
    using emits_fields [OF e] t(1) line abs1(3) by (simp_all add: c1_def)
qed

text \<open>The specification and the code for such a byte, with the earlier cases of both gone.\<close>

definition store_fits :: "terminal_core \<Rightarrow> u8 \<Rightarrow> bool" where
  "store_fits c v \<longleftrightarrow>
     canonical_size c < queue_capacity \<and> length (output_bytes c) + length (echo_text c v) \<le> queue_capacity \<and>
     (v = char_nl \<longrightarrow> length (input_bytes c) + canonical_size c < queue_capacity \<and>
        length (record_sizes c) < queue_capacity)"

lemma spec_store:
  assumes "tc_inv c" "framed c" "\<not> (local_flag c lflag_ixten \<and> (v = control_char c verase \<or> v = control_char c vkill))"
    "\<not> (canonical_size c = 0 \<and> v = control_char c veof)"
  shows "spec_edit c v (abs_lines c) =
    (if \<not> store_fits c v then None
     else if v \<noteq> char_nl
     then Some ((abs_lines c)\<lparr>ls_line := pending_line c @ [v], ls_output := output_bytes c @ echo_text c v\<rparr>)
     else Some ((abs_lines c)\<lparr>ls_line := [], ls_records := ls_records (abs_lines c) @ [pending_line c @ [v]],
                  ls_output := output_bytes c @ echo_text c v\<rparr>))"
proof -
  have len: "length (pending_line c) = canonical_size c" by (rule length_pending_line [OF assms(1)])
  then have "pending_line c = [] \<longleftrightarrow> canonical_size c = 0" by auto
  moreover have "length (concat (ls_records (abs_lines c))) = length (input_bytes c)"
    using assms(2) concat_cut [of "record_sizes c" "input_bytes c"] by (simp add: framed_def abs_lines_def)
  moreover have "ls_line (abs_lines c) = pending_line c" "ls_output (abs_lines c) = output_bytes c"
      "length (ls_records (abs_lines c)) = length (record_sizes c)" by (simp_all add: abs_lines_def)
  moreover have skip: "(local_flag c lflag_ixten \<and> v = control_char c verase) = False"
      "(local_flag c lflag_ixten \<and> v = control_char c vkill) = False"
      "(ls_line (abs_lines c) = [] \<and> v = control_char c veof) = False" using assms(3,4) calculation by auto
  ultimately show ?thesis using len unfolding spec_edit_def Let_def store_fits_def skip if_False by auto
qed

lemma canonical_store:
  assumes "tc_inv c" "\<not> (local_flag c lflag_ixten \<and> (v = control_char c verase \<or> v = control_char c vkill))"
    "\<not> (canonical_size c = 0 \<and> v = control_char c veof)"
  shows "canonical_byte v c =
    (if \<not> store_fits c v then (Blocked, c)
     else let c2 = snd (echo_byte v (c\<lparr>canonical_line := (canonical_line c)[canonical_size c := v],
                         canonical_size := canonical_size c + 1\<rparr>))
          in if v = char_nl
             then let (n, c3) = enqueue_input_line c2 in if n = 0 then (Blocked, c3) else (Next, c3)
             else (Next, c2))"
proof -
  have skip: "(local_flag c lflag_ixten \<and> v = control_char c verase) = False"
      "(local_flag c lflag_ixten \<and> v = control_char c vkill) = False"
      "(canonical_size c = 0 \<and> v = control_char c veof) = False" using assms(2,3) by auto
  have cap: "input_record_count c \<le> queue_capacity" using assms(1) by (simp add: tc_inv_def)
  have full: "canonical_size c + 1 > tty_ring_free_space (input_ring c) \<longleftrightarrow>
      \<not> length (input_bytes c) + canonical_size c < queue_capacity"
    unfolding free_space_less [OF tc_inv_rings(1) [OF assms(1)]] by auto
  show ?thesis
  proof (cases "store_fits c v")
    case True
    then have 1: "canonical_size c < queue_capacity" "length (output_bytes c) + length (echo_text c v) \<le> queue_capacity"
      "v = char_nl \<longrightarrow> length (input_bytes c) + canonical_size c < queue_capacity \<and> input_record_count c < queue_capacity"
      by (simp_all add: store_fits_def)
    have fits: "(canonical_size c \<ge> queue_capacity) = False" using 1(1) by simp
    have echo: "(tty_ring_free_space (output_ring c) < echo_byte_size v c) = False"
      unfolding free_space_less [OF tc_inv_rings(2) [OF assms(1)]] echo_sizes using 1(2) by simp
    have commit: "(v = char_nl \<and> (canonical_size c + 1 > tty_ring_free_space (input_ring c) \<or>
        input_record_count c = queue_capacity)) = False"
      unfolding full using 1(3) by (metis less_irrefl)
    show ?thesis using True unfolding canonical_byte_def skip if_False Let_def fits echo commit by simp
  next
    case False
    then have "canonical_size c \<ge> queue_capacity \<or> tty_ring_free_space (output_ring c) < echo_byte_size v c \<or>
      (v = char_nl \<and> (canonical_size c + 1 > tty_ring_free_space (input_ring c) \<or> input_record_count c = queue_capacity))"
      unfolding full free_space_less [OF tc_inv_rings(2) [OF assms(1)]] echo_sizes store_fits_def
      using cap by (metis length_record_sizes not_le le_neq_implies_less)
    then have "canonical_byte v c = (Blocked, c)" unfolding canonical_byte_def skip if_False Let_def by presburger
    with False show ?thesis by simp
  qed
qed

lemma edit_store:
  assumes "tc_inv c" "framed c" "\<not> (local_flag c lflag_ixten \<and> (v = control_char c verase \<or> v = control_char c vkill))"
    "\<not> (canonical_size c = 0 \<and> v = control_char c veof)"
  shows "edit_ok c (spec_edit c v (abs_lines c)) (canonical_byte v c)"
proof (cases "store_fits c v")
  case False
  then show ?thesis by (simp add: spec_store [OF assms] canonical_store [OF assms(1,3,4)] edit_ok_def)
next
  case True
  then have room: "canonical_size c < queue_capacity" "length (output_bytes c) + length (echo_text c v) \<le> queue_capacity"
    by (simp_all add: store_fits_def)
  let ?c2 = "snd (echo_byte v (c\<lparr>canonical_line := (canonical_line c)[canonical_size c := v],
    canonical_size := canonical_size c + 1\<rparr>))"
  note store = store_byte [OF assms(1) room]
  show ?thesis
  proof (cases "v = char_nl")
    case False
    then show ?thesis using True store assms(2)
      by (simp add: spec_store [OF assms] canonical_store [OF assms(1,3,4)] edit_ok_def)
  next
    case nl: True
    have 1: "length (input_bytes ?c2) + canonical_size ?c2 \<le> queue_capacity" "0 < canonical_size ?c2"
      "length (record_sizes ?c2) < queue_capacity" using True nl unfolding store(5-7) store_fits_def by simp_all
    obtain n c3 where c3: "enqueue_input_line ?c2 = (n, c3)" "n \<noteq> 0" "tc_inv c3" "framed c3"
        "abs_lines c3 = (abs_lines ?c2)\<lparr>ls_line := [], ls_records := ls_records (abs_lines ?c2) @ [pending_line ?c2]\<rparr>"
        "tc_termios c3 = tc_termios ?c2"
      using enqueue_input_line_ok [OF store(1) _ 1(2,1,3)] store(2) assms(2) by blast
    have "canonical_byte v c = (Next, c3)" unfolding canonical_store [OF assms(1,3,4)] using True nl c3(1,2) by simp
    moreover have "abs_lines c3 = (abs_lines c)\<lparr>ls_line := [], ls_records := ls_records (abs_lines c) @ [pending_line c @ [v]],
        ls_output := output_bytes c @ echo_text c v\<rparr>" using c3(5) store(3,8) by simp
    ultimately show ?thesis unfolding spec_store [OF assms] using True nl c3(3,4,6) store(4) by (simp add: edit_ok_def)
  qed
qed

lemma canonical_byte_refines:
  assumes "tc_inv c" "framed c"
  shows "edit_ok c (spec_edit c v (abs_lines c)) (canonical_byte v c)"
proof -
  consider "local_flag c lflag_ixten" "v = control_char c verase"
    | "local_flag c lflag_ixten" "v = control_char c vkill" "v \<noteq> control_char c verase"
    | "\<not> (local_flag c lflag_ixten \<and> (v = control_char c verase \<or> v = control_char c vkill))" by blast
  then show ?thesis
    by cases (use edit_erase [OF assms] edit_kill [OF assms] edit_eof [OF assms] edit_store [OF assms] in metis)+
qed

section \<open>A whole byte\<close>

lemma flow_control_ok:
  assumes "tc_inv c" "framed c" "flow_control v c = (stop, c1)"
  shows "tc_inv c1" "framed c1" "tc_termios c1 = tc_termios c"
    "stop \<longleftrightarrow> input_flag c iflag_ixon \<and> (v = control_char c vstop \<or> v = control_char c vstart)"
    "abs_lines c1 = (abs_lines c)\<lparr>ls_paused :=
       (if input_flag c iflag_ixon \<and> v = control_char c vstop then True
        else if input_flag c iflag_ixon \<and> (v = control_char c vstart \<or> input_flag c iflag_ixany) then False
        else output_paused c)\<rparr>"
proof -
  have p: "tc_inv (c\<lparr>output_paused := b\<rparr>)" "framed (c\<lparr>output_paused := b\<rparr>)"
      "abs_lines (c\<lparr>output_paused := b\<rparr>) = (abs_lines c)\<lparr>ls_paused := b\<rparr>" for b
    using assms(1,2) by (simp_all add: tc_inv_flags framed_def abs_lines_def record_sizes_def pending_line_def)
  have q: "(abs_lines c)\<lparr>ls_paused := output_paused c\<rparr> = abs_lines c" by (simp add: abs_lines_def)
  show "tc_inv c1" "framed c1" "tc_termios c1 = tc_termios c"
    using assms p(1,2) by (auto simp: flow_control_def bump_inv split: if_splits)
  show "stop \<longleftrightarrow> input_flag c iflag_ixon \<and> (v = control_char c vstop \<or> v = control_char c vstart)"
    using assms(3) by (auto simp: flow_control_def split: if_splits)
  show "abs_lines c1 = (abs_lines c)\<lparr>ls_paused :=
       (if input_flag c iflag_ixon \<and> v = control_char c vstop then True
        else if input_flag c iflag_ixon \<and> (v = control_char c vstart \<or> input_flag c iflag_ixany) then False
        else output_paused c)\<rparr>"
    using assms(3) p(3) q by (auto simp: flow_control_def split: if_splits)
qed

lemma handle_control_event_eq:
  "handle_control_event v c = c\<lparr>tc_calls := tc_calls (handle_control_event v c)\<rparr>"
  by (simp add: handle_control_event_def Let_def split: option.split)

lemma control_byte_ok:
  assumes "tc_inv c" "framed c"
  shows "tc_inv (control_byte v c)" "framed (control_byte v c)" "tc_termios (control_byte v c) = tc_termios c"
    "abs_lines (control_byte v c) =
       (if local_flag c lflag_noflsh then abs_lines c
        else (abs_lines c)\<lparr>ls_line := [], ls_records := [], ls_output := []\<rparr>)"
proof -
  obtain cs where cs: "handle_control_event v c = c\<lparr>tc_calls := cs\<rparr>" using handle_control_event_eq by metis
  let ?c = "c\<lparr>tc_calls := cs\<rparr>"
  have 1: "tc_inv ?c" "framed ?c" "abs_lines ?c = abs_lines c" "local_flag ?c = local_flag c"
    using assms by (auto simp: tc_inv_flags framed_def abs_lines_def record_sizes_def pending_line_def local_flag_def)
  let ?d = "clear_input_records (?c\<lparr>input_ring := tty_ring_clear (input_ring ?c), canonical_size := 0\<rparr>)"
  let ?e = "?d\<lparr>eof_count := 0, output_ring := tty_ring_clear (output_ring ?d)\<rparr>"
  have e: "tc_inv ?e" "framed ?e" "abs_lines ?e = (abs_lines c)\<lparr>ls_line := [], ls_records := [], ls_output := []\<rparr>"
      "tc_termios ?e = tc_termios c"
    using assms(1) by (simp_all add: tc_inv_def clear_input_records_def record_sizes_def framed_def abs_lines_def pending_line_def)
  have eq: "control_byte v c = (if local_flag c lflag_noflsh then ?c else bump_generation ?e)"
    unfolding control_byte_def cs Let_def 1(4) by simp
  show "tc_inv (control_byte v c)" "framed (control_byte v c)" "tc_termios (control_byte v c) = tc_termios c"
    "abs_lines (control_byte v c) =
       (if local_flag c lflag_noflsh then abs_lines c
        else (abs_lines c)\<lparr>ls_line := [], ls_records := [], ls_output := []\<rparr>)"
    unfolding eq using 1 e by (simp_all add: bump_inv)
qed

definition byte_ok :: "terminal_core \<Rightarrow> byte_flow \<times> line_state \<Rightarrow> byte_flow \<times> terminal_core \<Rightarrow> bool" where
  "byte_ok c spec res \<longleftrightarrow>
     fst res = fst spec \<and> abs_lines (snd res) = snd spec \<and> tc_inv (snd res) \<and> framed (snd res) \<and>
     tc_termios (snd res) = tc_termios c"

lemma receive_byte_refines:
  assumes "tc_inv c" "framed c" "is_canonical c"
  shows "byte_ok c (spec_byte c byte (abs_lines c)) (receive_byte byte c)"
proof (cases "translate_input c byte")
  case None
  with assms show ?thesis by (simp add: byte_ok_def spec_byte_def receive_byte_def)
next
  case (Some v)
  obtain stop c1 where fc: "flow_control v c = (stop, c1)" by force
  note f = flow_control_ok [OF assms(1,2) fc]
  note same = flags_cong [OF f(3)]
  have paused: "ls_paused (abs_lines c) = output_paused c" by (simp add: abs_lines_def)
  show ?thesis
  proof (cases stop)
    case True
    with f show ?thesis by (auto simp: byte_ok_def spec_byte_def receive_byte_def Some fc)
  next
    case False
    with f(4) have skip: "(input_flag c iflag_ixon \<and> v = control_char c vstop) = False"
        "(input_flag c iflag_ixon \<and> v = control_char c vstart) = False" by blast+
    define ls1 where "ls1 = (if input_flag c iflag_ixon \<and> input_flag c iflag_ixany
      then (abs_lines c)\<lparr>ls_paused := False\<rparr> else abs_lines c)"
    have abs1: "abs_lines c1 = ls1" unfolding f(5) ls1_def using skip paused by auto
    have spec: "spec_byte c byte (abs_lines c) =
      (if is_control_byte v c then (Next, if local_flag c lflag_noflsh then ls1
          else ls1\<lparr>ls_line := [], ls_records := [], ls_output := []\<rparr>)
       else case spec_edit c v ls1 of None \<Rightarrow> (Blocked, ls1) | Some ls2 \<Rightarrow> (Next, ls2))"
      unfolding spec_byte_def Some option.case skip if_False Let_def ls1_def by simp
    have code: "receive_byte byte c =
      (if is_control_byte v c then (Next, control_byte v c1) else canonical_byte v c1)"
      using False assms(3) by (simp add: receive_byte_def Some fc same)
    show ?thesis
    proof (cases "is_control_byte v c")
      case True
      then show ?thesis using control_byte_ok [OF f(1,2), of v] f(3) abs1 by (simp add: spec code byte_ok_def same)
    next
      case False
      have "edit_ok c1 (spec_edit c v ls1) (canonical_byte v c1)"
        using canonical_byte_refines [OF f(1,2), of v] abs1 same by simp
      then show ?thesis using False abs1 f(1-3) by (auto simp: spec code byte_ok_def edit_ok_def split: option.splits)
    qed
  qed
qed

end
