(* ===== verification/Terminal_Ops.thy ===== *)
theory Terminal_Ops
  imports Terminal_Lines
begin

text \<open>
  All operations of a terminal: every one of them keeps the invariant, whatever the mode, so
  the invariant holds in every state a terminal can reach (\<open>tty_run\<close>). The readers and
  writers are described on the lists of \<open>Terminal_Inv\<close>, and the readers of canonical mode
  on the committed lines.
\<close>

datatype tty_op =
    Op_receive bool "u8 list" bool bool
  | Op_read bool nat bool bool bool
  | Op_write bool "u8 list" bool bool
  | Op_read_output bool nat bool bool
  | Op_flush int
  | Op_eof
  | Op_shutdown
  | Op_hangup_master
  | Op_hangup_slave
  | Op_open_master
  | Op_open_slave
  | Op_flow u64
  | Op_termios termios
  | Op_winsize winsize
  | Op_handler "nat option" nat
  | Op_notify

fun tty_step :: "tty_op \<Rightarrow> terminal_core \<Rightarrow> terminal_core" where
  "tty_step (Op_receive dn data nb cn) c = snd (snd (receive_input dn data nb cn c))"
| "tty_step (Op_read dn n nb rn te) c = snd (snd (snd (read_input dn n nb rn te c)))"
| "tty_step (Op_write dn data nb wn) c = snd (snd (write_output dn data nb wn c))"
| "tty_step (Op_read_output dn n nb rn) c = snd (snd (snd (read_output dn n nb rn c)))"
| "tty_step (Op_flush q) c = snd (tty_flush q c)"
| "tty_step Op_eof c = send_eof c"
| "tty_step Op_shutdown c = shutdown_input c"
| "tty_step Op_hangup_master c = hangup_master c"
| "tty_step Op_hangup_slave c = hangup_slave c"
| "tty_step Op_open_master c = open_master c"
| "tty_step Op_open_slave c = open_slave c"
| "tty_step (Op_flow a) c = snd (set_flow a c)"
| "tty_step (Op_termios t) c = snd (set_termios t c)"
| "tty_step (Op_winsize z) c = set_winsize z c"
| "tty_step (Op_handler h p) c = set_control_event_handler h p c"
| "tty_step Op_notify c = notify_external_change c"

text \<open>The array of a \<^verbatim>\<open>termios\<close> value has 32 elements.\<close>

fun tty_op_ok :: "tty_op \<Rightarrow> bool" where
  "tty_op_ok (Op_termios t) \<longleftrightarrow> length (control_chars t) = 32"
| "tty_op_ok _ \<longleftrightarrow> True"

fun tty_run :: "tty_op list \<Rightarrow> terminal_core \<Rightarrow> terminal_core" where
  "tty_run [] c = c"
| "tty_run (x # xs) c = tty_run xs (tty_step x c)"

section \<open>The invariant is kept\<close>

lemma push_line_inv: "ring_ok r \<Longrightarrow> ring_ok (snd (push_line vs n r))"
proof (induction vs arbitrary: n r)
  case (Cons v vs)
  then have "ring_ok (snd (tty_ring_push v r))" by (simp add: tty_ring_push_inv)
  with Cons.IH show ?case by (simp add: split_beta)
qed simp

lemma pop_bytes_inv: "ring_ok r \<Longrightarrow> ring_ok (snd (pop_bytes n r))"
  by (metis pop_bytes_ok snd_conv)

lemma try_enqueue_inv: "tc_inv c \<Longrightarrow> tc_inv (snd (try_enqueue_output_byte v c))"
  using tty_ring_push_inv [of "output_ring c" v] tc_inv_rings(2) [of c]
  by (auto simp: try_enqueue_output_byte_def split_beta intro!: bump_inv tc_inv_output)

lemma echo_inv:
  "tc_inv c \<Longrightarrow> tc_inv (snd (echo_byte v c))" "tc_inv c \<Longrightarrow> tc_inv (snd (echo_erase c))"
  "tc_inv c \<Longrightarrow> tc_inv (snd (echo_kill c))"
  by (simp_all add: echo_byte_def echo_erase_def echo_kill_def Let_def try_enqueue_inv)

lemma enqueue_input_line_inv: "tc_inv c \<Longrightarrow> tc_inv (snd (enqueue_input_line c))"
  using push_line_inv [of "input_ring c" "take (canonical_size c) (canonical_line c)" 0] tc_inv_rings(1) [of c]
  by (auto simp: enqueue_input_line_def Let_def split_beta
      intro!: bump_inv tc_inv_line tc_inv_input enqueue_input_record_inv)

lemma clear_input_inv:
  assumes "tc_inv c"
  shows "tc_inv (clear_input_records (c\<lparr>input_ring := tty_ring_clear (input_ring c), canonical_size := 0\<rparr>))"
proof -
  have "tc_inv (c\<lparr>input_ring := tty_ring_clear (input_ring c)\<rparr>)"
    using assms tc_inv_rings(1) [OF assms] by (intro tc_inv_input) simp_all
  then show ?thesis using tc_inv_line(2) [of "c\<lparr>input_ring := tty_ring_clear (input_ring c)\<rparr>" 0]
    by (simp add: clear_input_records_inv)
qed

lemma clear_output_inv: "tc_inv c \<Longrightarrow> tc_inv (c\<lparr>output_ring := tty_ring_clear (output_ring c)\<rparr>)"
  using tc_inv_rings(2) [of c] by (intro tc_inv_output) simp_all

lemma control_byte_inv: "tc_inv c \<Longrightarrow> tc_inv (control_byte v c)"
proof -
  assume inv: "tc_inv c"
  let ?c = "handle_control_event v c"
  have 1: "tc_inv ?c" by (subst handle_control_event_eq) (rule tc_inv_flags [OF inv])
  let ?d = "clear_input_records (?c\<lparr>input_ring := tty_ring_clear (input_ring ?c), canonical_size := 0\<rparr>)"
  have "tc_inv (?d\<lparr>eof_count := 0\<rparr>)" by (rule tc_inv_flags [OF clear_input_inv [OF 1]])
  from clear_output_inv [OF this] show ?thesis using 1 by (simp add: control_byte_def Let_def bump_inv)
qed

lemma flow_control_inv: "tc_inv c \<Longrightarrow> tc_inv (snd (flow_control v c))"
  by (simp add: flow_control_def bump_inv tc_inv_flags)

lemma store_inv:
  assumes "tc_inv c" "canonical_size c < queue_capacity"
  shows "tc_inv (c\<lparr>canonical_line := (canonical_line c)[canonical_size c := v], canonical_size := canonical_size c + 1\<rparr>)"
  using assms by (intro tc_inv_line) (auto simp: tc_inv_def)

lemma if_snd: "(b \<Longrightarrow> tc_inv (snd x)) \<Longrightarrow> (\<not> b \<Longrightarrow> tc_inv (snd y)) \<Longrightarrow> tc_inv (snd (if b then x else y))"
  by simp

lemma canonical_byte_inv:
  assumes "tc_inv c"
  shows "tc_inv (snd (canonical_byte v c))"
proof -
  have n: "canonical_size c \<le> queue_capacity" using assms by (simp add: tc_inv_def)
  have 1: "tc_inv (snd (echo_erase (c\<lparr>canonical_size := canonical_size c - 1\<rparr>)))"
      "tc_inv (snd (echo_kill (c\<lparr>canonical_size := 0\<rparr>)))" "tc_inv (snd (enqueue_input_record 0 c))"
    using assms n by (auto intro!: echo_inv tc_inv_line enqueue_input_record_inv)
  let ?c1 = "\<lambda>v. c\<lparr>canonical_line := (canonical_line c)[canonical_size c := v], canonical_size := canonical_size c + 1\<rparr>"
  have 2: "tc_inv (snd (echo_byte v (?c1 v)))" "tc_inv (snd (enqueue_input_line (snd (echo_byte v (?c1 v)))))"
    if "\<not> canonical_size c \<ge> queue_capacity" for v
    using that store_inv [OF assms, of v] by (auto intro!: echo_inv enqueue_input_line_inv)
  show ?thesis unfolding canonical_byte_def Let_def split_beta
    by (intro if_snd; unfold snd_conv; rule assms 1 2 bump_inv [OF 1(3)]; assumption)
qed

lemma raw_byte_inv: "tc_inv c \<Longrightarrow> tc_inv (snd (raw_byte v c))"
  using tty_ring_push_inv [of "input_ring c" v] tc_inv_rings(1) [of c]
  by (auto simp: raw_byte_def Let_def intro!: bump_inv echo_inv tc_inv_input)

lemma receive_byte_inv: "tc_inv c \<Longrightarrow> tc_inv (snd (receive_byte v c))"
  by (auto simp: receive_byte_def split_beta split: option.split
      intro!: flow_control_inv control_byte_inv canonical_byte_inv raw_byte_inv)

lemma receive_loop_inv: "tc_inv c \<Longrightarrow> tc_inv (snd (snd (receive_loop bs nb n c)))"
proof (induction bs nb n c rule: receive_loop.induct)
  case (2 b bs nb n c)
  obtain flow c' where f: "receive_byte b c = (flow, c')" by force
  then have "tc_inv c'" using receive_byte_inv [OF "2.prems", of b] by simp
  with f "2.IH" show ?case by (cases flow) auto
qed simp

lemma write_loop_inv: "tc_inv c \<Longrightarrow> tc_inv (snd (snd (write_loop bs nb n c)))"
  by (induction bs nb n c rule: write_loop.induct) (simp_all add: Let_def try_enqueue_inv)

lemma read_canonical_record_inv:
  assumes "tc_inv c"
  shows "tc_inv (snd (read_canonical_record n c))"
proof (cases "input_record_count c = 0")
  case False
  define h where "h = input_record_head c"
  define rem where "rem = input_record_sizes c ! h"
  define rem' where "rem' = (word_of_nat (unat rem - min (unat rem) n) :: u16)"
  let ?c = "c\<lparr>input_ring := snd (pop_bytes (min (unat rem) n) (input_ring c)),
              input_record_sizes := (input_record_sizes c)[h := rem']\<rparr>"
  let ?L = "ring_contents (input_record_sizes c) h (input_record_count c)"
  have inv: "length (input_record_sizes c) = queue_capacity" "h < queue_capacity" "input_record_count c \<le> queue_capacity"
      "\<forall>i \<in> set (record_sizes c). i \<le> queue_capacity" using assms by (simp_all add: tc_inv_def h_def)
  have hd: "rem = hd ?L" using inv False by (simp add: rem_def ring_contents_hd)
  have mem: "unat rem \<in> set (record_sizes c)" using hd False
    by (metis h_def hd_in_set image_eqI length_0_conv length_ring_contents list.set_map record_sizes_def)
  then have small: "unat rem \<le> queue_capacity" using inv(4) by blast
  have le: "unat rem' \<le> queue_capacity" unfolding rem'_def using small by (subst unat_record_size) auto
  have upd: "ring_contents ((input_record_sizes c)[h := rem']) h (input_record_count c) = ?L[0 := rem']"
    using ring_update [OF inv(1) _ inv(3), of 0 h rem'] inv(2) False by simp
  have sub: "\<forall>i \<in> set (map unat (?L[0 := rem'])). i \<le> queue_capacity"
    using inv(4) le set_update_subset_insert [of ?L 0 rem'] by (auto simp: record_sizes_def h_def)
  have ring: "ring_ok (snd (pop_bytes (min (unat rem) n) (input_ring c)))"
    by (rule pop_bytes_inv [OF tc_inv_rings(1) [OF assms]])
  have c1: "tc_inv ?c" using assms ring sub upd by (simp add: tc_inv_def record_sizes_def h_def)
  have tl: "ring_contents ((input_record_sizes c)[h := rem']) (Suc h mod queue_capacity) (input_record_count c - 1)
      = tl (?L[0 := rem'])"
    using ring_pop [of "(input_record_sizes c)[h := rem']" queue_capacity h "input_record_count c"] inv(1) upd by simp
  have c2: "tc_inv (?c\<lparr>input_record_head := (h + 1) mod queue_capacity, input_record_count := input_record_count c - 1\<rparr>)"
  proof -
    have "\<forall>i \<in> set (map unat (tl (?L[0 := rem']))). i \<le> queue_capacity"
      using sub False by (cases "?L[0 := rem']") auto
    with c1 tl inv(3) show ?thesis by (simp add: tc_inv_def record_sizes_def)
  qed
  show ?thesis using False c1 c2
    unfolding read_canonical_record_def Let_def split_beta h_def [symmetric] rem_def [symmetric] rem'_def [symmetric]
    by (auto intro!: bump_inv)
qed (simp add: read_canonical_record_def assms)

lemma read_input_inv:
  assumes "tc_inv c"
  shows "tc_inv (snd (snd (snd (read_input dn n nb rn te c))))"
proof -
  obtain res c' where rc: "(if is_canonical c then read_canonical_record n c else (None, c)) = (res, c')" by force
  have c': "tc_inv c'"
    using assms read_canonical_record_inv [OF assms, of n] rc by (cases "is_canonical c") auto
  have "ring_ok (snd (pop_bytes n (input_ring c')))" by (rule pop_bytes_inv [OF tc_inv_rings(1) [OF c']])
  then have "tc_inv (c'\<lparr>input_ring := snd (pop_bytes n (input_ring c'))\<rparr>)" by (rule tc_inv_input [OF c'])
  with assms c' show ?thesis
    by (simp add: read_input_def rc Let_def split_beta bump_inv tc_inv_flags split: option.split)
qed

lemma read_output_inv:
  assumes "tc_inv c"
  shows "tc_inv (snd (snd (snd (read_output dn n nb rn c))))"
proof -
  have "ring_ok (snd (pop_bytes n (output_ring c)))" by (rule pop_bytes_inv [OF tc_inv_rings(2) [OF assms]])
  then have "tc_inv (c\<lparr>output_ring := snd (pop_bytes n (output_ring c))\<rparr>)" by (rule tc_inv_output [OF assms])
  with assms show ?thesis by (simp add: read_output_def Let_def split_beta bump_inv)
qed

lemma tty_flush_inv:
  assumes "tc_inv c"
  shows "tc_inv (snd (tty_flush q c))"
proof -
  let ?d = "(clear_input_records (c\<lparr>input_ring := tty_ring_clear (input_ring c), canonical_size := 0\<rparr>))\<lparr>eof_count := 0\<rparr>"
  have "tc_inv ?d" by (rule tc_inv_flags [OF clear_input_inv [OF assms]])
  with clear_output_inv [OF this] clear_output_inv [OF assms] assms show ?thesis
    by (simp add: tty_flush_def Let_def bump_inv)
qed

lemma set_termios_inv:
  assumes "tc_inv c" "length (control_chars t) = 32"
  shows "tc_inv (snd (set_termios t c))"
  using tc_inv_flags(2) [OF tc_inv_flags(9) [OF assms]] tc_inv_flags(9) [OF assms] assms(1)
  by (simp add: set_termios_def Let_def bump_inv)

lemma tty_step_inv:
  assumes "tc_inv c" "tty_op_ok op"
  shows "tc_inv (tty_step op c)"
proof (cases op)
  case (Op_receive dn data nb cn)
  with assms receive_loop_inv [OF assms(1)] show ?thesis by (simp add: receive_input_def)
next
  case (Op_write dn data nb wn)
  with assms write_loop_inv [OF assms(1)] show ?thesis by (simp add: write_output_def)
next
  case (Op_eof)
  have "tc_inv (snd (enqueue_input_record 0 c))" by (rule enqueue_input_record_inv [OF assms(1)])
  with assms Op_eof show ?thesis by (simp add: send_eof_def split_beta bump_inv tc_inv_flags)
qed (use assms in \<open>simp_all add: read_input_inv read_output_inv tty_flush_inv set_termios_inv shutdown_input_def
  hangup_master_def hangup_slave_def open_master_def open_slave_def set_flow_def set_winsize_def Let_def
  set_control_event_handler_def notify_external_change_def bump_inv tc_inv_flags\<close>)

lemma tty_run_inv: "tc_inv c \<Longrightarrow> \<forall>op \<in> set ops. tty_op_ok op \<Longrightarrow> tc_inv (tty_run ops c)"
  by (induction ops arbitrary: c) (simp_all add: tty_step_inv)

section \<open>Reading committed lines\<close>

text \<open>The reader of canonical mode takes at most \<open>n\<close> bytes of the oldest line; an empty line is an end of file.\<close>

fun spec_read :: "nat \<Rightarrow> u8 list list \<Rightarrow> u8 list \<times> u8 list list" where
  "spec_read n [] = ([], [])"
| "spec_read n (r # rs) = (take n r, if length r \<le> n then rs else drop n r # rs)"

lemma cut_head_drop:
  "n < m \<Longrightarrow> m \<le> length xs \<Longrightarrow> cut ((m - n) # ns) (drop n xs) = drop n (take m xs) # cut ns (drop m xs)"
  by (simp add: drop_take)

lemma record_sizes_head:
  assumes "tc_inv c" "record_sizes c = m # ms"
  shows "unat (input_record_sizes c ! input_record_head c) = m"
    "map unat (ring_contents (input_record_sizes c) (Suc (input_record_head c) mod queue_capacity) (input_record_count c - 1)) = ms"
    "k \<le> queue_capacity \<Longrightarrow> map unat (ring_contents ((input_record_sizes c)[input_record_head c := word_of_nat k])
       (input_record_head c) (input_record_count c)) = k # ms"
proof -
  let ?L = "ring_contents (input_record_sizes c) (input_record_head c) (input_record_count c)"
  have inv: "length (input_record_sizes c) = queue_capacity" "input_record_head c < queue_capacity"
      "input_record_count c \<le> queue_capacity" using assms(1) by (simp_all add: tc_inv_def)
  have pos: "0 < input_record_count c" using assms(2) by (metis length_record_sizes length_greater_0_conv list.distinct(1))
  have L: "map unat ?L = m # ms" using assms(2) by (simp add: record_sizes_def)
  have ne: "?L \<noteq> []" using pos by simp
  have "hd ?L = input_record_sizes c ! input_record_head c" using inv pos by (simp add: ring_contents_hd)
  with L ne show "unat (input_record_sizes c ! input_record_head c) = m" by (metis hd_map list.sel(1))
  show "map unat (ring_contents (input_record_sizes c) (Suc (input_record_head c) mod queue_capacity) (input_record_count c - 1)) = ms"
    using ring_pop [OF inv(1), of "input_record_head c" "input_record_count c"] L by (simp add: map_tl)
  show "map unat (ring_contents ((input_record_sizes c)[input_record_head c := word_of_nat k])
       (input_record_head c) (input_record_count c)) = k # ms" if "k \<le> queue_capacity"
    using ring_update [OF inv(1) pos inv(3), of "input_record_head c" "word_of_nat k"] inv(2) L unat_record_size [OF that]
    by (simp add: map_update)
qed

lemma read_canonical_record_ok:
  assumes "tc_inv c" "framed c" "ls_records (abs_lines c) = r # rs" "0 < n"
  obtains c' where "read_canonical_record n c = (Some (length (take n r), take n r), c')" "tc_inv c'" "framed c'"
    "abs_lines c' = (abs_lines c)\<lparr>ls_records := snd (spec_read n (r # rs))\<rparr>" "tc_termios c' = tc_termios c"
proof -
  obtain m ms where sizes: "record_sizes c = m # ms"
    using assms(3) by (cases "record_sizes c") (auto simp: abs_lines_def)
  have r: "r = take m (input_bytes c)" "rs = cut ms (drop m (input_bytes c))"
    using assms(3) by (simp_all add: abs_lines_def sizes)
  have sum: "m + sum_list ms = length (input_bytes c)" using assms(2) by (simp add: framed_def sizes)
  then have len: "length r = m" using r(1) by simp
  note head = record_sizes_head [OF assms(1) sizes]
  define k where "k = min m n"
  obtain q where q: "pop_bytes k (input_ring c) = (take k (input_bytes c), q)" "ring_ok q" "ring_list q = drop k (input_bytes c)"
    using pop_bytes_ok [OF tc_inv_rings(1) [OF assms(1)]] .
  have bytes: "take k (input_bytes c) = take n r" "k = length (take n r)" using r(1) len by (auto simp: k_def min_def)
  have mcap: "m \<le> queue_capacity" using assms(1) sizes by (simp add: tc_inv_def)
  let ?rem = "word_of_nat (m - k) :: u16"
  have rem: "unat ?rem = m - k" using mcap by (intro unat_record_size) simp
  then have zero: "?rem = 0 \<longleftrightarrow> m \<le> n" by (metis diff_is_0_eq k_def min.bounded_iff order_refl unat_eq_zero_iff)
  let ?c1 = "c\<lparr>input_ring := q, input_record_sizes := (input_record_sizes c)[input_record_head c := ?rem]\<rparr>"
  let ?c2 = "if ?rem = 0 then ?c1\<lparr>input_record_head := (input_record_head c + 1) mod queue_capacity,
      input_record_count := input_record_count c - 1\<rparr> else ?c1"
  have cnt: "input_record_count c \<noteq> 0" using sizes by (metis length_record_sizes length_0_conv list.distinct(1))
  have eq: "read_canonical_record n c = (Some (length (take n r), take n r), bump_generation ?c2)"
    unfolding read_canonical_record_def Let_def head(1) k_def [symmetric] q(1) bytes(1) prod.case
    using cnt bytes(2) by simp
  have inv: "tc_inv (bump_generation ?c2)" using read_canonical_record_inv [OF assms(1), of n] eq by simp
  have sizes2: "record_sizes ?c2 = (if m \<le> n then ms else (m - n) # ms)"
  proof (cases "m \<le> n")
    case True
    have "ring_contents ((input_record_sizes c)[input_record_head c := ?rem]) (Suc (input_record_head c) mod queue_capacity)
        (input_record_count c - 1) = tl (ring_contents ((input_record_sizes c)[input_record_head c := ?rem])
          (input_record_head c) (input_record_count c))"
      using ring_pop [of "(input_record_sizes c)[input_record_head c := ?rem]" queue_capacity] assms(1) by (simp add: tc_inv_def)
    with True zero head(3) [of "m - k"] mcap show ?thesis by (simp add: record_sizes_def map_tl)
  next
    case False
    with zero head(3) [of "m - k"] mcap show ?thesis by (simp add: record_sizes_def k_def)
  qed
  have in2: "input_bytes ?c2 = drop k (input_bytes c)" using q(3) by simp
  have "framed ?c2" unfolding framed_def sizes2 in2 using sum by (auto simp: k_def min_def)
  moreover have "abs_lines ?c2 = (abs_lines c)\<lparr>ls_records := snd (spec_read n (r # rs))\<rparr>"
  proof -
    have "cut (record_sizes ?c2) (input_bytes ?c2) = snd (spec_read n (r # rs))"
      unfolding sizes2 in2 using r len sum cut_head_drop [of n m "input_bytes c" ms] by (simp add: k_def)
    moreover have "pending_line ?c2 = pending_line c" "output_ring ?c2 = output_ring c" "output_paused ?c2 = output_paused c"
      by (simp_all add: pending_line_def)
    ultimately show ?thesis by (simp only: abs_lines_def) simp
  qed
  ultimately show ?thesis using that [OF eq inv] by simp
qed

end
