(* ===== verification/Terminal_Props.thy ===== *)
theory Terminal_Props
  imports Terminal_Ops
begin

text \<open>
  Whole transfers and the properties of the terminal: input in canonical mode refines the
  line specification, a typed line is read back, output is transformed and delivered in
  order, the readiness masks agree with what the calls do, and two ways in which they do not.
\<close>

section \<open>Input\<close>

fun spec_loop :: "terminal_core \<Rightarrow> u8 list \<Rightarrow> nat \<Rightarrow> line_state \<Rightarrow> nat \<times> line_state" where
  "spec_loop c [] n ls = (n, ls)"
| "spec_loop c (b # bs) n ls =
     (case spec_byte c b ls of
        (Next, ls') \<Rightarrow> spec_loop c bs (n + 1) ls'
      | (Blocked, ls') \<Rightarrow> (n, ls'))"

lemma translate_cong:
  assumes "tc_termios c' = tc_termios c"
  shows "translate_input c' = translate_input c"
  by (intro ext) (simp only: translate_input_def flags_cong [OF assms])

lemma spec_byte_cong:
  assumes "tc_termios c' = tc_termios c"
  shows "spec_byte c' = spec_byte c"
  by (intro ext) (simp only: spec_byte_def translate_cong [OF assms] flags_cong [OF assms])

lemma spec_loop_cong:
  assumes "tc_termios c' = tc_termios c"
  shows "spec_loop c' bs n ls = spec_loop c bs n ls"
  by (induction bs arbitrary: n ls)
    (auto simp: spec_byte_cong [OF assms] split: prod.split byte_flow.split)

lemma receive_loop_refines:
  assumes "tc_inv c" "framed c" "is_canonical c" "receive_loop bs nb n c = (res, k, c')"
  shows "(k, abs_lines c') = spec_loop c bs n (abs_lines c)" "tc_inv c'" "framed c'" "tc_termios c' = tc_termios c"
    "res = (if k = n + length bs then Inr (cast_int k) else blocked_result nb k)" "k \<le> n + length bs" "n \<le> k"
proof -
  have "(k, abs_lines c') = spec_loop c bs n (abs_lines c) \<and> tc_inv c' \<and> framed c' \<and> tc_termios c' = tc_termios c \<and>
    res = (if k = n + length bs then Inr (cast_int k) else blocked_result nb k) \<and> k \<le> n + length bs \<and> n \<le> k"
    using assms
  proof (induction bs nb n c rule: receive_loop.induct)
    case (2 b bs nb n c)
    obtain flow c1 where rb: "receive_byte b c = (flow, c1)" by force
    obtain flow' ls1 where sb: "spec_byte c b (abs_lines c) = (flow', ls1)" by force
    have ok: "flow' = flow" "abs_lines c1 = ls1" "tc_inv c1" "framed c1" "tc_termios c1 = tc_termios c"
      using receive_byte_refines [OF "2.prems"(1-3), of b] rb sb by (simp_all add: byte_ok_def)
    show ?case
    proof (cases flow)
      case Next
      have "is_canonical c1" using "2.prems"(3) flags_cong(9) [OF ok(5)] by simp
      with "2.IH" [OF rb [symmetric] Next ok(3,4)] "2.prems"(4) Next rb
      have "(k, abs_lines c') = spec_loop c1 bs (n + 1) (abs_lines c1) \<and> tc_inv c' \<and> framed c' \<and>
        tc_termios c' = tc_termios c1 \<and> res = (if k = n + 1 + length bs then Inr (cast_int k) else blocked_result nb k) \<and>
        k \<le> n + 1 + length bs \<and> n + 1 \<le> k" by simp
      then show ?thesis using Next ok(1,2,5) sb spec_loop_cong [OF ok(5)] by simp
    next
      case Blocked
      with "2.prems"(4) rb have "res = blocked_result nb n" "k = n" "c' = c1" by auto
      with Blocked ok sb show ?thesis by simp
    qed
  qed auto
  then show "(k, abs_lines c') = spec_loop c bs n (abs_lines c)" "tc_inv c'" "framed c'" "tc_termios c' = tc_termios c"
    "res = (if k = n + length bs then Inr (cast_int k) else blocked_result nb k)" "k \<le> n + length bs" "n \<le> k" by simp_all
qed

text \<open>Bytes without a special meaning.\<close>

definition edits :: "terminal_core \<Rightarrow> u8 \<Rightarrow> bool" where
  "edits c v \<longleftrightarrow>
     translate_input c v \<noteq> Some v \<or> (input_flag c iflag_ixon \<and> (v = control_char c vstop \<or> v = control_char c vstart)) \<or>
     is_control_byte v c \<or> (local_flag c lflag_ixten \<and> (v = control_char c verase \<or> v = control_char c vkill)) \<or>
     v = control_char c veof"

text \<open>The flow control state after such bytes.\<close>

definition resumed :: "terminal_core \<Rightarrow> line_state \<Rightarrow> line_state" where
  "resumed c ls = (if input_flag c iflag_ixon \<and> input_flag c iflag_ixany then ls\<lparr>ls_paused := False\<rparr> else ls)"

lemma resumed_simps [simp]:
  "ls_line (resumed c ls) = ls_line ls" "ls_records (resumed c ls) = ls_records ls" "ls_output (resumed c ls) = ls_output ls"
  "resumed c (resumed c ls) = resumed c ls" "resumed c (ls\<lparr>ls_line := l\<rparr>) = (resumed c ls)\<lparr>ls_line := l\<rparr>"
  "resumed c (ls\<lparr>ls_output := l\<rparr>) = (resumed c ls)\<lparr>ls_output := l\<rparr>"
  by (simp_all add: resumed_def)

lemma spec_byte_plain:
  assumes "\<not> edits c v"
  shows "spec_byte c v ls =
    (case spec_edit c v (resumed c ls) of None \<Rightarrow> (Blocked, resumed c ls) | Some ls2 \<Rightarrow> (Next, ls2))"
proof -
  have t: "translate_input c v = Some v" using assms by (simp add: edits_def)
  have skip: "(input_flag c iflag_ixon \<and> v = control_char c vstop) = False"
      "(input_flag c iflag_ixon \<and> v = control_char c vstart) = False" "is_control_byte v c = False"
    using assms by (auto simp: edits_def)
  show ?thesis unfolding spec_byte_def t option.case skip if_False Let_def resumed_def by (rule refl)
qed

lemma spec_edit_plain:
  assumes "\<not> edits c v" "length (ls_line ls) < queue_capacity"
    "length (ls_output ls) + length (echo_text c v) \<le> queue_capacity"
  shows "v \<noteq> char_nl \<Longrightarrow> spec_edit c v ls =
      Some (ls\<lparr>ls_line := ls_line ls @ [v], ls_output := ls_output ls @ echo_text c v\<rparr>)"
    "v = char_nl \<Longrightarrow> length (concat (ls_records ls)) + length (ls_line ls) < queue_capacity \<Longrightarrow>
      length (ls_records ls) < queue_capacity \<Longrightarrow> spec_edit c v ls =
      Some (ls\<lparr>ls_line := [], ls_records := ls_records ls @ [ls_line ls @ [v]], ls_output := ls_output ls @ echo_text c v\<rparr>)"
proof -
  have skip: "(local_flag c lflag_ixten \<and> v = control_char c verase) = False"
      "(local_flag c lflag_ixten \<and> v = control_char c vkill) = False"
      "(ls_line ls = [] \<and> v = control_char c veof) = False" using assms(1) by (auto simp: edits_def)
  show "v \<noteq> char_nl \<Longrightarrow> spec_edit c v ls =
      Some (ls\<lparr>ls_line := ls_line ls @ [v], ls_output := ls_output ls @ echo_text c v\<rparr>)"
    unfolding spec_edit_def Let_def skip if_False using assms(2,3) by simp
  show "v = char_nl \<Longrightarrow> length (concat (ls_records ls)) + length (ls_line ls) < queue_capacity \<Longrightarrow>
      length (ls_records ls) < queue_capacity \<Longrightarrow> spec_edit c v ls =
      Some (ls\<lparr>ls_line := [], ls_records := ls_records ls @ [ls_line ls @ [v]], ls_output := ls_output ls @ echo_text c v\<rparr>)"
    unfolding spec_edit_def Let_def skip if_False using assms(2,3) by simp
qed

lemma echo_text_length: "length (echo_text c v) \<le> 2" "v \<noteq> char_nl \<Longrightarrow> length (echo_text c v) \<le> 1"
  by (simp_all add: echo_text_def)

lemma spec_loop_plain:
  assumes "\<forall>v \<in> set bs. \<not> edits c v \<and> v \<noteq> char_nl" "length (ls_line ls) + length bs \<le> queue_capacity"
    "length (ls_output ls) + length (concat (map (echo_text c) bs)) \<le> queue_capacity"
  shows "\<exists>ls'. ls_line ls' = ls_line ls @ bs \<and> ls_records ls' = ls_records ls \<and>
    ls_output ls' = ls_output ls @ concat (map (echo_text c) bs) \<and>
    spec_loop c (bs @ rest) n ls = spec_loop c rest (n + length bs) ls'"
  using assms
proof (induction bs arbitrary: n ls)
  case (Cons v bs)
  let ?ls = "(resumed c ls)\<lparr>ls_line := ls_line ls @ [v], ls_output := ls_output ls @ echo_text c v\<rparr>"
  have v: "\<not> edits c v" "v \<noteq> char_nl" using Cons.prems(1) by simp_all
  have "spec_edit c v (resumed c ls) = Some ?ls"
    using spec_edit_plain(1) [OF v(1), of "resumed c ls"] v(2) Cons.prems(2,3) by simp
  then have "spec_byte c v ls = (Next, ?ls)" by (simp add: spec_byte_plain [OF v(1)])
  moreover obtain ls' where "ls_line ls' = ls_line ?ls @ bs" "ls_records ls' = ls_records ?ls"
      "ls_output ls' = ls_output ?ls @ concat (map (echo_text c) bs)"
      "spec_loop c (bs @ rest) (n + 1) ?ls = spec_loop c rest (n + 1 + length bs) ls'"
    using Cons.IH [of ?ls "n + 1"] Cons.prems by auto
  ultimately show ?case by (intro exI [of _ ls']) simp
next
  case Nil
  show ?case by (rule exI [of _ ls]) simp
qed

lemma concat_echo_length:
  assumes "\<forall>v \<in> set bs. v \<noteq> char_nl"
  shows "length (concat (map (echo_text c) bs)) \<le> length bs"
  using assms
proof (induction bs)
  case (Cons v bs)
  then show ?case using echo_text_length(2) [of v c] by simp
qed simp

text \<open>A typed line: ordinary bytes and a newline.\<close>

lemma spec_loop_line:
  assumes "\<forall>v \<in> set bs. \<not> edits c v \<and> v \<noteq> char_nl" "\<not> edits c char_nl" "ls_line ls = []"
    "length (ls_output ls) + length bs + 2 \<le> queue_capacity" "length (concat (ls_records ls)) + length bs < queue_capacity"
    "length (ls_records ls) < queue_capacity"
  shows "\<exists>ls'. spec_loop c (bs @ [char_nl]) 0 ls = (length bs + 1, ls') \<and> ls_line ls' = [] \<and>
    ls_records ls' = ls_records ls @ [bs @ [char_nl]]"
proof -
  have e: "length (concat (map (echo_text c) bs)) \<le> length bs" using assms(1) by (intro concat_echo_length) simp
  obtain ls1 where ls1: "ls_line ls1 = bs" "ls_records ls1 = ls_records ls"
      "ls_output ls1 = ls_output ls @ concat (map (echo_text c) bs)"
      "spec_loop c (bs @ [char_nl]) 0 ls = spec_loop c [char_nl] (length bs) ls1"
    using spec_loop_plain [OF assms(1), of ls "[char_nl]" 0] assms(3-5) e by auto
  have "spec_edit c char_nl (resumed c ls1) = Some ((resumed c ls1)\<lparr>ls_line := [],
      ls_records := ls_records ls @ [bs @ [char_nl]], ls_output := ls_output ls1 @ echo_text c char_nl\<rparr>)"
    using spec_edit_plain(2) [OF assms(2), of "resumed c ls1"] ls1 assms(4-6) e echo_text_length(1) [of c char_nl] by simp
  then show ?thesis using ls1(4) by (simp add: spec_byte_plain [OF assms(2)])
qed

lemma cast_int_small: "n < 2 ^ 31 \<Longrightarrow> cast_int n = int n"
  by (simp add: cast_int_def signed_of_nat signed_take_bit_int_eq_self)

section \<open>Output\<close>

text \<open>What one byte of the slave becomes on the master side.\<close>

definition out_text :: "terminal_core \<Rightarrow> u8 \<Rightarrow> u8 list" where
  "out_text c v = (if translates_newline v c then [char_cr, v] else [v])"

lemma out_text_emits: "emits c vs c' \<Longrightarrow> out_text c' = out_text c"
  by (intro ext) (simp add: out_text_def translates_newline_def emits_fields)

lemma write_step:
  assumes "tc_inv c" "length (output_bytes c) + length (out_text c v) \<le> queue_capacity"
  shows "emits c (out_text c v) (snd (try_enqueue_output_byte v
    (if translates_newline v c then snd (try_enqueue_output_byte char_cr c) else c)))"
proof (cases "translates_newline v c")
  case True
  with assms(2) have e: "emits c [char_cr] (snd (try_enqueue_output_byte char_cr c))"
    by (intro try_enqueue_output_byte_ok [OF assms(1)]) (simp add: out_text_def)
  show ?thesis using try_enqueue_output_byte_next [OF assms(1) e, of v] True assms(2) by (simp add: out_text_def)
next
  case False
  with assms show ?thesis by (simp add: out_text_def try_enqueue_output_byte_ok)
qed

lemma write_loop_ok:
  assumes "tc_inv c" "write_loop bs nb n c = (res, k, c')"
  shows "n \<le> k" "k \<le> n + length bs" "emits c (concat (map (out_text c) (take (k - n) bs))) c'"
    "res = (if k = n + length bs then Inr (cast_int k) else blocked_result nb k)"
    "k < n + length bs \<Longrightarrow> queue_capacity < length (output_bytes c') + length (out_text c (bs ! (k - n)))"
proof -
  have "n \<le> k \<and> k \<le> n + length bs \<and> emits c (concat (map (out_text c) (take (k - n) bs))) c' \<and>
    res = (if k = n + length bs then Inr (cast_int k) else blocked_result nb k) \<and>
    (k < n + length bs \<longrightarrow> queue_capacity < length (output_bytes c') + length (out_text c (bs ! (k - n))))"
    using assms
  proof (induction bs nb n c rule: write_loop.induct)
    case (1 nb n c)
    then show ?case using emits_refl by auto
  next
    case (2 v bs nb n c)
    let ?c2 = "snd (try_enqueue_output_byte v
      (if translates_newline v c then snd (try_enqueue_output_byte char_cr c) else c))"
    have req: "(if translates_newline v c then 2 else 1) = length (out_text c v)" by (simp add: out_text_def)
    note free = free_space_less [OF tc_inv_rings(2) [OF "2.prems"(1)], of "length (out_text c v)"]
    show ?case
    proof (cases "queue_capacity < length (output_bytes c) + length (out_text c v)")
      case True
      then have "write_loop (v # bs) nb n c = (blocked_result nb n, n, c)"
        by (simp only: write_loop.simps Let_def req free if_True)
      with "2.prems" True emits_refl show ?thesis by auto
    next
      case False
      then have eq: "write_loop (v # bs) nb n c = write_loop bs nb (n + 1) ?c2"
        by (simp only: write_loop.simps Let_def req free if_False)
      have e: "emits c (out_text c v) ?c2" using False by (intro write_step [OF "2.prems"(1)]) simp
      have inv: "tc_inv ?c2" by (rule emits_inv [OF "2.prems"(1) e])
      have ih: "n + 1 \<le> k \<and> k \<le> n + 1 + length bs \<and> emits ?c2 (concat (map (out_text ?c2) (take (k - (n + 1)) bs))) c' \<and>
          res = (if k = n + 1 + length bs then Inr (cast_int k) else blocked_result nb k) \<and>
          (k < n + 1 + length bs \<longrightarrow>
            queue_capacity < length (output_bytes c') + length (out_text ?c2 (bs ! (k - (n + 1)))))"
        using "2.IH" [OF refl refl _ refl refl inv] "2.prems"(2) False eq req free by simp
      obtain j where j: "k - n = Suc j" "k - (n + 1) = j" using ih by (cases "k - n") auto
      with ih emits_trans [OF e] out_text_emits [OF e] show ?thesis by (auto simp: j)
    qed
  qed
  then show "n \<le> k" "k \<le> n + length bs" "emits c (concat (map (out_text c) (take (k - n) bs))) c'"
    "res = (if k = n + length bs then Inr (cast_int k) else blocked_result nb k)"
    "k < n + length bs \<Longrightarrow> queue_capacity < length (output_bytes c') + length (out_text c (bs ! (k - n)))" by simp_all
qed

lemma read_output_ok:
  assumes "tc_inv c" "output_bytes c \<noteq> []" "0 < n"
  obtains c' where "read_output False n nb False c =
      (Inr (cast_int (min n (length (output_bytes c)))), min n (length (output_bytes c)), take n (output_bytes c), c')"
    "output_bytes c' = drop n (output_bytes c)" "tc_inv c'"
proof -
  obtain q where q: "pop_bytes n (output_ring c) = (take n (output_bytes c), q)" "ring_ok q"
      "ring_list q = drop n (output_bytes c)"
    using pop_bytes_ok [OF tc_inv_rings(2) [OF assms(1)]] .
  let ?c = "bump_generation (c\<lparr>output_ring := q\<rparr>)"
  have "read_output False n nb False c =
      (Inr (cast_int (min n (length (output_bytes c)))), min n (length (output_bytes c)), take n (output_bytes c), ?c)"
    using assms(2,3) q(1) by (simp add: read_output_def ring_observers min.commute)
  moreover have "output_bytes ?c = drop n (output_bytes c)" using q(3) by (simp add: bump_generation_def Let_def)
  moreover have "tc_inv ?c" by (intro bump_inv tc_inv_output assms(1) q(2))
  ultimately show ?thesis using that by blast
qed

section \<open>Blocked bytes and readiness\<close>

lemma enqueue_input_line_size:
  assumes "tc_inv c" "length (input_bytes c) + canonical_size c \<le> queue_capacity" "length (record_sizes c) < queue_capacity"
  shows "fst (enqueue_input_line c) = canonical_size c"
proof -
  let ?l = "take (canonical_size c) (canonical_line c)"
  have len: "length ?l = canonical_size c" using assms(1) by (simp add: tc_inv_def)
  obtain r where r: "push_line ?l 0 (input_ring c) = (canonical_size c, r)" "ring_ok r"
    using push_line_ok [OF tc_inv_rings(1) [OF assms(1)], of ?l 0] assms(2) unfolding len by auto
  have "fst (enqueue_input_record (canonical_size c) (c\<lparr>input_ring := r\<rparr>))"
    using assms by (simp add: enqueue_input_record_def tc_inv_def)
  with r assms show ?thesis by (auto simp: enqueue_input_line_def ring_observers split_beta Let_def)
qed

lemma canonical_byte_blocked:
  assumes "tc_inv c" "canonical_byte v c = (Blocked, c')"
  shows "c' = c"
proof -
  consider (erase) "local_flag c lflag_ixten" "v = control_char c verase"
    | (kill) "local_flag c lflag_ixten" "v = control_char c vkill" "v \<noteq> control_char c verase"
    | (eof) "\<not> (local_flag c lflag_ixten \<and> (v = control_char c verase \<or> v = control_char c vkill))"
        "canonical_size c = 0" "v = control_char c veof"
    | (store) "\<not> (local_flag c lflag_ixten \<and> (v = control_char c verase \<or> v = control_char c vkill))"
        "\<not> (canonical_size c = 0 \<and> v = control_char c veof)" by metis
  then show ?thesis
  proof cases
    case erase
    then have hit: "(local_flag c lflag_ixten \<and> v = control_char c verase) = True" by simp
    show ?thesis using assms(2) unfolding canonical_byte_def Let_def hit if_True by (auto split: if_splits)
  next
    case kill
    then have hit: "(local_flag c lflag_ixten \<and> v = control_char c verase) = False"
      "(local_flag c lflag_ixten \<and> v = control_char c vkill) = True" by simp_all
    show ?thesis using assms(2) unfolding canonical_byte_def Let_def hit if_True if_False by (auto split: if_splits)
  next
    case eof
    have skip: "(local_flag c lflag_ixten \<and> v = control_char c verase) = False"
      "(local_flag c lflag_ixten \<and> v = control_char c vkill) = False"
      "(canonical_size c = 0 \<and> v = control_char c veof) = True" using eof by auto
    show ?thesis using assms(2) unfolding canonical_byte_def skip if_False if_True Let_def enqueue_input_record_def
      by (auto split: if_splits)
  next
    case store
    show ?thesis
    proof (cases "store_fits c v")
      case True
      then have room: "canonical_size c < queue_capacity" "length (output_bytes c) + length (echo_text c v) \<le> queue_capacity"
        by (simp_all add: store_fits_def)
      note st = store_byte [OF assms(1) room]
      let ?c2 = "snd (echo_byte v (c\<lparr>canonical_line := (canonical_line c)[canonical_size c := v],
        canonical_size := canonical_size c + 1\<rparr>))"
      have "fst (enqueue_input_line ?c2) = canonical_size ?c2" if "v = char_nl"
      proof (rule enqueue_input_line_size [OF st(1)])
        show "length (input_bytes ?c2) + canonical_size ?c2 \<le> queue_capacity" "length (record_sizes ?c2) < queue_capacity"
          unfolding st(5-7) using True that by (simp_all add: store_fits_def)
      qed
      then have "fst (enqueue_input_line ?c2) \<noteq> 0" if "v = char_nl" using that unfolding st(5) by simp
      then have "fst (canonical_byte v c) = Next" unfolding canonical_store [OF assms(1) store] Let_def split_beta
        using True by (cases "v = char_nl") simp_all
      with assms(2) show ?thesis by simp
    qed (use assms(2) canonical_store [OF assms(1) store] in simp)
  qed
qed

lemma flow_control_again:
  assumes "flow_control v c = (False, c1)"
  shows "flow_control v c1 = (False, c1)" "tc_termios c1 = tc_termios c" "input_ring c1 = input_ring c"
    "output_ring c1 = output_ring c"
proof -
  have b: "bump_generation c' = c'\<lparr>generation := generation (bump_generation c')\<rparr>" for c'
    by (simp add: bump_generation_def Let_def)
  have c1: "c1 = c \<or> (\<exists>g. c1 = c\<lparr>output_paused := False, generation := g\<rparr>)"
    using assms b [of "c\<lparr>output_paused := False\<rparr>"] by (auto simp: flow_control_def split: if_splits)
  then show t: "tc_termios c1 = tc_termios c" "input_ring c1 = input_ring c" "output_ring c1 = output_ring c" by auto
  show "flow_control v c1 = (False, c1)"
  proof (cases "c1 = c")
    case False
    then have "\<not> output_paused c1" using c1 by auto
    moreover have "\<not> (input_flag c iflag_ixon \<and> (v = control_char c vstop \<or> v = control_char c vstart))"
      using assms by (auto simp: flow_control_def split: if_splits)
    ultimately show ?thesis unfolding flow_control_def flags_cong [OF t(1)] by auto
  qed (use assms in simp)
qed

lemma receive_loop_mono: "n \<le> fst (snd (receive_loop bs nb n c))"
proof (induction bs nb n c rule: receive_loop.induct)
  case (2 b bs nb n c)
  obtain flow c' where "receive_byte b c = (flow, c')" by force
  with 2 show ?case by (cases flow) fastforce+
qed simp

lemma event_bits:
  "event_if b (tty_poll_error OR tty_poll_hangup) x AND tty_poll_readable = x AND tty_poll_readable"
  "event_if b (tty_poll_error OR tty_poll_hangup) x AND tty_poll_writable = x AND tty_poll_writable"
  "event_if b tty_poll_writable x AND tty_poll_readable = x AND tty_poll_readable"
  "event_if b tty_poll_readable 0 AND tty_poll_readable \<noteq> 0 \<longleftrightarrow> b"
  "event_if b tty_poll_writable (event_if d tty_poll_readable 0) AND tty_poll_writable \<noteq> 0 \<longleftrightarrow> b"
  by (simp_all add: event_if_def tty_poll_error_def tty_poll_hangup_def tty_poll_readable_def tty_poll_writable_def
      bit.conj_disj_distrib2)

section \<open>Properties\<close>

lemma new_facts:
  "tc_inv terminal_core_new" "framed terminal_core_new" "pending_line terminal_core_new = []"
  "record_sizes terminal_core_new = []" "input_bytes terminal_core_new = []" "output_bytes terminal_core_new = []"
  "is_canonical terminal_core_new" "\<not> slave_hung_up terminal_core_new" "\<not> master_hung_up terminal_core_new"
  "\<not> input_shutdown terminal_core_new" "\<not> output_paused terminal_core_new"
  "abs_lines terminal_core_new = \<lparr>ls_line = [], ls_records = [], ls_output = [], ls_paused = False\<rparr>"
proof -
  show 1: "pending_line terminal_core_new = []" "record_sizes terminal_core_new = []"
      "input_bytes terminal_core_new = []" "output_bytes terminal_core_new = []"
    by (simp_all add: pending_line_def record_sizes_def terminal_core_new_def)
  show "tc_inv terminal_core_new" by (rule terminal_core_new_inv)
  show "framed terminal_core_new" using 1 by (simp add: framed_def del: length_ring_list)
  show "is_canonical terminal_core_new"
    by (simp add: is_canonical_def local_flag_def terminal_core_new_def default_termios_def lflag_isig_def lflag_icanon_def
        lflag_echo_def lflag_echoe_def lflag_echok_def lflag_ixten_def)
  show "\<not> slave_hung_up terminal_core_new" "\<not> master_hung_up terminal_core_new"
    "\<not> input_shutdown terminal_core_new" "\<not> output_paused terminal_core_new" by (simp_all add: terminal_core_new_def)
  then show "abs_lines terminal_core_new = \<lparr>ls_line = [], ls_records = [], ls_output = [], ls_paused = False\<rparr>"
    using 1 by (simp add: abs_lines_def)
qed

lemmas tty_consts = lflag_isig_def lflag_icanon_def lflag_echo_def lflag_echoe_def lflag_echok_def lflag_ixten_def
  lflag_echonl_def lflag_noflsh_def lflag_tostop_def lflag_supported_def iflag_inlcr_def iflag_igncr_def iflag_icrnl_def
  iflag_ixon_def iflag_ixany_def iflag_supported_def oflag_opost_def oflag_onlcr_def oflag_supported_def
  cflag_cs8_def cflag_cread_def cflag_supported_def vintr_def vquit_def verase_def vkill_def veof_def vtime_def vmin_def
  vstart_def vstop_def vsusp_def default_intr_def default_quit_def default_erase_def default_kill_def default_eof_def
  default_start_def default_stop_def default_susp_def char_nl_def char_cr_def char_bs_def char_sp_def

text \<open>The settings of a fresh terminal give no special meaning to letters and the newline.\<close>

lemma default_chars:
  "default_control_chars = [3, 28, 127, 21, 4, 0, 1, 0, 17, 19, 26, 0, 0, 0, 0, 0, 0, 0, 0, 0, 0, 0, 0, 0, 0, 0, 0, 0, 0, 0, 0, 0]"
  by code_simp

lemma new_plain:
  "\<not> edits terminal_core_new 104" "\<not> edits terminal_core_new 105" "\<not> edits terminal_core_new char_nl"
  "(104 :: u8) \<noteq> char_nl" "(105 :: u8) \<noteq> char_nl"
  by (simp_all add: edits_def translate_input_def is_control_byte_def input_flag_def local_flag_def control_char_def
      terminal_core_new_def default_termios_def default_chars tty_consts)

text \<open>
  C29. Whatever sequence of operations a terminal sees, its indices stay inside its arrays, its
  sizes stay within the capacity, and its generation is never 0.
\<close>

theorem terminal_bounds:
  assumes "\<forall>op \<in> set ops. tty_op_ok op"
  shows "tc_inv (tty_run ops terminal_core_new)"
  using tty_run_inv [OF new_facts(1) assms] .

theorem terminal_bounds_witness:
  "tc_inv (tty_run [Op_receive False [104, 105, 10] True False, Op_read False 2 True False False, Op_eof,
     Op_termios (default_termios\<lparr>local_flags := 0\<rparr>), Op_receive False [104] True False] terminal_core_new)"
  by (rule terminal_bounds) (simp add: default_termios_def default_chars)

text \<open>
  C25. In canonical mode the input side refines the line specification: the bytes that are
  consumed, the line under editing, the committed lines, the echo and the flow control state
  after a call are those of \<open>spec_loop\<close>, and the result is the number of consumed bytes or
  \<^verbatim>\<open>EAGAIN\<close>.
\<close>

theorem receive_input_refines:
  assumes "tc_inv c" "framed c" "is_canonical c" "\<not> slave_hung_up c" "\<not> input_shutdown c" "data \<noteq> []"
    "receive_input False data nonblock False c = (res, k, c')"
  shows "(k, abs_lines c') = spec_loop c data 0 (abs_lines c) \<and> tc_inv c' \<and> framed c' \<and> tc_termios c' = tc_termios c \<and>
    res = (if k = length data then Inr (cast_int k) else blocked_result nonblock k)"
proof -
  have "receive_loop data nonblock 0 c = (res, k, c')" using assms(4-7) by (simp add: receive_input_def)
  from receive_loop_refines [OF assms(1-3) this] show ?thesis by simp
qed

theorem receive_input_refines_witness:
  "\<exists>res k c'. receive_input False [104, 105, char_nl] True False terminal_core_new = (res, k, c') \<and>
     (k, abs_lines c') = spec_loop terminal_core_new [104, 105, char_nl] 0 (abs_lines terminal_core_new)"
proof -
  obtain res k c' where "receive_input False [104, 105, char_nl] True False terminal_core_new = (res, k, c')"
    by (metis prod.collapse)
  with receive_input_refines [OF new_facts(1,2,7,8,10) _ this] show ?thesis by blast
qed


lemma typed_line:
  assumes "tc_inv c" "framed c" "is_canonical c" "\<not> slave_hung_up c" "\<not> input_shutdown c"
    "abs_lines c = ls" "ls_line ls = []" "ls_records ls = []"
    "\<forall>v \<in> set bs. \<not> edits c v \<and> v \<noteq> char_nl" "\<not> edits c char_nl" "length (ls_output ls) + length bs + 2 \<le> queue_capacity"
  shows "\<exists>c'. receive_input False (bs @ [char_nl]) nonblock False c = (Inr (int (length bs + 1)), length bs + 1, c') \<and>
    tc_inv c' \<and> framed c' \<and> tc_termios c' = tc_termios c \<and> ls_records (abs_lines c') = [bs @ [char_nl]]"
proof -
  obtain res k c' where rl: "receive_loop (bs @ [char_nl]) nonblock 0 c = (res, k, c')" by (metis prod.collapse)
  note ref = receive_loop_refines [OF assms(1-3) rl]
  obtain ls' where "spec_loop c (bs @ [char_nl]) 0 ls = (length bs + 1, ls')" "ls_records ls' = [bs @ [char_nl]]"
    using spec_loop_line [OF assms(9,10), of ls] assms(7,8,11) by auto
  then have 1: "k = length bs + 1" "ls_records (abs_lines c') = [bs @ [char_nl]]" using ref(1) assms(6) by auto
  have "length bs + 1 < 2 ^ 31" using assms(11) by (simp add: queue_capacity_def)
  then have "res = Inr (int (length bs + 1))" using ref(5) 1(1) cast_int_small by simp
  with rl 1 ref(2-4) assms(4,5) show ?thesis by (simp add: receive_input_def)
qed


text \<open>
  C27. A typed line is read back: on a terminal in canonical mode with nothing pending, a line of
  ordinary bytes and its newline are consumed by one call, and the next read returns exactly
  these bytes.
\<close>

theorem typed_line_is_read:
  assumes "tc_inv c" "framed c" "is_canonical c" "\<not> slave_hung_up c" "\<not> input_shutdown c"
    "pending_line c = []" "record_sizes c = []" "\<forall>v \<in> set bs. \<not> edits c v \<and> v \<noteq> char_nl" "\<not> edits c char_nl"
    "length (output_bytes c) + length bs + 2 \<le> queue_capacity" "length bs < n"
  shows "\<exists>c1 c2. receive_input False (bs @ [char_nl]) nonblock False c = (Inr (int (length bs + 1)), length bs + 1, c1) \<and>
    read_input False n nonblock' False timeout c1 = (Inr (int (length bs + 1)), length bs + 1, bs @ [char_nl], c2) \<and>
    ls_records (abs_lines c2) = []"
proof -
  have ls: "ls_line (abs_lines c) = []" "ls_records (abs_lines c) = []" "ls_output (abs_lines c) = output_bytes c"
    using assms(6,7) by (simp_all add: abs_lines_def)
  obtain c1 where c1: "receive_input False (bs @ [char_nl]) nonblock False c = (Inr (int (length bs + 1)), length bs + 1, c1)"
      "tc_inv c1" "framed c1" "tc_termios c1 = tc_termios c" "ls_records (abs_lines c1) = [bs @ [char_nl]]"
    using typed_line [OF assms(1-5) refl ls(1,2) assms(8,9)] assms(10) ls(3) by auto
  have can: "is_canonical c1" using flags_cong(9) [OF c1(4)] assms(3) by simp
  obtain c2 where c2: "read_canonical_record n c1 = (Some (length (bs @ [char_nl]), bs @ [char_nl]), c2)"
      "abs_lines c2 = (abs_lines c1)\<lparr>ls_records := []\<rparr>"
    using read_canonical_record_ok [OF c1(2,3,5), of n] assms(11) by auto
  have "length bs + 1 < 2 ^ 31" using assms(10) by (simp add: queue_capacity_def)
  then have "cast_int (length bs + 1) = int (length bs + 1)" by (rule cast_int_small)
  then have "read_input False n nonblock' False timeout c1 = (Inr (int (length bs + 1)), length bs + 1, bs @ [char_nl], c2)"
    using can c2(1) assms(11) by (simp add: read_input_def)
  with c1(1) c2(2) show ?thesis by auto
qed

theorem typed_line_is_read_witness:
  "\<exists>c1 c2. receive_input False ([104, 105] @ [char_nl]) True False terminal_core_new = (Inr (int (2 + 1)), 2 + 1, c1) \<and>
    read_input False 16 True False False c1 = (Inr (int (2 + 1)), 2 + 1, [104, 105] @ [char_nl], c2)"
  using typed_line_is_read [OF new_facts(1,2,7,8,10,3,4), of "[104, 105]" 16 True True False] new_plain
  by (auto simp: new_facts(6) queue_capacity_def)

text \<open>
  C28. Output reaches the master in order and transformed: the accepted prefix of the data is
  appended byte by byte, a newline as the two bytes carriage return and newline that are never
  separated by a full queue; the prefix is the longest that fits; and a reader gets the oldest
  bytes and leaves the others.
\<close>

theorem output_stream:
  assumes "tc_inv c" "\<not> master_hung_up c" "\<not> output_paused c" "data \<noteq> []"
    "write_output False data nonblock False c = (res, k, c')" "0 < n" "output_bytes c' \<noteq> []"
  shows "output_bytes c' = output_bytes c @ concat (map (out_text c) (take k data)) \<and> k \<le> length data \<and>
    (k < length data \<longrightarrow> queue_capacity < length (output_bytes c') + length (out_text c (data ! k))) \<and>
    res = (if k = length data then Inr (cast_int k) else blocked_result nonblock k) \<and>
    (\<exists>res' c''. read_output False n nonblock' False c' = (res', min n (length (output_bytes c')), take n (output_bytes c'), c'') \<and>
      output_bytes c'' = drop n (output_bytes c'))"
proof -
  have "write_loop data nonblock 0 c = (res, k, c')" using assms(2-5) by (simp add: write_output_def)
  note w = write_loop_ok [OF assms(1) this]
  have "tc_inv c'" by (rule emits_inv [OF assms(1) w(3)])
  from read_output_ok [OF this assms(7,6), of nonblock'] obtain c'' where
    "read_output False n nonblock' False c' = (Inr (cast_int (min n (length (output_bytes c')))),
       min n (length (output_bytes c')), take n (output_bytes c'), c'')" "output_bytes c'' = drop n (output_bytes c')" by blast
  with w emits_fields(9) [OF w(3)] show ?thesis by auto
qed

theorem output_stream_witness:
  "\<exists>res c' res' c''. write_output False [104, char_nl] True False terminal_core_new = (res, 2, c') \<and>
     output_bytes c' = [104, char_cr, char_nl] \<and>
     read_output False 2 True False c' = (res', 2, [104, char_cr], c'') \<and> output_bytes c'' = [char_nl]"
proof -
  obtain res k c' where w: "write_output False [104, char_nl] True False terminal_core_new = (res, k, c')"
    by (metis prod.collapse)
  then have "write_loop [104, char_nl] True 0 terminal_core_new = (res, k, c')"
    using new_facts by (simp add: write_output_def)
  note l = write_loop_ok [OF new_facts(1) this]
  have t: "out_text terminal_core_new 104 = [104]" "out_text terminal_core_new char_nl = [char_cr, char_nl]"
    by (simp_all add: out_text_def translates_newline_def output_flag_def terminal_core_new_def default_termios_def tty_consts)
  have len: "length (out_text terminal_core_new v) \<le> 2" for v by (simp add: out_text_def)
  have bytes: "output_bytes c' = concat (map (out_text terminal_core_new) (take k [104, char_nl]))"
    using emits_fields(9) [OF l(3)] new_facts(6) by simp
  have "k = 2"
  proof (rule ccontr)
    assume "k \<noteq> 2"
    with l(2) have k: "k = 0 \<or> k = 1" by auto
    then have "length (output_bytes c') \<le> 1" using bytes t by auto
    then show False using l(5) k len [of "[104, char_nl] ! k"] by (auto simp: queue_capacity_def)
  qed
  with bytes t have out: "output_bytes c' = [104, char_cr, char_nl]" by simp
  have ne: "output_bytes c' \<noteq> []" unfolding out by simp
  show ?thesis
    using output_stream [OF new_facts(1,9,11) _ w, of 2 True] ne w \<open>k = 2\<close> out by auto
qed



text \<open>
  C31. Progress in raw mode: if the master is reported writable, a write of at least one byte
  consumes at least one byte.
\<close>

theorem raw_writable_progress:
  assumes "tc_inv c" "\<not> is_canonical c" "master_poll_events c AND tty_poll_writable \<noteq> 0" "data \<noteq> []"
  shows "0 < fst (snd (receive_input False data nonblock False c))"
proof -
  have w: "\<not> tty_ring_full (input_ring c)" "\<not> input_shutdown c" "\<not> slave_hung_up c"
      "(if \<not> (local_flag c lflag_echo \<or> local_flag c lflag_echonl) then 0 else if output_flag c oflag_onlcr then 2 else 1)
         \<le> tty_ring_free_space (output_ring c)"
    using assms(2,3) unfolding master_poll_events_def Let_def event_bits by auto
  have echo: "echo_byte_size v c \<le> tty_ring_free_space (output_ring c)" for v
    using w(4) by (auto simp: echo_byte_size_def split: if_splits)
  obtain b bs where data: "data = b # bs" using assms(4) by (cases data) auto
  have "fst (receive_byte b c) = Next"
  proof (cases "translate_input c b")
    case (Some v)
    obtain d c1 where fc: "flow_control v c = (d, c1)" by force
    have raw: "fst (raw_byte v c1) = Next" "\<not> is_canonical c1" if "\<not> d"
    proof -
      have f: "flow_control v c = (False, c1)" using fc that by simp
      note same = flow_control_again(2-4) [OF f] flags_cong [OF flow_control_again(2) [OF f]]
      have "echo_byte_size v c1 = echo_byte_size v c" by (simp add: echo_sizes same)
      then show "fst (raw_byte v c1) = Next" using w(1) echo [of v] same by (simp add: raw_byte_def Let_def)
      show "\<not> is_canonical c1" using assms(2) same by simp
    qed
    show ?thesis using raw by (simp add: receive_byte_def Some fc)
  qed (simp add: receive_byte_def)
  then obtain c1 where "receive_byte b c = (Next, c1)" by (metis prod.collapse)
  then have "receive_loop data nonblock 0 c = receive_loop bs nonblock 1 c1" by (simp add: data)
  with w(2,3) receive_loop_mono [of 1 bs nonblock c1] show ?thesis by (simp add: receive_input_def data)
qed

definition raw_settings :: termios where
  "raw_settings = default_termios\<lparr>local_flags := lflag_echo\<rparr>"

definition raw_terminal :: terminal_core where
  "raw_terminal = terminal_core_new\<lparr>tc_termios := raw_settings\<rparr>"

lemma raw_terminal_facts:
  "tc_inv raw_terminal" "\<not> is_canonical raw_terminal" "master_poll_events raw_terminal AND tty_poll_writable \<noteq> 0"
proof -
  show "tc_inv raw_terminal" unfolding raw_terminal_def
    by (rule tc_inv_flags [OF new_facts(1)]) (simp add: raw_settings_def default_termios_def default_chars)
  show n: "\<not> is_canonical raw_terminal"
    by (simp add: is_canonical_def local_flag_def raw_terminal_def raw_settings_def tty_consts)
  show "master_poll_events raw_terminal AND tty_poll_writable \<noteq> 0"
    unfolding master_poll_events_def Let_def event_bits using n
    by (simp add: raw_terminal_def terminal_core_new_def tty_ring_full_def tty_ring_free_space_def tty_ring_new_def queue_capacity_def)
qed

theorem raw_writable_progress_witness:
  "0 < fst (snd (receive_input False [104] True False raw_terminal))"
  by (rule raw_writable_progress [OF raw_terminal_facts]) simp

text \<open>
  C32. A blocked byte can be retried: it leaves the queues, the line and the records as they were
  (at most it resumes paused output), and submitting it again in the state it left is blocked
  again without any further change.
\<close>

theorem blocked_byte_retry:
  assumes "tc_inv c" "receive_byte b c = (Blocked, c')"
  shows "receive_byte b c' = (Blocked, c') \<and> input_ring c' = input_ring c \<and> output_ring c' = output_ring c \<and>
    abs_lines c' = (abs_lines c)\<lparr>ls_paused := output_paused c'\<rparr>"
proof -
  obtain v where v: "translate_input c b = Some v" using assms(2) by (auto simp: receive_byte_def split: option.splits)
  obtain d c1 where fc: "flow_control v c = (d, c1)" by force
  have d: "\<not> d" "\<not> is_control_byte v c1" using assms(2) by (auto simp: receive_byte_def v fc split: if_splits)
  have f: "flow_control v c = (False, c1)" using fc d(1) by simp
  note again = flow_control_again [OF f]
  note same = flags_cong [OF again(2)]
  have inv: "tc_inv c1" using flow_control_inv [OF assms(1), of v] f by simp
  have edit: "(if is_canonical c1 then canonical_byte v c1 else raw_byte v c1) = (Blocked, c')"
    using assms(2) d by (simp add: receive_byte_def v f)
  then have c': "c' = c1"
    using canonical_byte_blocked [OF inv] by (auto simp: raw_byte_def Let_def split: if_splits)
  have "translate_input c1 b = Some v" using v translate_cong [OF again(2)] by simp
  then have "receive_byte b c1 = (Blocked, c1)" using again(1) edit c' d(2) by (simp add: receive_byte_def)
  moreover have "abs_lines c1 = (abs_lines c)\<lparr>ls_paused := output_paused c1\<rparr>"
  proof -
    have b: "bump_generation x = x\<lparr>generation := generation (bump_generation x)\<rparr>" for x
      by (simp add: bump_generation_def Let_def)
    have "c1 = c \<or> (\<exists>g. c1 = c\<lparr>output_paused := False, generation := g\<rparr>)"
      using f b [of "c\<lparr>output_paused := False\<rparr>"] by (auto simp: flow_control_def split: if_splits)
    then show ?thesis by (auto simp: abs_lines_def pending_line_def record_sizes_def)
  qed
  ultimately show ?thesis using again(3,4) c' by simp
qed

definition full_terminal :: terminal_core where
  "full_terminal = terminal_core_new\<lparr>canonical_size := queue_capacity\<rparr>"

lemma full_terminal_inv: "tc_inv full_terminal"
  unfolding full_terminal_def by (rule tc_inv_line(2) [OF new_facts(1)]) simp

lemma full_terminal_blocks: "receive_byte 104 full_terminal = (Blocked, full_terminal)"
proof -
  have t: "tc_termios full_terminal = tc_termios terminal_core_new" by (simp add: full_terminal_def)
  have e: "\<not> edits full_terminal 104" using new_plain(1) by (simp only: edits_def translate_cong [OF t] flags_cong [OF t] simp_thms)
  then have no: "\<not> (input_flag full_terminal iflag_ixon \<and> (104 = control_char full_terminal vstop \<or> 104 = control_char full_terminal vstart))"
      "\<not> (local_flag full_terminal lflag_ixten \<and> (104 = control_char full_terminal verase \<or> 104 = control_char full_terminal vkill))"
      "translate_input full_terminal 104 = Some 104" "\<not> is_control_byte 104 full_terminal"
    unfolding edits_def by blast+
  have "\<not> output_paused full_terminal" by (simp add: full_terminal_def terminal_core_new_def)
  then have "flow_control 104 full_terminal = (False, full_terminal)" unfolding flow_control_def using no(1) by auto
  moreover have "canonical_byte 104 full_terminal = (Blocked, full_terminal)"
  proof -
    have "\<not> store_fits full_terminal 104" by (simp add: store_fits_def full_terminal_def)
    moreover have "canonical_size full_terminal \<noteq> 0" by (simp add: full_terminal_def queue_capacity_def)
    ultimately show ?thesis using canonical_store [OF full_terminal_inv no(2)] by simp
  qed
  moreover have "is_canonical full_terminal" using new_facts(7) flags_cong(9) [OF t] by simp
  ultimately show ?thesis using no(3,4) by (simp add: receive_byte_def)
qed

theorem blocked_byte_retry_witness:
  "receive_byte 104 full_terminal = (Blocked, full_terminal) \<and>
   abs_lines full_terminal = (abs_lines full_terminal)\<lparr>ls_paused := output_paused full_terminal\<rparr>"
  using blocked_byte_retry [OF full_terminal_inv full_terminal_blocks] full_terminal_blocks by simp

section \<open>Two defects\<close>

lemma set_termios_eq:
  assumes "validate_termios t = Inr 0"
  shows "\<exists>p g. snd (set_termios t c) = c\<lparr>tc_termios := t, output_paused := p, generation := g\<rparr>"
  by (rule exI [of _ "output_paused (snd (set_termios t c))"], rule exI [of _ "generation (snd (set_termios t c))"])
    (simp add: set_termios_def bump_generation_def Let_def assms)

text \<open>
  C38. A change of mode leaves the record sizes behind: when bytes of a committed line are read in
  raw mode and the terminal then returns to canonical mode, the next read reports as many bytes
  as the line had, but writes none of them to the caller's buffer.
\<close>

theorem stale_record_read:
  assumes "tc_inv c" "framed c" "is_canonical c" "ls_records (abs_lines c) = r # rs" "r \<noteq> []" "0 < n"
    "validate_termios (tc_termios c) = Inr 0" "validate_termios raw = Inr 0" "local_flags raw AND lflag_icanon = 0"
    "control_chars raw ! vmin = 1"
  shows "let c1 = snd (set_termios raw c); c2 = snd (snd (snd (read_input False queue_capacity True False False c1)));
      c3 = snd (set_termios (tc_termios c) c2); (res, read, bytes, c4) = read_input False n True False False c3
    in res = Inr (cast_int (min (length r) n)) \<and> read = min (length r) n \<and> 0 < read \<and> bytes = []"
proof -
  obtain m ms where sizes: "record_sizes c = m # ms" using assms(4) by (cases "record_sizes c") (auto simp: abs_lines_def)
  have r: "r = take m (input_bytes c)" using assms(4) by (simp add: abs_lines_def sizes)
  have "input_record_count c \<noteq> 0" using length_record_sizes [of c] unfolding sizes by simp
  then have m: "length r = m" "unat (input_record_sizes c ! input_record_head c) = m" "input_record_count c \<noteq> 0"
    using assms(2) r record_sizes_head(1) [OF assms(1) sizes] sizes by (simp_all add: framed_def)
  have ne: "input_bytes c \<noteq> []" using r assms(5) by auto
  obtain p g where c1: "snd (set_termios raw c) = c\<lparr>tc_termios := raw, output_paused := p, generation := g\<rparr>"
    using set_termios_eq [OF assms(8)] by metis
  let ?c1 = "c\<lparr>tc_termios := raw, output_paused := p, generation := g\<rparr>"
  obtain q where q: "pop_bytes queue_capacity (input_ring c) = (input_bytes c, q)" "ring_ok q" "ring_list q = []"
    using pop_bytes_ok [OF tc_inv_rings(1) [OF assms(1)], of queue_capacity] ring_list_bound [OF tc_inv_rings(1) [OF assms(1)]]
    by (metis drop_all take_all)
  obtain g2 where c2: "snd (snd (snd (read_input False queue_capacity True False False ?c1))) =
      ?c1\<lparr>input_ring := q, generation := g2\<rparr>"
  proof -
    have "\<not> is_canonical ?c1" using assms(9) by (simp add: is_canonical_def local_flag_def)
    moreover have "0 < length (input_bytes c)" using ne by blast
    ultimately have "snd (snd (snd (read_input False queue_capacity True False False ?c1))) = bump_generation (?c1\<lparr>input_ring := q\<rparr>)"
      using ne q(1) assms(10) queue_capacity_pos
      by (simp add: read_input_def ring_observers control_char_def Let_def del: length_ring_list queue_capacity_pos)
    with that show ?thesis by (simp add: bump_generation_def Let_def)
  qed
  let ?c2 = "?c1\<lparr>input_ring := q, generation := g2\<rparr>"
  obtain p3 g3 where c3: "snd (set_termios (tc_termios c) ?c2) = ?c2\<lparr>tc_termios := tc_termios c, output_paused := p3, generation := g3\<rparr>"
    using set_termios_eq [OF assms(7)] by metis
  let ?c3 = "?c2\<lparr>tc_termios := tc_termios c, output_paused := p3, generation := g3\<rparr>"
  have can: "is_canonical ?c3" using assms(3) by (simp add: is_canonical_def local_flag_def)
  obtain q' where empty: "pop_bytes (min m n) q = ([], q')" using pop_bytes_ok [OF q(2), of "min m n"] q(3) by auto
  have "\<exists>c4. read_input False n True False False ?c3 = (Inr (cast_int (min m n)), min m n, [], c4)"
    using assms(6) can m(2,3) empty by (simp add: read_input_def read_canonical_record_def Let_def)
  moreover have "0 < min m n" using assms(5,6) m(1) by auto
  ultimately show ?thesis unfolding Let_def c1 c2 c3 m(1) by auto
qed

theorem stale_record_read_witness:
  "\<exists>c. let c1 = snd (set_termios raw_settings c); c2 = snd (snd (snd (read_input False queue_capacity True False False c1)));
      c3 = snd (set_termios default_termios c2); (res, read, bytes, c4) = read_input False 16 True False False c3
    in ls_records (abs_lines c) = [[104, 105, char_nl]] \<and> read = 3 \<and> bytes = []"
proof -
  obtain c where c: "tc_inv c" "framed c" "tc_termios c = tc_termios terminal_core_new"
      "ls_records (abs_lines c) = [[104, 105, char_nl]]"
    using typed_line [OF new_facts(1,2,7,8,10) refl, of "[104, 105]" True] new_plain by (auto simp: new_facts queue_capacity_def)
  have can: "is_canonical c" using flags_cong(9) [OF c(3)] new_facts(7) by simp
  have t: "tc_termios c = default_termios" using c(3) by (simp add: terminal_core_new_def)
  have v: "validate_termios default_termios = Inr 0" "validate_termios raw_settings = Inr 0"
      "local_flags raw_settings AND lflag_icanon = 0" "control_chars raw_settings ! vmin = 1"
    by (simp_all add: validate_termios_def raw_settings_def default_termios_def default_chars tty_consts)
  show ?thesis
    by (rule exI [of _ c])
      (use stale_record_read [OF c(1,2) can c(4), of 16 raw_settings] c(4) t v in \<open>auto simp: Let_def split_beta\<close>)
qed

text \<open>
  C39. A readiness change without a new generation: on a full line with the echo of erasures off,
  the erase character makes the master writable again, but the generation that watches compare
  stays the same.
\<close>

theorem silent_erase:
  assumes "is_canonical c" "local_flag c lflag_ixten" "\<not> local_flag c lflag_echoe" "canonical_size c = queue_capacity"
    "input_record_count c < queue_capacity" "\<not> input_shutdown c" "\<not> slave_hung_up c" "output_bytes c = []"
    "v = control_char c verase" "\<not> input_flag c iflag_ixon" "translate_input c v = Some v" "\<not> is_control_byte v c"
  shows "master_poll_events c AND tty_poll_writable = 0 \<and>
    master_poll_events (snd (receive_byte v c)) AND tty_poll_writable \<noteq> 0 \<and>
    generation (snd (receive_byte v c)) = generation c"
proof -
  let ?c = "c\<lparr>canonical_size := canonical_size c - 1\<rparr>"
  have "erase_text c = []" using assms(3) by (simp add: erase_text_def)
  moreover have t: "tc_termios ?c = tc_termios c" by simp
  ultimately have e: "echo_erase ?c = (True, ?c)" "\<not> tty_ring_free_space (output_ring c) < echo_erase_size c"
    using flags_cong(6) [OF t] by (simp_all add: echo_erase_def echo_sizes)
  have "canonical_byte v c = (Next, ?c)"
    using assms(2,4,9) e by (simp add: canonical_byte_def queue_capacity_def)
  then have rb: "receive_byte v c = (Next, ?c)"
    using assms(1,10-12) by (simp add: receive_byte_def flow_control_def)
  have free: "tty_ring_free_space (output_ring c) = queue_capacity" using assms(8) by (simp add: ring_observers)
  have two: "2 \<le> queue_capacity" by (simp add: queue_capacity_def)
  have "\<not> (master_poll_events c AND tty_poll_writable \<noteq> 0)"
    unfolding master_poll_events_def Let_def event_bits using assms(1,4) by simp
  moreover have "master_poll_events ?c AND tty_poll_writable \<noteq> 0"
    unfolding master_poll_events_def Let_def event_bits using assms(1,4-7) free two flags_cong(9) [OF t] by simp
  ultimately show ?thesis unfolding rb by simp
qed

definition erase_terminal :: terminal_core where
  "erase_terminal = full_terminal\<lparr>tc_termios := default_termios\<lparr>input_flags := 0, local_flags := lflag_icanon OR lflag_ixten\<rparr>\<rparr>"

theorem silent_erase_witness:
  "master_poll_events erase_terminal AND tty_poll_writable = 0 \<and>
    master_poll_events (snd (receive_byte 127 erase_terminal)) AND tty_poll_writable \<noteq> 0 \<and>
    generation (snd (receive_byte 127 erase_terminal)) = generation erase_terminal"
proof -
  have 1: "is_canonical erase_terminal" "local_flag erase_terminal lflag_ixten" "\<not> local_flag erase_terminal lflag_echoe"
      "127 = control_char erase_terminal verase" "\<not> input_flag erase_terminal iflag_ixon"
      "translate_input erase_terminal 127 = Some 127" "\<not> is_control_byte 127 erase_terminal"
    by (simp_all add: is_canonical_def local_flag_def input_flag_def control_char_def translate_input_def is_control_byte_def
        erase_terminal_def full_terminal_def default_termios_def default_chars tty_consts)
  have 2: "canonical_size erase_terminal = queue_capacity" "input_record_count erase_terminal < queue_capacity"
      "\<not> input_shutdown erase_terminal" "\<not> slave_hung_up erase_terminal" "output_bytes erase_terminal = []"
    by (simp_all add: erase_terminal_def full_terminal_def terminal_core_new_def)
  show ?thesis by (rule silent_erase [OF 1(1-3) 2 1(4-7)])
qed

end
