(* ===== verification/Spec2Isabelle.thy ===== *)
theory Spec2Isabelle
  imports Bounded_Queue Capability_Props Channel_Syscall Channel_Props Directory_Props Protocol_Props Send_Props
    Terminal_Props
begin

text \<open>
  Verification of the capability and communication core of NaOS: what a process may hold, how
  capabilities travel between processes, the channels they travel through, the directory in
  which services are found, and the line discipline of terminals. File names are relative to
  the source tree; \<^verbatim>\<open>kernel/x.cc\<close> stands for \<^verbatim>\<open>naos/src/kernel/x.cc\<close> and \<^verbatim>\<open>kernel/x.hpp\<close> for
  \<^verbatim>\<open>naos/includes/kernel/x.hpp\<close>.

  \<^bold>\<open>The parts and how they interact.\<close> A kernel object is reached through handles
  (\<^verbatim>\<open>kernel/handle.hpp\<close>). A process has a table of capabilities (\<^verbatim>\<open>kernel/resource.cc\<close>): a handle
  number, an object, and metadata with rights. Sending a message takes a batch out of the
  sender's table, carries it as resources in transit (\<^verbatim>\<open>kernel/capability.hpp\<close>) inside a channel
  message (\<^verbatim>\<open>kernel/ipc/channel.cc\<close>, on the ring of \<^verbatim>\<open>kernel/ipc/bounded_queue.hpp\<close>), and puts
  it into the receiver's table. Arguments and results cross \<^verbatim>\<open>kernel/usercopy.cc\<close>. The service
  directory (\<^verbatim>\<open>kernel/service_directory.cc\<close>) holds capabilities under names and connects a
  caller to a listener by creating a protocol (\<^verbatim>\<open>kernel/ipc/invocation.cc\<close>) and sending one of
  its ends through the listener's channel. A channel that can be reached only through its own
  messages is reclaimed by a collector. Objects learn where their capabilities are through
  hooks, on which the collector relies.

  \<^bold>\<open>Theories.\<close>
  \<^item> \<open>Naos_Prelude\<close>: types, status codes, rights and limits of \<^verbatim>\<open>naos/include/naos/abi.h\<close>, generic
    lemmas and the collection \<open>abi_defs\<close>.
  \<^item> \<open>Claim_Fifo\<close>: the interface of a first-in first-out queue with a claimable head as a locale;
    \<open>Bounded_Queue\<close> models the ring and interprets it.
  \<^item> \<open>Capability\<close>: handles as lists of reference events, entries, resources in transit, restore
    tokens. \<open>Resource_Table\<close>: one definition per operation of \<^verbatim>\<open>resource_table_t\<close>; its state is
    the record \<open>resource_table\<close>, with the hash map as an association list.
    \<open>Resource_Table_Inv\<close>, \<open>Resource_Batch\<close>: its invariant and the batches.
    \<open>Capability_System\<close>: sequences of operations of all users of a table (\<open>cap_run\<close>), with batches,
    resources and restrictions in flight. \<open>Capability_Authority\<close>: where every right comes from.
    \<open>Capability_Props\<close>: accounting, no amplification, uniqueness, restoring, closing, forking.
  \<^item> \<open>Usercopy\<close>: ranges, copies that stop at the first unmapped byte, size-prefixed frames.
  \<^item> \<open>Channel\<close>, \<open>Channel_Gc\<close>, \<open>Channel_Syscall\<close>: messages, quotas, states, endpoints, the
    collector and the calls, on the record \<open>kworld\<close> of all states, messages and objects by
    address; \<open>None\<close> is the access to freed memory. \<open>Channel_Heap\<close>, \<open>Channel_Quota\<close>,
    \<open>Channel_Ops\<close>, \<open>Channel_Gc_Mark\<close>, \<open>Channel_Gc_Sweep\<close>, \<open>Channel_Gc_Correct\<close>, \<open>Channel_New\<close>:
    the invariant \<open>chan_ok ext w\<close> (heap, reference counts with \<open>ext\<close> held outside, quotas,
    registry) and what each operation does. \<open>Event_Flow\<close>: how references move through lists of
    events. \<open>Channel_Reach\<close>: all worlds that holders of endpoints can produce.
    \<open>Channel_Props\<close>: memory safety, quotas, refinement to queues, the collector.
    \<open>Send_Props\<close>: the table and the channel together.
  \<^item> \<open>Protocol_Endpoint\<close>, \<open>Protocol_Props\<close>: descriptors and the creation of protocol ends.
  \<^item> \<open>Service_Directory\<close>, \<open>Directory_Inv\<close>, \<open>Directory_Connect\<close>, \<open>Directory_Props\<close>: the directory,
    its invariant on the kernel heap, connections, and the properties.
  \<^item> \<open>Terminal_Core\<close>, \<open>Terminal_Inv\<close>, \<open>Terminal_Lines\<close>, \<open>Terminal_Ops\<close>, \<open>Terminal_Props\<close>: the
    class \<^verbatim>\<open>terminal_core\<close> of \<^verbatim>\<open>naos/src/usr/ttyd\<close>.

  \<^bold>\<open>How the code is read.\<close> Machine integers are words and wrap; indices of rings and addresses of
  kernel objects are natural numbers, 0 being the null pointer. Status codes and error numbers
  are values. Whether an allocation succeeds is a parameter (\<open>mem\<close>, \<open>dmem\<close>, \<open>pmem\<close>, \<open>mem_ok\<close>),
  and the lemmas hold for every choice. Addresses are given out in order and not reused; lemmas
  that allocate ask that \<open>2 ^ 64\<close> is not exhausted. Operations that hold one lock are one step,
  and interleavings are sequences of such steps; the claim and the commit of a receive, and the
  parts of a batch transfer, are separate steps. Loops over data are structural recursions; the
  loops over a ring and the loops of the collector are total functions with a measure (the
  distance to the tail, the length of the queue, and for marking the work list plus the
  unmarked states), so that the collector needs no fuel. Fuel occurs only in \<open>list_pages\<close>, a
  client that reads a listing page by page, where one more than the number of services is
  proved enough. The compare-and-swap loops of the global counters are one step. Containers of the library
  \<^verbatim>\<open>freelibcxx\<close> are lists and association lists. Scope numbers, which the interface compiler
  generates, are the parameter \<open>scope_ids\<close>.

  \<^bold>\<open>What is shown.\<close> Capabilities: the entry count and the hooks are exact after any interleaving;
  rights never grow; unique objects are not multiplied; restoring a batch always succeeds; a
  closed handle stays closed; a fork copies what may be inherited. Channels: no operation of a
  holder touches freed memory; quotas are exact; the operations implement queues; kernel sends
  are all or nothing; what is sent is received; the collector keeps what is needed and removes
  the rest. Directory: every operation is safe, registering and resolving are inverse, listings
  are complete, connections deliver, departing owners leave nothing. Protocols: the validation
  is a specification, rights are bounded by the descriptor. Terminals: bounds, an abstract line
  editor, complete lines, ordered output, exact readiness. Three theorems state faults of the
  code: \<open>stale_record_read\<close>, \<open>server_rights_ignored\<close> and the second half of
  \<open>failed_send_table\<close>; \<open>silent_erase\<close> and \<open>valid_uri_segments\<close> show where the code differs from
  what its comments or checks intend.

  \<^bold>\<open>Not modelled.\<close> The waiting calls \<^verbatim>\<open>wait_many\<close> and \<^verbatim>\<open>wait_for_signal\<close> and the loops that block in
  them (they need a model of time and of the scheduler). The protocol state and the
  invocations of \<^verbatim>\<open>kernel/ipc/invocation.cc\<close> (their message formats are generated from the
  interface descriptions under \<^verbatim>\<open>idl\<close>, and the handlers call into the tasks, the file system
  and the terminals). The reference count itself and its memory ordering: a handle operation is
  the event it has on the count. The interleaving of instructions inside a lock. Tasks,
  scheduling, virtual memory, file systems, drivers, start-up and the architecture code, whose
  effect is on hardware state, and the user programs other than the line discipline, which are
  loops around system calls.
\<close>

end
